(* ===== verification/Atmail_Prelude.thy ===== *)
theory Atmail_Prelude
  imports Main "HOL-Library.Word"
begin

text \<open>
  What the components share: the types that stand for Go's, the functions of Go's
  \<open>strings\<close> package that the sources call, and the collections of simplification rules
  the component theories fill.

  A Go \<open>string\<close> is a sequence of bytes, and so is an Isabelle \<open>string\<close>: a \<open>char\<close> is
  one byte, \<open>length\<close> is Go's \<open>len\<close>. Fallible code returns a sum, \<open>Inl\<close> the error.
  A Go map that is only looked up and updated is a partial function.
\<close>

named_theorems go_strings \<open>the functions of Go's strings package\<close>
named_theorems shrink \<open>operations that never make the unread input longer\<close>

type_synonym u8 = "8 word"
type_synonym u32 = "32 word"
type_synonym bytes = "u8 list"

abbreviation byte_of :: "char \<Rightarrow> nat" where
  "byte_of c \<equiv> of_char c"

section \<open>Go's strings package\<close>

text \<open>\<open>strings.HasPrefix\<close>, \<open>strings.Contains\<close>, \<open>strings.Cut\<close> and \<open>strings.Split\<close>.\<close>

fun has_prefix :: "'a list \<Rightarrow> 'a list \<Rightarrow> bool" where
  "has_prefix s [] = True"
| "has_prefix [] (p # ps) = False"
| "has_prefix (c # s) (p # ps) = (c = p \<and> has_prefix s ps)"

fun contains :: "'a list \<Rightarrow> 'a list \<Rightarrow> bool" where
  "contains [] sub = (sub = [])"
| "contains (c # s) sub = (has_prefix (c # s) sub \<or> contains s sub)"

text \<open>\<open>strings.Cut(s, sep)\<close> for a separator of one byte, the only form the sources use.\<close>

fun str_cut :: "string \<Rightarrow> char \<Rightarrow> string \<times> string \<times> bool" where
  "str_cut [] sep = ([], [], False)"
| "str_cut (c # s) sep =
     (if c = sep then ([], s, True)
      else (case str_cut s sep of (bef, aft, found) \<Rightarrow> (c # bef, aft, found)))"

lemma has_prefix_iff [go_strings]: "has_prefix s p \<longleftrightarrow> (\<exists>t. s = p @ t)"
  by (induction s p rule: has_prefix.induct) auto

lemma contains_iff [go_strings]: "contains s sub \<longleftrightarrow> (\<exists>a b. s = a @ sub @ b)"
proof (induction s)
  case Nil
  then show ?case by auto
next
  case (Cons c s)
  have "(\<exists>a b. c # s = a @ sub @ b) \<longleftrightarrow> (\<exists>b. c # s = sub @ b) \<or> (\<exists>a b. s = a @ sub @ b)"
    by (metis append_Cons append_Nil append_eq_Cons_conv)
  then show ?case
    by (simp add: Cons.IH has_prefix_iff)
qed

lemma cut_eq_takeWhile [go_strings]:
  "str_cut s sep = (takeWhile (\<lambda>c. c \<noteq> sep) s, tl (dropWhile (\<lambda>c. c \<noteq> sep) s), sep \<in> set s)"
  by (induction s) auto

lemma cut_none [go_strings]: "sep \<notin> set s \<Longrightarrow> str_cut s sep = (s, [], False)"
  by (induction s) auto

lemma cut_append [go_strings]: "sep \<notin> set a \<Longrightarrow> str_cut (a @ sep # b) sep = (a, b, True)"
  by (induction a) auto

text \<open>The decimal digits of a number, and \<open>strconv.Itoa\<close>.\<close>

fun decimal :: "nat \<Rightarrow> string" where
  "decimal n = (if n < 10 then [char_of (48 + n)] else decimal (n div 10) @ [char_of (48 + n mod 10)])"

declare decimal.simps [simp del]

definition Itoa :: "int \<Rightarrow> string" where
  "Itoa i = (if i < 0 then CHR ''-'' # decimal (nat (- i)) else decimal (nat i))"

section \<open>Transition systems\<close>

text \<open>What the components that run concurrently share: their states are those reached from the
  initial one by steps, and an invariant of the steps holds in all of them.\<close>

locale transition_system =
  fixes init :: "'s \<Rightarrow> bool" and step :: "'s \<Rightarrow> 's \<Rightarrow> bool" and inv :: "'s \<Rightarrow> bool"
  assumes init_inv: "init s \<Longrightarrow> inv s"
    and step_inv: "inv s \<Longrightarrow> step s s' \<Longrightarrow> inv s'"
begin

lemma steps_inv: "step\<^sup>*\<^sup>* s s' \<Longrightarrow> inv s \<Longrightarrow> inv s'"
  by (induction rule: rtranclp_induct) (auto intro: step_inv)

lemma reachable_inv: "init s \<Longrightarrow> step\<^sup>*\<^sup>* s s' \<Longrightarrow> inv s'"
  using steps_inv init_inv by blast

end

text \<open>The runs of a component whose steps have a label, what is seen of them from outside, and the
  trace of labels a run leaves.\<close>

inductive traced :: "('l \<Rightarrow> 's \<Rightarrow> 's \<Rightarrow> bool) \<Rightarrow> 's \<Rightarrow> 'l list \<Rightarrow> 's \<Rightarrow> bool" for step where
  traced_nil: "traced step s [] s"
| traced_snoc: "traced step s ls s' \<Longrightarrow> step l s' s'' \<Longrightarrow> traced step s (ls @ [l]) s''"

text \<open>A component implements an abstract one: every step of it, from a state that satisfies the
  invariant, is a step of the abstract one on the abstract state, with the same label. So every
  trace of it is one of the abstract component.\<close>

locale refinement = transition_system init "\<lambda>s s'. \<exists>l. step l s s'" inv
  for init :: "'s \<Rightarrow> bool" and step :: "'l \<Rightarrow> 's \<Rightarrow> 's \<Rightarrow> bool" and inv :: "'s \<Rightarrow> bool" +
  fixes abs :: "'s \<Rightarrow> 'a" and astep :: "'l \<Rightarrow> 'a \<Rightarrow> 'a \<Rightarrow> bool"
  assumes simulates: "inv s \<Longrightarrow> step l s s' \<Longrightarrow> astep l (abs s) (abs s')"
begin

lemma traced_inv: "traced step s ls s' \<Longrightarrow> inv s \<Longrightarrow> inv s'"
  by (induction rule: traced.induct) (auto intro: step_inv)

lemma traces_simulated: "traced step s ls s' \<Longrightarrow> inv s \<Longrightarrow> traced astep (abs s) ls (abs s')"
proof (induction rule: traced.induct)
  case (traced_snoc s ls s' l s'')
  have "inv s'" using traced_inv [OF traced_snoc.hyps(1) traced_snoc.prems] .
  then have "astep l (abs s') (abs s'')" using simulates [OF _ traced_snoc.hyps(2)] by blast
  with traced_snoc.IH [OF traced_snoc.prems] show ?case by (rule traced.traced_snoc)
qed (rule traced.traced_nil)

lemma reachable_simulated: "init s \<Longrightarrow> traced step s ls s' \<Longrightarrow> traced astep (abs s) ls (abs s')"
  using traces_simulated init_inv by blast

end

end
