(* ===== verification/Filter_Lexer.thy ===== *)
theory Filter_Lexer
  imports Atmail_Prelude
begin

text \<open>
  The lexer of the filter language (\<open>src/filter/lexer.go\<close>): the kinds of lexems, the
  classification of one byte (\<open>kindOf\<close>), the loop of \<open>Next\<close> with its skipping of
  comments, and \<open>Peek\<close>, \<open>SkipSep\<close>, \<open>NextOrErr\<close>, \<open>PeekOrErr\<close>.

  The \<open>bufio.Reader\<close> is the list of the bytes not read yet. The sources only give the
  lexer a \<open>bytes.Buffer\<close>, whose only error is \<open>io.EOF\<close>, so the \<open>panic\<close> of \<open>peekNext\<close> on
  another error has no counterpart. The counters \<open>line\<close> and \<open>char\<close> are bounded by the
  length of the input, far below the range of a Go \<open>uint\<close>; they are naturals.
\<close>

section \<open>Data\<close>

datatype Kind =
    identifier_kind | identifier_compose | identifier_execute
  | identifier_param_beg | identifier_param_end | identifier_param_sep
  | string_del | number | operator_low | operator_high | super_operator
  | block_beg | block_end | filter_kind | separator | let_kind | comment_kind | generic

record Lexem =
  lexKind :: Kind
  lexValue :: string
  lexLine :: nat

record Lexer =
  content :: string
  current :: "Lexem option"
  lineNo :: nat
  charNo :: nat

definition validOps :: "string list" where
  "validOps = [''='', ''!='', ''>='', ''<='', ''>'', ''<'']"

definition NewLexer :: "string \<Rightarrow> Lexer" where
  "NewLexer r = \<lparr>content = r, current = None, lineNo = 1, charNo = 0\<rparr>"

definition newline :: char where
  "newline = CHR 0x0A"

definition IsHardSep :: "Lexem \<Rightarrow> bool" where
  "IsHardSep lm \<longleftrightarrow> lexKind lm = separator \<and> newline \<in> set (lexValue lm)"

section \<open>Classifying one byte\<close>

definition isDigit :: "char \<Rightarrow> bool" where
  "isDigit r \<longleftrightarrow> 48 \<le> byte_of r \<and> byte_of r \<le> 57"

definition nilOr :: "'a option \<Rightarrow> 'a \<Rightarrow> bool" where
  "nilOr val orv \<longleftrightarrow> (case val of None \<Rightarrow> True | Some v \<Rightarrow> v = orv)"

definition inAz :: "char \<Rightarrow> bool" where
  "inAz c \<longleftrightarrow> 65 \<le> byte_of c \<and> byte_of c \<le> 122"

text \<open>The part of \<open>kindOf\<close> after its switch: reached by the default case and by a minus
  sign that does not open a number.\<close>

definition kindOf_rest :: "Kind option \<Rightarrow> char \<Rightarrow> char option \<Rightarrow> Kind \<times> bool" where
  "kindOf_rest prev cur nxt =
     (if isDigit cur \<and> nilOr prev number then (number, False)
      else if cur = CHR ''.'' \<and> nxt \<noteq> None
           then (if isDigit (the nxt) then (number, False) else (identifier_compose, False))
      else if (nilOr prev identifier_kind \<and> inAz cur) \<or>
              (prev \<noteq> None \<and> (cur = CHR ''_'' \<or> cur = CHR ''-'' \<or> isDigit cur))
           then (identifier_kind, False)
      else (generic, False))"

definition kindOf :: "Kind option \<Rightarrow> char \<Rightarrow> char option \<Rightarrow> Kind \<times> bool" where
  "kindOf prev cur nxt =
     (if cur = CHR ''#'' then (comment_kind, False)
      else if cur \<in> {CHR ''='', CHR ''!'', CHR ''>'', CHR ''<''} then (operator_low, False)
      else if cur \<in> {CHR '' '', newline, CHR 0x0D, CHR 0x09} then (separator, False)
      else if cur = CHR '':'' then (identifier_execute, True)
      else if cur = CHR ''('' then (identifier_param_beg, True)
      else if cur = CHR '')'' then (identifier_param_end, True)
      else if cur = CHR '','' then (identifier_param_sep, True)
      else if cur = CHR 0x22 then (string_del, True)
      else if cur = CHR ''-'' \<and> prev = None \<and> nxt \<noteq> None \<and> isDigit (the nxt)
           then (number, False)
      else kindOf_rest prev cur nxt)"

section \<open>Reading\<close>

definition peekNext :: "string \<Rightarrow> (char \<times> char option) option" where
  "peekNext s = (case s of [] \<Rightarrow> None
                 | [c] \<Rightarrow> Some (c, None)
                 | c # d # _ \<Rightarrow> Some (c, Some d))"

text \<open>\<open>bufio.Reader.ReadBytes\<close> up to and with the next newline, its result dropped.\<close>

fun readLine :: "string \<Rightarrow> string" where
  "readLine [] = []"
| "readLine (c # s) = (if c = newline then s else readLine s)"

text \<open>\<open>strings.Builder.WriteRune\<close> on a byte taken as a rune: a byte below 128 is written
  as it is, any other is encoded as the two bytes of its code point in UTF-8.\<close>

definition WriteRune :: "char \<Rightarrow> string" where
  "WriteRune r = (if byte_of r < 128 then [r]
                  else [char_of (192 + byte_of r div 64), char_of (128 + byte_of r mod 64)])"

text \<open>The inner loop of \<open>Next\<close>, which skips comments. At the end of the input the loop is
  left with the kind still \<open>comment\<close>, the rune 0 and no next rune.\<close>

type_synonym look = "char \<times> char option \<times> Kind \<times> bool"

lemma length_readLine [shrink]: "length (readLine s) \<le> length s"
  by (induction s) auto

lemma length_readLine_less: "s \<noteq> [] \<Longrightarrow> length (readLine s) < length s"
  by (cases s) (auto simp: less_Suc_eq_le length_readLine)

lemma peekNext_None [simp]: "peekNext s = None \<longleftrightarrow> s = []"
  by (simp add: peekNext_def split: list.splits)

lemma peekNext_Nil [simp]: "peekNext [] = None"
  by simp

lemma peekNext_Cons [simp]:
  "peekNext (c # t) = Some (c, if t = [] then None else Some (hd t))"
  by (cases t) (simp_all add: peekNext_def)

function skipComments :: "Kind option \<Rightarrow> Lexer \<Rightarrow> look \<Rightarrow> Lexer \<times> look" where
  "skipComments kind lx (cur, nxt, ckind, unique) =
     (if ckind \<noteq> comment_kind then (lx, (cur, nxt, ckind, unique))
      else let lx1 = lx\<lparr>content := readLine (content lx)\<rparr>
           in case peekNext (content lx1) of
                None \<Rightarrow> (lx1, (CHR 0x00, None, comment_kind, unique))
              | Some (cur', nxt') \<Rightarrow>
                  skipComments kind (lx1\<lparr>lineNo := Suc (lineNo lx1), charNo := 0\<rparr>)
                    (cur', nxt', kindOf kind cur' nxt'))"
  by pat_completeness auto
termination
proof (relation "measure (\<lambda>(kind, lx, look). length (content lx))", goal_cases)
  case 1
  then show ?case by simp
next
  case (2 kind lx cur nxt ckind unique lx1 look cur' nxt')
  then have "content lx \<noteq> []" by (auto simp: peekNext_def split: list.splits)
  with 2 show ?case by (simp add: length_readLine_less)
qed

declare skipComments.simps [simp del]

lemma skipComments_noncomment [simp]:
  "ckind \<noteq> comment_kind \<Longrightarrow> skipComments kind lx (cur, nxt, ckind, u) = (lx, (cur, nxt, ckind, u))"
  by (simp add: skipComments.simps)

lemma skipComments_comment:
  "skipComments kind lx (cur, nxt, comment_kind, u) =
     (case peekNext (readLine (content lx)) of
        None \<Rightarrow> (lx\<lparr>content := readLine (content lx)\<rparr>, (CHR 0x00, None, comment_kind, u))
      | Some (c, n) \<Rightarrow>
          skipComments kind
            (lx\<lparr>content := readLine (content lx), lineNo := Suc (lineNo lx), charNo := 0\<rparr>)
            (c, n, kindOf kind c n))"
  by (subst skipComments.simps) (simp add: Let_def split: option.splits)

text \<open>An induction rule over the comments that are skipped.\<close>

lemma skipComments_induct [case_names other eof more]:
  assumes other: "\<And>lx cur nxt ckind u. ckind \<noteq> comment_kind \<Longrightarrow> P lx (cur, nxt, ckind, u)"
    and eof: "\<And>lx cur nxt u. readLine (content lx) = [] \<Longrightarrow> P lx (cur, nxt, comment_kind, u)"
    and more: "\<And>lx cur nxt u c n. peekNext (readLine (content lx)) = Some (c, n) \<Longrightarrow>
      P (lx\<lparr>content := readLine (content lx), lineNo := Suc (lineNo lx), charNo := 0\<rparr>)
        (c, n, kindOf kind c n) \<Longrightarrow> P lx (cur, nxt, comment_kind, u)"
  shows "P lx l"
proof (induction "length (content lx)" arbitrary: lx l rule: less_induct)
  case (less lx l)
  obtain cur nxt ckind u where l: "l = (cur, nxt, ckind, u)" by (cases l) auto
  show ?case
  proof (cases "ckind = comment_kind")
    case False
    with other l show ?thesis by simp
  next
    case True
    show ?thesis
    proof (cases "peekNext (readLine (content lx))")
      case None
      with eof l True show ?thesis by simp
    next
      case (Some p)
      obtain c n where p: "p = (c, n)" by (cases p)
      have "content lx \<noteq> []" using Some by (auto simp: peekNext_def)
      then have "length (readLine (content lx)) < length (content lx)"
        by (rule length_readLine_less)
      with less Some p more l True show ?thesis by simp
    qed
  qed
qed

lemma skipComments_content_le [shrink]:
  "length (content (fst (skipComments kind lx l))) \<le> length (content lx)"
proof (induction lx l rule: skipComments_induct [where kind = kind])
  case (more lx cur nxt u c n)
  then show ?case
    using length_readLine [of "content lx"] by (simp add: skipComments_comment)
qed (simp_all add: skipComments_comment length_readLine)

lemma set_readLine: "set (readLine s) \<subseteq> set s"
  by (induction s) auto

lemma skipComments_content_set:
  "set (content (fst (skipComments kind lx l))) \<subseteq> set (content lx)"
proof (induction lx l rule: skipComments_induct [where kind = kind])
  case (more lx cur nxt u c n)
  then show ?case
    using set_readLine [of "content lx"] by (simp add: skipComments_comment)
qed (simp_all add: skipComments_comment set_readLine)

lemma skipComments_drop_less:
  assumes "skipComments kind lx l = (lx1, l1)" and "content lx \<noteq> []"
  shows "length (content lx1) - Suc 0 < length (content lx)"
  using skipComments_content_le [of kind lx l] assms by (cases "content lx") auto

section \<open>The loop of Next\<close>

definition advance :: "char \<Rightarrow> Lexer \<Rightarrow> Lexer" where
  "advance cur lx =
     (if cur = newline then lx\<lparr>lineNo := Suc (lineNo lx), charNo := 0\<rparr>
      else lx\<lparr>charNo := Suc (charNo lx)\<rparr>)"

definition ReadByte :: "Lexer \<Rightarrow> Lexer" where
  "ReadByte lx = lx\<lparr>content := drop 1 (content lx)\<rparr>"

lemma content_advance [simp]: "content (advance c lx) = content lx"
  and current_advance [simp]: "current (advance c lx) = current lx"
  by (simp_all add: advance_def)

lemma content_ReadByte [simp]: "content (ReadByte lx) = drop 1 (content lx)"
  and current_ReadByte [simp]: "current (ReadByte lx) = current lx"
  and lineNo_ReadByte [simp]: "lineNo (ReadByte lx) = lineNo lx"
  by (simp_all add: ReadByte_def)

function nextLoop :: "Lexer \<Rightarrow> string \<Rightarrow> Kind option \<Rightarrow> Lexer \<times> string \<times> Kind option" where
  "nextLoop lx sb kind =
     (case peekNext (content lx) of
        None \<Rightarrow> (lx, sb, kind)
      | Some (cur0, nxt0) \<Rightarrow>
          (case skipComments kind lx (cur0, nxt0, kindOf kind cur0 nxt0) of
             (lx1, (cur, nxt, ckind, unique)) \<Rightarrow>
               (if kind \<noteq> None \<and> kind \<noteq> Some ckind then (lx1, sb, kind)
                else if unique \<and> sb \<noteq> [] then (lx1, sb, kind)
                else let lx2 = ReadByte (advance cur lx1); sb' = sb @ WriteRune cur
                     in if nxt = None then (lx2, sb', Some ckind)
                        else nextLoop lx2 sb' (Some ckind))))"
  by pat_completeness auto
termination
proof (relation "measure (\<lambda>(lx, sb, kind). length (content lx))", goal_cases)
  case 1
  then show ?case by simp
next
  case (2 lx sb kind)
  then have "content lx \<noteq> []" by (auto simp: peekNext_def split: list.splits)
  with 2 show ?case
    by (auto dest!: sym [of _ "skipComments _ _ _"] dest: skipComments_drop_less)
qed

declare nextLoop.simps [simp del]

text \<open>The switch at the end of \<open>Next\<close>: keywordSet and operators.\<close>

definition keyword :: "Kind \<Rightarrow> string \<Rightarrow> Kind" where
  "keyword kind v =
     (if kind = identifier_kind then
        (if v = ''do'' then block_beg
         else if v = ''end'' then block_end
         else if v = ''filter'' then filter_kind
         else if v = ''or'' then operator_high
         else if v = ''let'' then let_kind
         else identifier_kind)
      else if kind = operator_low \<and> v \<notin> set validOps then generic
      else kind)"

definition Next :: "Lexer \<Rightarrow> Lexem option \<times> Lexer" where
  "Next l =
     (case current l of
        Some lm \<Rightarrow> (Some lm, l\<lparr>current := None\<rparr>)
      | None \<Rightarrow>
          (case nextLoop l [] None of
             (l', sb, None) \<Rightarrow> (None, l')
           | (l', sb, Some kind) \<Rightarrow>
               (Some \<lparr>lexKind = keyword kind sb, lexValue = sb, lexLine = lineNo l\<rparr>, l')))"

definition Peek :: "Lexer \<Rightarrow> Lexem option \<times> Lexer" where
  "Peek l =
     (case current l of
        Some lm \<Rightarrow> (Some lm, l)
      | None \<Rightarrow> (case Next l of (lm, l') \<Rightarrow> (lm, l'\<lparr>current := lm\<rparr>)))"

definition SkipSep :: "Lexer \<Rightarrow> bool \<times> Lexer" where
  "SkipSep l =
     (case Peek l of
        (None, l') \<Rightarrow> (False, l')
      | (Some lm, l') \<Rightarrow>
          (if lexKind lm \<noteq> separator then (False, l') else (True, snd (Next l'))))"

datatype lexError = ExpectingTokenError nat

definition NextOrErr :: "Lexer \<Rightarrow> (lexError + Lexem) \<times> Lexer" where
  "NextOrErr l =
     (case Next l of
        (None, l') \<Rightarrow> (Inl (ExpectingTokenError (charNo l')), l')
      | (Some lm, l') \<Rightarrow> (Inr lm, l'))"

definition PeekOrErr :: "Lexer \<Rightarrow> (lexError + Lexem) \<times> Lexer" where
  "PeekOrErr l =
     (case Peek l of
        (None, l') \<Rightarrow> (Inl (ExpectingTokenError (charNo l')), l')
      | (Some lm, l') \<Rightarrow> (Inr lm, l'))"

section \<open>What skipping comments does\<close>

text \<open>Reference: the text with every comment removed, from its hash to the end of its line,
  the newline included.\<close>

function stripComments :: "string \<Rightarrow> string" where
  "stripComments [] = []"
| "stripComments (c # s) = (if c = CHR ''#'' then stripComments (readLine s) else c # stripComments s)"
  by pat_completeness auto
termination
  by (relation "measure length") (auto simp: less_Suc_eq_le length_readLine)

abbreviation newlines :: "string \<Rightarrow> nat" where
  "newlines s \<equiv> count_list s newline"

lemma newlines_readLine: "readLine s \<noteq> [] \<Longrightarrow> newlines s = Suc (newlines (readLine s))"
  by (induction s) auto

lemma kindOf_rest_range:
  "fst (kindOf_rest prev c n) \<in> {number, identifier_compose, identifier_kind, generic}"
  by (simp add: kindOf_rest_def)

lemma kindOf_hash [simp]: "kindOf prev (CHR ''#'') n = (comment_kind, False)"
  by (simp add: kindOf_def)

lemma kindOf_rest_not_comment [simp]: "fst (kindOf_rest prev c n) \<noteq> comment_kind"
  using kindOf_rest_range [of prev c n] by auto

lemma kindOf_comment: "fst (kindOf prev c n) = comment_kind \<longleftrightarrow> c = CHR ''#''"
  by (simp add: kindOf_def)

lemma kindOf_commentD: "kindOf prev c n = (comment_kind, u) \<Longrightarrow> c = CHR ''#''"
  using kindOf_comment [of prev c n] by simp

lemma peekNext_Some:
  "peekNext s = Some (c, n) \<longleftrightarrow> (\<exists>t. s = c # t \<and> n = (if t = [] then None else Some (hd t)))"
  by (cases s) auto

text \<open>Where the reader stands after the comments: at a byte that is not a hash, classified
  as if it had been seen at once, or at the end of the input.\<close>

definition lookAt :: "Kind option \<Rightarrow> string \<Rightarrow> look \<Rightarrow> bool" where
  "lookAt kind s l \<longleftrightarrow>
     (case l of (cur, nxt, ckind, unique) \<Rightarrow>
        peekNext s = Some (cur, nxt) \<and> kindOf kind cur nxt = (ckind, unique))"

definition atEOF :: "look \<Rightarrow> bool" where
  "atEOF l \<longleftrightarrow> (\<exists>u. l = (CHR 0x00, None, comment_kind, u))"

lemma skipComments_spec:
  assumes "lookAt kind (content lx) l" and "skipComments kind lx l = (lx', l')"
  shows "stripComments (content lx') = stripComments (content lx)"
    and "current lx' = current lx"
    and "content lx' = [] \<and> atEOF l' \<or>
         (lookAt kind (content lx') l' \<and> hd (content lx') \<noteq> CHR ''#'' \<and>
          lineNo lx' + newlines (content lx') = lineNo lx + newlines (content lx))"
  using assms
proof (induction lx l arbitrary: rule: skipComments_induct [where kind = kind])
  case (other lx cur nxt ckind u)
  {
    case 1
    with other show ?case by simp
  next
    case 2
    with other show ?case by simp
  next
    case 3
    with other show ?case
      by (cases "content lx") (auto simp: lookAt_def)
  }
next
  case (eof lx cur nxt u)
  have h: "lookAt kind (content lx) (cur, nxt, comment_kind, u) \<Longrightarrow> stripComments (content lx) = []"
    using eof by (auto simp: lookAt_def peekNext_Some dest!: kindOf_commentD split: if_splits)
  {
    case 1
    with eof h show ?case by (auto simp: skipComments_comment)
  next
    case 2
    with eof show ?case by (auto simp: skipComments_comment)
  next
    case 3
    with eof show ?case by (auto simp: skipComments_comment atEOF_def)
  }
next
  case (more lx cur nxt u c n)
  let ?lx = "lx\<lparr>content := readLine (content lx), lineNo := Suc (lineNo lx), charNo := 0\<rparr>"
  have look: "lookAt kind (content ?lx) (c, n, kindOf kind c n)"
    using more.hyps by (simp add: lookAt_def split: prod.splits)
  have nl: "newlines (content lx) = Suc (newlines (readLine (content lx)))"
    using more.hyps by (intro newlines_readLine) auto
  have step: "skipComments kind lx (cur, nxt, comment_kind, u) = skipComments kind ?lx (c, n, kindOf kind c n)"
    using more.hyps by (simp add: skipComments_comment)
  have strip: "lookAt kind (content lx) (cur, nxt, comment_kind, u) \<Longrightarrow>
      stripComments (content lx) = stripComments (readLine (content lx))"
    by (auto simp: lookAt_def peekNext_Some newline_def dest!: kindOf_commentD)
  {
    case 1
    with more.IH(1) [OF look] step strip show ?case by simp
  next
    case 2
    with more.IH(2) [OF look] step show ?case by simp
  next
    case 3
    with more.IH(3) [OF look] step nl show ?case by auto
  }
qed

section \<open>An induction rule for the loop of Next\<close>

text \<open>The lexer before and after comments are skipped.\<close>

definition skipped :: "Lexer \<Rightarrow> Lexer \<Rightarrow> bool" where
  "skipped lx lx' \<longleftrightarrow>
     stripComments (content lx') = stripComments (content lx) \<and> current lx' = current lx \<and>
     length (content lx') \<le> length (content lx) \<and> set (content lx') \<subseteq> set (content lx) \<and>
     (content lx' \<noteq> [] \<longrightarrow> hd (content lx') \<noteq> CHR ''#'' \<and>
        lineNo lx' + newlines (content lx') = lineNo lx + newlines (content lx))"

lemma WriteRune_not_Nil [simp]: "WriteRune c \<noteq> []"
  by (simp add: WriteRune_def)

abbreviation ahead :: "string \<Rightarrow> char option" where
  "ahead t \<equiv> (if t = [] then None else Some (hd t))"

lemma nextLoop_Nil [simp]: "content lx = [] \<Longrightarrow> nextLoop lx sb kind = (lx, sb, kind)"
  by (simp add: nextLoop.simps)

lemma nextLoop_cases:
  assumes "content lx \<noteq> []" and "kind = None \<longleftrightarrow> sb = []" and "kind \<noteq> Some comment_kind"
  obtains
    (stop) lx1 where "kind \<noteq> None" and "skipped lx lx1" and "nextLoop lx sb kind = (lx1, sb, kind)"
  | (comment) lx1 where "kind = None" and "skipped lx lx1" and "content lx1 = []"
      and "nextLoop lx sb kind = (ReadByte (advance (CHR 0x00) lx1), [CHR 0x00], Some comment_kind)"
  | (read) lx1 c t ck u where "skipped lx lx1" and "content lx1 = c # t" and "c \<noteq> CHR ''#''"
      and "kindOf kind c (ahead t) = (ck, u)" and "kind = None \<or> kind = Some ck"
      and "u \<longrightarrow> sb = []"
      and "nextLoop lx sb kind = nextLoop (ReadByte (advance c lx1)) (sb @ WriteRune c) (Some ck)"
proof -
  obtain c0 t0 where c0: "content lx = c0 # t0" using assms(1) by (cases "content lx") auto
  obtain ck0 u0 where k0: "kindOf kind c0 (ahead t0) = (ck0, u0)" by (cases "kindOf kind c0 (ahead t0)")
  define l where "l = (c0, ahead t0, ck0, u0)"
  obtain lx1 cur nxt ckind unique where
    sk: "skipComments kind lx l = (lx1, (cur, nxt, ckind, unique))"
    by (metis prod.exhaust)
  have look: "lookAt kind (content lx) l" using c0 k0 by (simp add: lookAt_def l_def)
  note spec = skipComments_spec [OF look sk]
  have skd: "skipped lx lx1"
    using spec skipComments_content_le [of kind lx l] skipComments_content_set [of kind lx l] sk
    by (auto simp: skipped_def atEOF_def)
  have eq: "nextLoop lx sb kind =
      (if kind \<noteq> None \<and> kind \<noteq> Some ckind then (lx1, sb, kind)
       else if unique \<and> sb \<noteq> [] then (lx1, sb, kind)
       else if nxt = None then (ReadByte (advance cur lx1), sb @ WriteRune cur, Some ckind)
       else nextLoop (ReadByte (advance cur lx1)) (sb @ WriteRune cur) (Some ckind))"
    using sk c0 k0 by (subst nextLoop.simps) (simp add: l_def Let_def)
  show thesis
  proof (cases "(kind \<noteq> None \<and> kind \<noteq> Some ckind) \<or> (unique \<and> sb \<noteq> [])")
    case True
    then have "kind \<noteq> None" and "nextLoop lx sb kind = (lx1, sb, kind)"
      using eq assms(2) by auto
    then show thesis using skd stop by blast
  next
    case go: False
    from spec(3) show thesis
    proof
      assume "content lx1 = [] \<and> atEOF (cur, nxt, ckind, unique)"
      then show thesis using go eq skd assms(2,3) comment [of lx1]
        by (auto simp: atEOF_def WriteRune_def)
    next
      assume a: "lookAt kind (content lx1) (cur, nxt, ckind, unique) \<and> hd (content lx1) \<noteq> CHR ''#'' \<and>
        lineNo lx1 + newlines (content lx1) = lineNo lx + newlines (content lx)"
      then obtain t where t: "content lx1 = cur # t" and nxt: "nxt = ahead t"
        and k: "kindOf kind cur nxt = (ckind, unique)"
        by (auto simp: lookAt_def peekNext_Some)
      have "nextLoop lx sb kind = nextLoop (ReadByte (advance cur lx1)) (sb @ WriteRune cur) (Some ckind)"
        using go eq nxt t by auto
      then show thesis using read [OF skd t] a t k nxt go by auto
    qed
  qed
qed

lemma nextLoop_induct [consumes 2, case_names eof stop comment read]:
  assumes "kind = None \<longleftrightarrow> sb = []" and "kind \<noteq> Some comment_kind"
    and eof: "\<And>lx sb kind. content lx = [] \<Longrightarrow> Q lx sb kind (lx, sb, kind)"
    and stop: "\<And>lx sb kind lx1. content lx \<noteq> [] \<Longrightarrow> kind \<noteq> None \<Longrightarrow> skipped lx lx1 \<Longrightarrow>
      Q lx sb kind (lx1, sb, kind)"
    and comment: "\<And>lx lx1. content lx \<noteq> [] \<Longrightarrow> skipped lx lx1 \<Longrightarrow> content lx1 = [] \<Longrightarrow>
      Q lx [] None (ReadByte (advance (CHR 0x00) lx1), [CHR 0x00], Some comment_kind)"
    and read: "\<And>lx sb kind lx1 c t ck u lx2 r. skipped lx lx1 \<Longrightarrow> content lx1 = c # t \<Longrightarrow>
      c \<noteq> CHR ''#'' \<Longrightarrow> kindOf kind c (ahead t) = (ck, u) \<Longrightarrow> (kind = None \<longleftrightarrow> sb = []) \<Longrightarrow>
      kind = None \<or> kind = Some ck \<Longrightarrow> (u \<longrightarrow> sb = []) \<Longrightarrow> lx2 = ReadByte (advance c lx1) \<Longrightarrow>
      r = nextLoop lx2 (sb @ WriteRune c) (Some ck) \<Longrightarrow>
      Q lx2 (sb @ WriteRune c) (Some ck) r \<Longrightarrow> Q lx sb kind r"
  shows "Q lx sb kind (nextLoop lx sb kind)"
  using assms(1,2)
proof (induction "length (content lx)" arbitrary: lx sb kind rule: less_induct)
  case (less lx sb kind)
  show ?case
  proof (cases "content lx = []")
    case True
    with eof show ?thesis by simp
  next
    case False
    from False less.prems show ?thesis
    proof (cases rule: nextLoop_cases)
      case (stop lx1)
      with assms(4) False show ?thesis by simp
    next
      case (comment lx1)
      with assms(5) False less.prems show ?thesis by simp
    next
      case (read lx1 c t ck u)
      let ?lx2 = "ReadByte (advance c lx1)"
      have "length (content ?lx2) < length (content lx)"
        using read(1,2) by (simp add: skipped_def)
      moreover have "ck \<noteq> comment_kind"
        using read(3,4) kindOf_commentD by blast
      ultimately have "Q ?lx2 (sb @ WriteRune c) (Some ck) (nextLoop ?lx2 (sb @ WriteRune c) (Some ck))"
        using less.hyps by simp
      with assms(6) read less.prems show ?thesis by simp
    qed
  qed
qed

section \<open>Progress, position and losslessness of Next\<close>

text \<open>The input still to be delivered, a pending lexem counted as one.\<close>

definition lxm :: "Lexer \<Rightarrow> nat" where
  "lxm lx = length (content lx) + (if current lx = None then 0 else 1)"

definition rendered :: "string \<Rightarrow> string" where
  "rendered s = concat (map WriteRune (stripComments s))"

lemma rendered_skipped: "skipped lx lx1 \<Longrightarrow> rendered (content lx1) = rendered (content lx)"
  by (simp add: skipped_def rendered_def)

lemma rendered_Nil [simp]: "rendered [] = []"
  by (simp add: rendered_def)

lemma nextLoop_rendered:
  assumes "kind = None \<longleftrightarrow> sb = []" and "kind \<noteq> Some comment_kind"
    and "kind \<noteq> None \<or> stripComments (content lx) \<noteq> []"
  shows "case nextLoop lx sb kind of (lx', sb', kind') \<Rightarrow>
           sb' @ rendered (content lx') = sb @ rendered (content lx)"
  using assms(1,2,3)
proof (induction lx sb kind rule: nextLoop_induct)
  case (eof lx sb kind)
  then show ?case by simp
next
  case (stop lx sb kind lx1)
  then show ?case by (simp add: rendered_skipped)
next
  case (comment lx lx1)
  then show ?case by (simp add: skipped_def)
next
  case (read lx sb kind lx1 c t ck u lx2 r)
  have "rendered (content lx) = WriteRune c @ rendered t"
    using read.hyps(1,2,3) by (simp flip: rendered_skipped) (simp add: rendered_def)
  with read show ?case by (simp split: prod.splits)
qed

lemma nextLoop_position:
  assumes "kind = None \<longleftrightarrow> sb = []" and "kind \<noteq> Some comment_kind"
  shows "case nextLoop lx sb kind of (lx', sb', kind') \<Rightarrow>
           current lx' = current lx \<and> (content lx' = [] \<or> hd (content lx') \<noteq> CHR ''#'') \<and>
           (content lx' \<noteq> [] \<longrightarrow>
              lineNo lx' + newlines (content lx') = lineNo lx + newlines (content lx)) \<and>
           set (content lx') \<subseteq> set (content lx) \<and>
           length (content lx') \<le> length (content lx) \<and> (kind \<noteq> None \<longrightarrow> kind' \<noteq> None) \<and>
           (kind = None \<and> content lx \<noteq> [] \<longrightarrow>
              kind' \<noteq> None \<and> length (content lx') < length (content lx))"
  using assms
proof (induction lx sb kind rule: nextLoop_induct)
  case (eof lx sb kind)
  then show ?case by simp
next
  case (stop lx sb kind lx1)
  then show ?case by (auto simp: skipped_def)
next
  case (comment lx lx1)
  then show ?case by (auto simp: skipped_def)
next
  case (read lx sb kind lx1 c t ck u lx2 r)
  obtain lx' sb' kind' where r: "r = (lx', sb', kind')" by (cases r)
  have a: "current lx1 = current lx" "length (c # t) \<le> length (content lx)"
    "lineNo lx1 + newlines (c # t) = lineNo lx + newlines (content lx)"
    "set (c # t) \<subseteq> set (content lx)"
    using read.hyps(1,2) by (auto simp: skipped_def)
  have b: "content lx2 = t" "current lx2 = current lx1" "lineNo lx2 + newlines t = lineNo lx1 + newlines (c # t)"
    using read.hyps(2,8) by (simp_all add: advance_def)
  from read.IH show ?case unfolding r prod.case a(3)[symmetric] b(1,2) a(1)
    using a(2,4) b(3) by force
qed

text \<open>The same facts for \<open>Next\<close> and \<open>Peek\<close>.\<close>

lemma Next_pending [simp]: "current l = Some lm \<Longrightarrow> Next l = (Some lm, l\<lparr>current := None\<rparr>)"
  by (simp add: Next_def)

lemma Next_fresh:
  assumes "current l = None" and "Next l = (r, l')"
  shows "current l' = None"
    and "r = None \<longleftrightarrow> content l = []"
    and "r = None \<Longrightarrow> l' = l"
    and "content l \<noteq> [] \<Longrightarrow> length (content l') < length (content l)"
    and "content l' = [] \<or> hd (content l') \<noteq> CHR ''#''"
    and "content l' \<noteq> [] \<Longrightarrow> lineNo l' + newlines (content l') = lineNo l + newlines (content l)"
    and "set (content l') \<subseteq> set (content l)"
    and "r = Some lm \<Longrightarrow> lexLine lm = lineNo l"
    and "r = Some lm \<Longrightarrow> stripComments (content l) \<noteq> [] \<Longrightarrow>
           lexValue lm @ rendered (content l') = rendered (content l)"
proof -
  obtain l1 sb kind where n: "nextLoop l [] None = (l1, sb, kind)" by (cases "nextLoop l [] None")
  have r: "r = (case kind of None \<Rightarrow> None | Some k \<Rightarrow> Some \<lparr>lexKind = keyword k sb, lexValue = sb, lexLine = lineNo l\<rparr>)"
    and l': "l' = l1"
    using assms n by (auto simp: Next_def split: option.splits)
  note pos = nextLoop_position [of None "[]" l] and ren = nextLoop_rendered [of None "[]" l]
  have p: "current l' = current l" "content l' = [] \<or> hd (content l') \<noteq> CHR ''#''"
    "content l' \<noteq> [] \<longrightarrow> lineNo l' + newlines (content l') = lineNo l + newlines (content l)"
    "content l \<noteq> [] \<longrightarrow> kind \<noteq> None \<and> length (content l') < length (content l)"
    "set (content l') \<subseteq> set (content l)"
    using pos n l' by simp_all
  have e: "content l = [] \<Longrightarrow> kind = None \<and> l' = l"
    using n l' by simp
  show "current l' = None" using p(1) assms(1) by simp
  show "content l \<noteq> [] \<Longrightarrow> length (content l') < length (content l)" using p(4) by simp
  show "content l' = [] \<or> hd (content l') \<noteq> CHR ''#''" by (rule p(2))
  show "content l' \<noteq> [] \<Longrightarrow> lineNo l' + newlines (content l') = lineNo l + newlines (content l)"
    using p(3) by simp
  show "set (content l') \<subseteq> set (content l)" by (rule p(5))
  show rn: "r = None \<longleftrightarrow> content l = []" using r p(4) e by (auto split: option.splits)
  then show "r = None \<Longrightarrow> l' = l" using e by simp
  show "r = Some lm \<Longrightarrow> lexLine lm = lineNo l" 
    using r by (auto split: option.splits)
  show "r = Some lm \<Longrightarrow> stripComments (content l) \<noteq> [] \<Longrightarrow>
           lexValue lm @ rendered (content l') = rendered (content l)"
    using ren n r l' by (auto split: option.splits)
qed

lemma Next_shrink [shrink]:
  assumes "Next l = (Some lm, l')"
  shows "lxm l' < lxm l"
proof (cases "current l")
  case None
  with Next_fresh [OF None assms] show ?thesis by (simp add: lxm_def)
next
  case (Some a)
  with assms show ?thesis by (auto simp: lxm_def)
qed

lemma Next_None: "Next l = (None, l') \<longleftrightarrow> l' = l \<and> current l = None \<and> content l = []"
proof (cases "current l")
  case None
  obtain r l1 where n: "Next l = (r, l1)" by (cases "Next l")
  show ?thesis using None n Next_fresh(2,3) [OF None n] by auto
next
  case (Some a)
  then show ?thesis by simp
qed

lemma Peek_fresh: "current l = None \<Longrightarrow> Next l = (r, l') \<Longrightarrow> Peek l = (r, l'\<lparr>current := r\<rparr>)"
  by (simp add: Peek_def)

lemma Peek_pending [simp]: "current l = Some lm \<Longrightarrow> Peek l = (Some lm, l)"
  by (simp add: Peek_def)

lemma Peek_current: "Peek l = (r, l') \<Longrightarrow> current l' = r"
  by (auto simp: Peek_def split: option.splits prod.splits)

lemma Peek_shrink [shrink]:
  assumes "Peek l = (r, l')"
  shows "lxm l' \<le> lxm l"
proof (cases "current l")
  case None
  obtain r1 l1 where n: "Next l = (r1, l1)" by (cases "Next l")
  note f = Next_fresh [OF None n]
  show ?thesis using assms f(1-4) None n by (auto simp: Peek_def lxm_def)
next
  case (Some a)
  with assms show ?thesis by simp
qed

lemma Peek_Some_Next: "Peek l = (Some lm, l') \<Longrightarrow> Next l' = (Some lm, l'\<lparr>current := None\<rparr>)"
  using Peek_current [of l "Some lm" l'] Next_pending [of l' lm] by blast

lemma SkipSep_shrink [shrink]:
  assumes "SkipSep l = (b, l')"
  shows "lxm l' \<le> lxm l"
proof -
  obtain r l1 where p: "Peek l = (r, l1)" by (cases "Peek l")
  have "l' = l1 \<or> lxm l' < lxm l1"
    using assms p Peek_Some_Next [of l] Next_shrink [of l1]
    by (fastforce simp: SkipSep_def split: option.splits if_splits)
  with Peek_shrink [OF p] show ?thesis by auto
qed

section \<open>The whole stream of lexems\<close>

function lexems :: "Lexer \<Rightarrow> Lexem list" where
  "lexems l = (case Next l of (None, l') \<Rightarrow> [] | (Some lm, l') \<Rightarrow> lm # lexems l')"
  by pat_completeness auto
termination
  by (relation "measure lxm") (auto intro: Next_shrink [OF sym])

declare lexems.simps [simp del]

lemma lexems_Nil: "Next l = (None, l') \<Longrightarrow> lexems l = []"
  and lexems_Cons: "Next l = (Some lm, l') \<Longrightarrow> lexems l = lm # lexems l'"
  by (simp_all add: lexems.simps)

lemma lexems_induct [consumes 1, case_names Nil Cons]:
  assumes "current l = None"
    and "\<And>l. current l = None \<Longrightarrow> content l = [] \<Longrightarrow> lexems l = [] \<Longrightarrow> P l"
    and "\<And>l lm l'. current l = None \<Longrightarrow> content l \<noteq> [] \<Longrightarrow> Next l = (Some lm, l') \<Longrightarrow>
           lexems l = lm # lexems l' \<Longrightarrow> P l' \<Longrightarrow> P l"
  shows "P l"
  using assms(1)
proof (induction l rule: lexems.induct)
  case (1 l)
  obtain r l' where n: "Next l = (r, l')" by (cases "Next l")
  note f = Next_fresh [OF "1.prems" n]
  show ?case
  proof (cases r)
    case None
    with n f(2) "1.prems" assms(2) show ?thesis by (simp add: lexems_Nil)
  next
    case (Some lm)
    then have "P l'" using "1.IH" n f(1) by simp
    with Some n f(2) "1.prems" assms(3) show ?thesis by (simp add: lexems_Cons)
  qed
qed

lemma stripComments_hd: "s = [] \<or> hd s \<noteq> CHR ''#'' \<Longrightarrow> s = [] \<or> stripComments s \<noteq> []"
  by (cases s) auto

lemma lexems_rendered:
  assumes "current l = None" and "content l = [] \<or> stripComments (content l) \<noteq> []"
  shows "concat (map lexValue (lexems l)) = rendered (content l)"
  using assms
proof (induction l rule: lexems_induct)
  case (Nil l)
  then show ?case by simp
next
  case (Cons l lm l')
  note f = Next_fresh [OF Cons(1,3)]
  have "concat (map lexValue (lexems l')) = rendered (content l')"
    using Cons.IH stripComments_hd [OF f(5)] by blast
  with f(9) Cons show ?case by simp
qed

text \<open>A source of comments only gives one lexem, of the rune 0 that is read past its end.\<close>

lemma nextLoop_comments:
  assumes "content lx \<noteq> []" and "stripComments (content lx) = []"
  shows "case nextLoop lx [] None of (lx', sb, kind) \<Rightarrow> content lx' = [] \<and> sb = [CHR 0x00] \<and> kind \<noteq> None"
proof -
  have "kind = None \<longrightarrow> content lx \<noteq> [] \<longrightarrow> stripComments (content lx) = [] \<longrightarrow>
      (case nextLoop lx sb kind of (lx', sb', kind') \<Rightarrow> content lx' = [] \<and> sb' = [CHR 0x00] \<and> kind' \<noteq> None)"
    if "kind = None \<longleftrightarrow> sb = []" "kind \<noteq> Some comment_kind" for lx sb kind
    using that
  proof (induction lx sb kind rule: nextLoop_induct)
    case (read lx sb kind lx1 c t ck u lx2 r)
    then show ?case by (auto simp: skipped_def)
  qed auto
  from this [of None "[]" lx] assms show ?thesis by simp
qed

lemma lexems_comments:
  assumes "current l = None" and "content l \<noteq> []" and "stripComments (content l) = []"
  shows "concat (map lexValue (lexems l)) = [CHR 0x00]"
proof -
  obtain l' lm where n: "Next l = (Some lm, l')" "lexValue lm = [CHR 0x00]" "content l' = []"
    using nextLoop_comments [OF assms(2,3)] assms(1)
    by (auto simp: Next_def split: prod.splits option.splits)
  then have "lexems l' = []" using Next_fresh(1) [OF assms(1) n(1)] lexems_Nil [of l' l'] by (simp add: Next_None)
  with n show ?thesis by (simp add: lexems_Cons)
qed

lemma set_stripComments: "set (stripComments s) \<subseteq> set s"
proof (induction s rule: stripComments.induct)
  case (2 c s)
  then show ?case using set_readLine [of s] by auto
qed simp

lemma rendered_ascii: "\<forall>c \<in> set src. byte_of c < 128 \<Longrightarrow> rendered src = stripComments src"
proof -
  have w: "concat (map WriteRune s) = s" if "\<forall>c \<in> set s. byte_of c < 128" for s
    using that by (induction s) (simp_all add: WriteRune_def)
  assume "\<forall>c \<in> set src. byte_of c < 128"
  then show ?thesis unfolding rendered_def using set_stripComments by (intro w) blast
qed

lemma stripComments_id: "CHR ''#'' \<notin> set s \<Longrightarrow> stripComments s = s"
  by (induction s) auto

lemma char_of_not_newline: "128 \<le> n \<Longrightarrow> n < 256 \<Longrightarrow> char_of (n :: nat) \<noteq> newline"
proof
  assume "128 \<le> n" "n < 256" and eq: "char_of n = newline"
  from eq have "of_char (char_of n :: char) = (10 :: nat)" by (simp add: newline_def)
  with \<open>128 \<le> n\<close> \<open>n < 256\<close> show False by simp
qed

lemma newlines_WriteRune: "newlines (WriteRune c) = newlines [c]"
proof (cases "byte_of c < 128")
  case True
  then show ?thesis by (simp add: WriteRune_def)
next
  case False
  have "byte_of c < 256" by simp
  then have "char_of (192 + byte_of c div 64 :: nat) \<noteq> newline"
    "char_of (128 + byte_of c mod 64 :: nat) \<noteq> newline"
    by (intro char_of_not_newline; simp add: div_less_iff_less_mult; presburger?)+
  moreover have "c \<noteq> newline" using False by (auto simp: newline_def)
  ultimately show ?thesis using False by (simp add: WriteRune_def)
qed

lemma newlines_rendered: "CHR ''#'' \<notin> set s \<Longrightarrow> newlines (rendered s) = newlines s"
  by (simp add: rendered_def stripComments_id) (induction s; simp add: newlines_WriteRune)

lemma lexems_lines:
  assumes "current l = None" and "CHR ''#'' \<notin> set (content l)" and "i < length (lexems l)"
  shows "lexLine (lexems l ! i) = lineNo l + newlines (concat (map lexValue (take i (lexems l))))"
  using assms
proof (induction l arbitrary: i rule: lexems_induct)
  case (Nil l)
  then show ?case by simp
next
  case (Cons l lm l' i)
  note f = Next_fresh [OF Cons(1,3)]
  have strip: "stripComments (content l) \<noteq> []" using Cons.hyps(2) Cons.prems(1) by (simp add: stripComments_id)
  have nh: "CHR ''#'' \<notin> set (content l')" using f(7) Cons.prems(1) by blast
  have "newlines (lexValue lm) + newlines (content l') = newlines (content l)"
    using arg_cong [OF f(9) [OF refl strip], of newlines] nh Cons.prems(1) by (simp add: newlines_rendered)
  then have line: "content l' \<noteq> [] \<Longrightarrow> lineNo l' = lineNo l + newlines (lexValue lm)"
    using f(6) by simp
  show ?case
  proof (cases i)
    case 0
    with f(8) Cons.hyps(4) show ?thesis by simp
  next
    case (Suc j)
    then have "j < length (lexems l')" using Cons by simp
    then have "content l' \<noteq> []" using f(1) Next_None [of l' l'] lexems_Nil [of l' l'] by auto
    with Suc Cons.IH [OF nh] Cons.hyps(4) line Cons.prems show ?thesis by simp
  qed
qed

section \<open>The shape of lexems\<close>

definition identChar :: "char \<Rightarrow> bool" where
  "identChar c \<longleftrightarrow> inAz c \<or> c = CHR ''-'' \<or> isDigit c"

definition numberChar :: "char \<Rightarrow> bool" where
  "numberChar c \<longleftrightarrow> isDigit c \<or> c = CHR ''.''"

definition sepChars :: "char set" where
  "sepChars = {CHR '' '', newline, CHR 0x0D, CHR 0x09}"

definition opChars :: "char set" where
  "opChars = {CHR ''='', CHR ''!'', CHR ''>'', CHR ''<''}"

definition identText :: "string \<Rightarrow> bool" where
  "identText v \<longleftrightarrow> v \<noteq> [] \<and> inAz (hd v) \<and> (\<forall>c \<in> set v. identChar c)"

definition numberText :: "string \<Rightarrow> bool" where
  "numberText v \<longleftrightarrow> v \<noteq> [] \<and> (numberChar (hd v) \<or> hd v = CHR ''-'') \<and> (\<forall>c \<in> set (tl v). numberChar c)"

text \<open>What the loop has read when it is in a kind, before keywords are told apart.\<close>

fun rawText :: "Kind \<Rightarrow> string \<Rightarrow> bool" where
  "rawText identifier_kind v = identText v"
| "rawText number v = numberText v"
| "rawText operator_low v = (v \<noteq> [] \<and> set v \<subseteq> opChars)"
| "rawText separator v = (v \<noteq> [] \<and> set v \<subseteq> sepChars)"
| "rawText identifier_compose v = (v \<noteq> [] \<and> set v \<subseteq> {CHR ''.''})"
| "rawText identifier_execute v = (v = '':'')"
| "rawText identifier_param_beg v = (v = ''('')"
| "rawText identifier_param_end v = (v = '')'')"
| "rawText identifier_param_sep v = (v = '','')"
| "rawText string_del v = (v = [CHR 0x22])"
| "rawText comment_kind v = (v = [CHR 0x00])"
| "rawText generic v = (v \<noteq> [])"
| "rawText _ v = False"

definition keywordSet :: "string set" where
  "keywordSet = {''do'', ''end'', ''filter'', ''or'', ''let''}"

definition lexemOk :: "Lexem \<Rightarrow> bool" where
  "lexemOk lm \<longleftrightarrow>
     (case lexKind lm of
        identifier_kind \<Rightarrow> identText (lexValue lm) \<and> lexValue lm \<notin> keywordSet
      | operator_low \<Rightarrow> lexValue lm \<in> set validOps
      | operator_high \<Rightarrow> lexValue lm = ''or''
      | block_beg \<Rightarrow> lexValue lm = ''do''
      | block_end \<Rightarrow> lexValue lm = ''end''
      | filter_kind \<Rightarrow> lexValue lm = ''filter''
      | let_kind \<Rightarrow> lexValue lm = ''let''
      | k \<Rightarrow> rawText k (lexValue lm))"

lemma WriteRune_ascii [simp]: "byte_of c < 128 \<Longrightarrow> WriteRune c = [c]"
  by (simp add: WriteRune_def)

lemma ascii_kinds:
  "isDigit c \<Longrightarrow> byte_of c < 128" "inAz c \<Longrightarrow> byte_of c < 128"
  "c \<in> opChars \<Longrightarrow> byte_of c < 128" "c \<in> sepChars \<Longrightarrow> byte_of c < 128"
  by (auto simp: isDigit_def inAz_def opChars_def sepChars_def newline_def)

text \<open>\<open>kindOf\<close>, read backwards: what a byte put in a kind can be.\<close>

lemma kindOf_restD:
  assumes "kindOf_rest prev c n = (k, u)"
  shows "\<not> u"
    and "k = number \<Longrightarrow> numberChar c"
    and "k = identifier_kind \<Longrightarrow> identChar c \<and> (prev = None \<longrightarrow> inAz c)"
    and "k = identifier_compose \<Longrightarrow> c = CHR ''.''"
    and "k \<in> {number, identifier_kind, identifier_compose, generic}"
  using assms
  by (auto simp: kindOf_rest_def numberChar_def identChar_def inAz_def split: if_splits)

lemma kindOfD:
  assumes "kindOf prev c n = (k, u)" and "c \<noteq> CHR ''#''"
  shows "k = operator_low \<and> c \<in> opChars \<and> \<not> u \<or> k = separator \<and> c \<in> sepChars \<and> \<not> u \<or>
    u \<and> (k, c) \<in> {(identifier_execute, CHR '':''), (identifier_param_beg, CHR ''(''),
      (identifier_param_end, CHR '')''), (identifier_param_sep, CHR '',''), (string_del, CHR 0x22)} \<or>
    k = number \<and> c = CHR ''-'' \<and> prev = None \<and> \<not> u \<or>
    kindOf_rest prev c n = (k, u)"
  using assms unfolding kindOf_def opChars_def sepChars_def
  by (simp split: if_split_asm)

lemma rawText_first:
  assumes "kindOf None c n = (k, u)" and "c \<noteq> CHR ''#''"
  shows "rawText k (WriteRune c)"
proof -
  consider (rest) "kindOf_rest None c n = (k, u)" | (op) "k = operator_low" "c \<in> opChars"
    | (sep) "k = separator" "c \<in> sepChars"
    | (one) "(k, c) \<in> {(identifier_execute, CHR '':''), (identifier_param_beg, CHR ''(''),
      (identifier_param_end, CHR '')''), (identifier_param_sep, CHR '',''), (string_del, CHR 0x22)}"
    | (minus) "k = number" "c = CHR ''-''"
    using kindOfD [OF assms] by blast
  then show ?thesis
  proof cases
    case rest
    note r = kindOf_restD [OF rest]
    from r(5) show ?thesis
      using r(2,3,4) ascii_kinds
      by (auto simp: numberText_def identText_def numberChar_def)
  qed (auto simp: ascii_kinds numberText_def)
qed

lemma rawText_more:
  assumes "kindOf (Some k) c n = (k, u)" and "c \<noteq> CHR ''#''" and "\<not> u" and "rawText k v"
  shows "rawText k (v @ WriteRune c)"
proof -
  consider (rest) "kindOf_rest (Some k) c n = (k, u)" | (op) "k = operator_low" "c \<in> opChars"
    | (sep) "k = separator" "c \<in> sepChars"
    using kindOfD [OF assms(1,2)] assms(3) by blast
  then show ?thesis
  proof cases
    case rest
    note r = kindOf_restD [OF rest]
    have a: "numberChar c \<or> identChar c \<Longrightarrow> WriteRune c = [c]"
      using ascii_kinds by (auto simp: numberChar_def identChar_def)
    from r(5) assms(4) show ?thesis
      using r(2,3,4) a by (auto simp: numberText_def identText_def)
  qed (use assms(4) in \<open>auto simp: ascii_kinds\<close>)
qed

lemma nextLoop_rawText:
  assumes "kind = None \<longleftrightarrow> sb = []" and "kind \<noteq> Some comment_kind"
    and "\<And>k. kind = Some k \<Longrightarrow> rawText k sb"
  shows "case nextLoop lx sb kind of (lx', sb', kind') \<Rightarrow> \<forall>k. kind' = Some k \<longrightarrow> rawText k sb'"
  using assms
proof (induction lx sb kind rule: nextLoop_induct)
  case (read lx sb kind lx1 c t ck u lx2 r)
  have "rawText ck (sb @ WriteRune c)"
  proof (cases kind)
    case None
    with read.hyps show ?thesis using rawText_first by simp
  next
    case (Some k)
    with read.hyps have "k = ck" "\<not> u" by auto
    with Some read.hyps read.prems show ?thesis using rawText_more by simp
  qed
  with read.IH show ?case by simp
qed auto

lemma lexemOk_keyword: "rawText k v \<Longrightarrow> lexemOk \<lparr>lexKind = keyword k v, lexValue = v, lexLine = n\<rparr>"
  by (cases k) (auto simp: lexemOk_def keyword_def keywordSet_def)

definition lexerOk :: "Lexer \<Rightarrow> bool" where
  "lexerOk l \<longleftrightarrow> (\<forall>lm. current l = Some lm \<longrightarrow> lexemOk lm)"

lemma Next_ok:
  assumes "lexerOk l" and "Next l = (r, l')"
  shows "lexerOk l'" and "r = Some lm \<Longrightarrow> lexemOk lm"
proof -
  have "lexerOk l' \<and> (\<forall>lm. r = Some lm \<longrightarrow> lexemOk lm)"
  proof (cases "current l")
    case None
    have "case nextLoop l [] None of (lx', sb', kind') \<Rightarrow> \<forall>k. kind' = Some k \<longrightarrow> rawText k sb'"
      by (rule nextLoop_rawText) simp_all
    then have "\<forall>lm. r = Some lm \<longrightarrow> lexemOk lm"
      using assms(2) None by (auto simp: Next_def lexemOk_keyword split: prod.splits option.splits)
    with Next_fresh(1) [OF None assms(2)] show ?thesis by (simp add: lexerOk_def)
  next
    case (Some a)
    with assms show ?thesis by (auto simp: lexerOk_def)
  qed
  then show "lexerOk l'" and "r = Some lm \<Longrightarrow> lexemOk lm" by auto
qed

lemma Peek_ok:
  assumes "lexerOk l" and "Peek l = (r, l')"
  shows "lexerOk l'" and "r = Some lm \<Longrightarrow> lexemOk lm"
proof -
  have "\<forall>lm. r = Some lm \<longrightarrow> lexemOk lm"
  proof (cases "current l")
    case None
    obtain r1 l1 where n: "Next l = (r1, l1)" by (cases "Next l")
    with None assms(2) have "r = r1" by (simp add: Peek_fresh)
    with Next_ok(2) [OF assms(1) n] show ?thesis by simp
  next
    case (Some a)
    with assms show ?thesis by (auto simp: lexerOk_def)
  qed
  with Peek_current [OF assms(2)] show "lexerOk l'" and "r = Some lm \<Longrightarrow> lexemOk lm"
    by (simp_all add: lexerOk_def)
qed

lemma SkipSep_ok:
  assumes "lexerOk l" and "SkipSep l = (b, l')"
  shows "lexerOk l'"
proof -
  obtain r l1 where p: "Peek l = (r, l1)" by (cases "Peek l")
  note ok1 = Peek_ok(1) [OF assms(1) p]
  have "l' = l1 \<or> l' = snd (Next l1)"
    using assms(2) p by (auto simp: SkipSep_def split: option.splits if_splits)
  with ok1 Next_ok(1) [OF ok1] show ?thesis by (metis prod.collapse)
qed

lemma NewLexer_ok: "lexerOk (NewLexer s)"
  by (simp add: lexerOk_def NewLexer_def)

section \<open>Properties\<close>

text \<open>C37: no byte of a filter in ASCII is lost or made up: the values of its lexems, put together, are
  the filter without its comments, each from its hash to the end of the line. The one exception is
  a filter that holds nothing but comments, which gives a single zero byte.\<close>

theorem lexer_lossless:
  assumes "\<forall>c \<in> set src. byte_of c < 128"
  shows "concat (map lexValue (lexems (NewLexer src))) =
    (if src \<noteq> [] \<and> stripComments src = [] then [CHR 0x00] else stripComments src)"
  using lexems_rendered [of "NewLexer src"] lexems_comments [of "NewLexer src"] rendered_ascii [OF assms]
  by (auto simp: NewLexer_def)

theorem lexer_lossless_witness:
  "concat (map lexValue (lexems (NewLexer ''let x = 5 # five''))) = ''let x = 5 ''"
  using lexer_lossless [of "''let x = 5 # five''"] by (simp add: newline_def)

text \<open>a byte that is not ASCII is read as a rune of its own and written as one, so that every letter
  outside of ASCII comes out as other ones.\<close>

theorem lexer_not_ascii:
  assumes "src = [] \<or> stripComments src \<noteq> []"
  shows "concat (map lexValue (lexems (NewLexer src))) = concat (map WriteRune (stripComments src))"
  using lexems_rendered [of "NewLexer src"] assms by (simp add: NewLexer_def rendered_def)

theorem lexer_not_ascii_witness:
  "concat (map lexValue (lexems (NewLexer [CHR 0xC3, CHR 0xA9]))) = [CHR 0xC3, CHR 0x83, CHR 0xC2, CHR 0xA9]"
  using lexer_not_ascii [of "[CHR 0xC3, CHR 0xA9]"] by (simp add: WriteRune_def char_of_def bit_0)

text \<open>the line of a lexem is the number of newlines in the lexems before it, so that the
  line of a parsing error is the one the user sees, in a file without comments.\<close>

theorem lexer_lines:
  assumes "CHR ''#'' \<notin> set src" and "i < length (lexems (NewLexer src))"
  shows "lexLine (lexems (NewLexer src) ! i) =
    lineNo (NewLexer src) + newlines (concat (map lexValue (take i (lexems (NewLexer src)))))"
  using lexems_lines [of "NewLexer src"] assms by (simp add: NewLexer_def)

theorem lexer_lines_witness:
  "lexLine (lexems (NewLexer [CHR ''a'', newline, CHR ''b'']) ! 2) = 2"
proof -
  have n: "length (lexems (NewLexer [CHR ''a'', newline, CHR ''b''])) = 3" by code_simp
  have "lineNo (NewLexer [CHR ''a'', newline, CHR ''b'']) + newlines (concat (map lexValue
      (take 2 (lexems (NewLexer [CHR ''a'', newline, CHR ''b'']))))) = 2" by code_simp
  with lexer_lines [of "[CHR ''a'', newline, CHR ''b'']" 2] n show ?thesis by (simp add: newline_def)
qed

text \<open>every lexem is of the form its kind promises: an operator lexem is one of the known
  operators, a keyword lexem is its keyword, an identifier is none, a number has the form of
  one.\<close>

theorem lexer_lexems_wellformed: "list_all lexemOk (lexems (NewLexer src))"
proof -
  have "list_all lexemOk (lexems l)" if "current l = None" for l
    using that
  proof (induction l rule: lexems_induct)
    case (Cons l lm l')
    have "lexerOk l" using Cons(1) by (simp add: lexerOk_def)
    with Next_ok(2) Cons show ?case by simp
  qed simp
  then show ?thesis by (simp add: NewLexer_def)
qed

text \<open>\<open>Peek\<close> shows the lexem that \<open>Next\<close> returns, and leaves \<open>Next\<close> unchanged.\<close>

theorem peek_then_next: "Next (snd (Peek l)) = (fst (Peek l), snd (Next l))"
proof (cases "current l")
  case None
  obtain r l' where n: "Next l = (r, l')" by (cases "Next l")
  note f = Next_fresh [OF None n]
  have same: "l'\<lparr>current := None\<rparr> = l'" using f(1) by simp
  show ?thesis
  proof (cases r)
    case _: None
    then have "l' = l" using f(3) by simp
    moreover have "Peek l = (r, l')" using Peek_fresh [OF None n] same \<open>r = None\<close> by simp
    ultimately show ?thesis using n by simp
  next
    case (Some lm)
    with n same show ?thesis by (simp add: Peek_fresh [OF None n])
  qed
next
  case (Some a)
  then show ?thesis by simp
qed

end
