(* ===== verification/Go_Float.thy ===== *)
theory Go_Float
  imports Atmail_Prelude
begin

text \<open>
  What the filter language uses of Go's \<open>float64\<close>: the IEEE 754 double as an exact
  number \<open>m * 2 ^ e\<close> (or an infinity, or NaN), rounding to nearest even, the comparisons,
  the conversions to and from \<open>int\<close>, and \<open>strconv.ParseFloat\<close>. The two zeros are one
  value here: no operation the sources apply to a number tells them apart.
\<close>

section \<open>Values\<close>

datatype float64 = F_NaN | F_Inf bool | F_Fin int int

text \<open>The normal form of \<open>m * 2 ^ e\<close>: \<open>m\<close> odd, or both zero, so that equal numbers are
  equal values.\<close>

function normalForm :: "int \<Rightarrow> int \<Rightarrow> float64" where
  "normalForm m e = (if m = 0 then F_Fin 0 0
                     else if m mod 2 = 0 then normalForm (m div 2) (e + 1)
                     else F_Fin m e)"
  by pat_completeness auto
termination
  by (relation "measure (\<lambda>(m, e). nat \<bar>m\<bar>)") auto

declare normalForm.simps [simp del]

function bitLength :: "int \<Rightarrow> int" where
  "bitLength n = (if n \<le> 0 then 0 else 1 + bitLength (n div 2))"
  by pat_completeness auto
termination
  by (relation "measure nat") auto

declare bitLength.simps [simp del]

definition roundHalfEven :: "int \<Rightarrow> int \<Rightarrow> int" where
  "roundHalfEven n d =
     (let q = n div d; r = n mod d
      in if 2 * r < d then q else if 2 * r > d then q + 1 else if q mod 2 = 0 then q else q + 1)"

definition scaleUp :: "int \<Rightarrow> int \<Rightarrow> int" where
  "scaleUp n e = (if e \<le> 0 then n else n * 2 ^ nat e)"

text \<open>The double nearest to \<open>n / d\<close>, for \<open>n \<ge> 0\<close> and \<open>d > 0\<close>, with the given sign.\<close>

definition roundF64 :: "bool \<Rightarrow> int \<Rightarrow> int \<Rightarrow> float64" where
  "roundF64 neg n d =
     (if n = 0 then F_Fin 0 0
      else let e0 = bitLength n - bitLength d;
               e = (if scaleUp n (- e0) < scaleUp d e0 then e0 - 1 else e0);
               x = max e (- 1022) - 52;
               q = roundHalfEven (scaleUp n (- x)) (scaleUp d x)
           in if x > 971 \<or> (x = 971 \<and> q \<ge> 2 ^ 53) then F_Inf neg
              else normalForm (if neg then - q else q) x)"

section \<open>Operations\<close>

definition floatOfNat :: "nat \<Rightarrow> float64" where
  "floatOfNat n = roundF64 False (int n) 1"

fun floatEq :: "float64 \<Rightarrow> float64 \<Rightarrow> bool" where
  "floatEq F_NaN _ = False"
| "floatEq _ F_NaN = False"
| "floatEq a b = (a = b)"

fun floatLess :: "float64 \<Rightarrow> float64 \<Rightarrow> bool" where
  "floatLess F_NaN _ = False"
| "floatLess _ F_NaN = False"
| "floatLess (F_Inf s) (F_Inf t) = (s \<and> \<not> t)"
| "floatLess (F_Inf s) (F_Fin _ _) = s"
| "floatLess (F_Fin _ _) (F_Inf t) = (\<not> t)"
| "floatLess (F_Fin m e) (F_Fin m' e') =
     (let k = min e e' in m * 2 ^ nat (e - k) < m' * 2 ^ nat (e' - k))"

definition floatLeq :: "float64 \<Rightarrow> float64 \<Rightarrow> bool" where
  "floatLeq a b \<longleftrightarrow> floatLess a b \<or> floatEq a b"

text \<open>\<open>int(f)\<close> truncates towards zero. Outside the range of an \<open>int64\<close> Go leaves the result
  to the implementation; this is the result on amd64.\<close>

definition minInt64 :: int where
  "minInt64 = - (2 ^ 63)"

fun intOfFloat :: "float64 \<Rightarrow> int" where
  "intOfFloat (F_Fin m e) =
     (let i = (if e \<ge> 0 then m * 2 ^ nat e else sgn m * (\<bar>m\<bar> div 2 ^ nat (- e)))
      in if minInt64 \<le> i \<and> i < 2 ^ 63 then i else minInt64)"
| "intOfFloat _ = minInt64"

section \<open>strconv.ParseFloat\<close>

definition lowerByte :: "char \<Rightarrow> nat" where
  "lowerByte c = (if 65 \<le> byte_of c \<and> byte_of c \<le> 90 then byte_of c + 32 else byte_of c)"

definition digitOf :: "bool \<Rightarrow> char \<Rightarrow> int option" where
  "digitOf hex c =
     (if 48 \<le> byte_of c \<and> byte_of c \<le> 57 then Some (of_char c - 48)
      else if hex \<and> 97 \<le> lowerByte c \<and> lowerByte c \<le> 102 then Some (int (lowerByte c) - 87)
      else None)"

text \<open>The mantissa: digits read, digits after the dot, whether a digit was seen, the rest.\<close>

fun scanMantissa :: "bool \<Rightarrow> bool \<Rightarrow> int \<Rightarrow> int \<Rightarrow> bool \<Rightarrow> string \<Rightarrow> int \<times> int \<times> bool \<times> string" where
  "scanMantissa hex dot m f saw [] = (m, f, saw, [])"
| "scanMantissa hex dot m f saw (c # s) =
     (if c = CHR ''_'' then scanMantissa hex dot m f saw s
      else if c = CHR ''.'' then
        (if dot then (m, f, saw, c # s) else scanMantissa hex True m f saw s)
      else (case digitOf hex c of
              None \<Rightarrow> (m, f, saw, c # s)
            | Some d \<Rightarrow> scanMantissa hex dot ((if hex then 16 else 10) * m + d)
                         (if dot then f + 1 else f) True s))"

fun scanExponent :: "int \<Rightarrow> string \<Rightarrow> int \<times> string" where
  "scanExponent e [] = (e, [])"
| "scanExponent e (c # s) =
     (if c = CHR ''_'' then scanExponent e s
      else (case digitOf False c of
              None \<Rightarrow> (e, c # s)
            | Some d \<Rightarrow> scanExponent (if e < 10000 then 10 * e + d else e) s))"

fun underscoreLoop :: "bool \<Rightarrow> char \<Rightarrow> string \<Rightarrow> bool" where
  "underscoreLoop hex saw [] = (saw \<noteq> CHR ''_'')"
| "underscoreLoop hex saw (c # s) =
     (if digitOf hex c \<noteq> None then underscoreLoop hex (CHR ''0'') s
      else if c = CHR ''_'' then saw = CHR ''0'' \<and> underscoreLoop hex (CHR ''_'') s
      else saw \<noteq> CHR ''_'' \<and> underscoreLoop hex (CHR ''!'') s)"

definition dropSign :: "string \<Rightarrow> bool \<times> string" where
  "dropSign s = (case s of [] \<Rightarrow> (False, [])
                 | c # t \<Rightarrow> if c = CHR ''-'' then (True, t) else if c = CHR ''+'' then (False, t)
                            else (False, s))"

definition basePrefix :: "nat set \<Rightarrow> string \<Rightarrow> bool" where
  "basePrefix letters s =
     (case s of c # d # _ \<Rightarrow> c = CHR ''0'' \<and> lowerByte d \<in> letters | _ \<Rightarrow> False)"

definition underscoreOK :: "string \<Rightarrow> bool" where
  "underscoreOK s =
     (let t = snd (dropSign s)
      in if basePrefix {98, 111, 120} t
         then underscoreLoop (basePrefix {120} t) (CHR ''0'') (drop 2 t)
         else underscoreLoop False (CHR ''^'') t)"

definition specialFloat :: "string \<Rightarrow> float64 option" where
  "specialFloat s =
     (case dropSign s of (neg, t) \<Rightarrow>
        if map lowerByte t \<in> {map of_char ''inf'', map of_char ''infinity''} then Some (F_Inf neg)
        else if map lowerByte s = map of_char ''nan'' then Some F_NaN else None)"

text \<open>The exponent part: none, or its letter followed by at least one digit. A hexadecimal
  number needs one.\<close>

definition readExponent :: "bool \<Rightarrow> string \<Rightarrow> (int \<times> string) option" where
  "readExponent hex r =
     (case r of
        [] \<Rightarrow> if hex then None else Some (0, [])
      | c # t \<Rightarrow>
          if lowerByte c = (if hex then 112 else 101) then
            (case dropSign t of (neg, u) \<Rightarrow>
               case u of [] \<Rightarrow> None
               | d # _ \<Rightarrow> if digitOf False d = None then None
                  else (case scanExponent 0 u of (e, v) \<Rightarrow> Some (if neg then - e else e, v)))
          else if hex then None else Some (0, r))"

definition decimalFloat :: "bool \<Rightarrow> bool \<Rightarrow> int \<Rightarrow> int \<Rightarrow> int \<Rightarrow> float64" where
  "decimalFloat neg hex m f e =
     (let x = (if hex then e - 4 * f else e - f); b = (if hex then 2 else 10)
      in if x \<ge> 0 then roundF64 neg (m * b ^ nat x) 1 else roundF64 neg m (b ^ nat (- x)))"

text \<open>\<open>None\<close> is an error, a syntax error or an overflow.\<close>

definition ParseFloat :: "string \<Rightarrow> float64 option" where
  "ParseFloat s =
     (case specialFloat s of
        Some x \<Rightarrow> Some x
      | None \<Rightarrow>
          (case dropSign s of (neg, t) \<Rightarrow>
             let hex = basePrefix {120} t \<and> length t > 2
             in case scanMantissa hex False 0 0 False (if hex then drop 2 t else t) of
                  (m, f, saw, r) \<Rightarrow>
                    if \<not> saw then None
                    else (case readExponent hex r of
                            None \<Rightarrow> None
                          | Some (e, v) \<Rightarrow>
                              if v \<noteq> [] \<or> (CHR ''_'' \<in> set s \<and> \<not> underscoreOK s) then None
                              else (case decimalFloat neg hex m f e of
                                      F_Inf _ \<Rightarrow> None | x \<Rightarrow> Some x))))"

end
