(* ===== verification/Filter_Parser.thy ===== *)
theory Filter_Parser
  imports Filter_Lexer Go_Float
begin

text \<open>
  The parser of the filter language: \<open>src/filter/literal.go\<close>, the parsing halves of
  \<open>src/filter/expression.go\<close>, \<open>src/filter/ast.go\<close> and \<open>src/filter/filter.go\<close>.

  A parser takes the lexer and returns \<open>None\<close> when its fuel is used up (the Go code would
  still be running), or the error or the value it returned with the lexer it leaves: the
  lexer is mutated on the error paths too, and the errors carry its line. One number bounds
  both the nesting depth and the iterations of each loop; \<open>Parse\<close> starts with one more than
  the length of the source, and \<open>Parse_returns\<close> shows that this is enough. The knot
  between an expression and its sub-expressions is the argument \<open>pe\<close> of the parsers in
  between, as \<open>nextOp\<close> is an argument of \<open>parseOperator\<close> in the source.
\<close>

section \<open>Syntax trees and errors\<close>

datatype expr =
    LiteralBool bool
  | LiteralNumber float64
  | LiteralString string
  | OperatorExpression string expr expr
  | Variable string
  | Field string expr
  | Method string expr "expr list"

datatype stmt =
    ExpressionStatement expr
  | ActionStatement string "expr list"
  | LetStatement string expr
  | Filter string "stmt list"

datatype parseError =
    LexError lexError
  | NumError string
  | ErrExpectedStatement | ErrInvalidExpression | ErrInvalidStatement
  | ErrBlockEnded | ErrBlockNotEnded
  | ParsingError nat parseError
  | NilPointer

text \<open>\<open>NilPointer\<close> is not an error value of the source: it stands for the panic of
  \<open>lx.Next().Value\<close> when there is no lexem.\<close>

section \<open>Combinators\<close>

type_synonym 'a P = "Lexer \<Rightarrow> ((parseError + 'a) \<times> Lexer) option"

definition returnP :: "'a \<Rightarrow> 'a P" where
  "returnP a lx = Some (Inr a, lx)"

definition throwP :: "parseError \<Rightarrow> 'a P" where
  "throwP e lx = Some (Inl e, lx)"

definition bindP :: "'a P \<Rightarrow> ('a \<Rightarrow> 'b P) \<Rightarrow> 'b P" where
  "bindP m f lx =
     (case m lx of
        None \<Rightarrow> None
      | Some (Inl e, lx') \<Rightarrow> Some (Inl e, lx')
      | Some (Inr a, lx') \<Rightarrow> f a lx')"

definition nextP :: "Lexem option P" where
  "nextP lx = (case Next lx of (r, lx') \<Rightarrow> Some (Inr r, lx'))"

definition peekP :: "Lexem option P" where
  "peekP lx = (case Peek lx of (r, lx') \<Rightarrow> Some (Inr r, lx'))"

definition skipSepP :: "bool P" where
  "skipSepP lx = (case SkipSep lx of (b, lx') \<Rightarrow> Some (Inr b, lx'))"

definition nextOrErrP :: "Lexem P" where
  "nextOrErrP lx =
     (case NextOrErr lx of (Inl e, lx') \<Rightarrow> Some (Inl (LexError e), lx')
      | (Inr lm, lx') \<Rightarrow> Some (Inr lm, lx'))"

definition peekOrErrP :: "Lexem P" where
  "peekOrErrP lx =
     (case PeekOrErr lx of (Inl e, lx') \<Rightarrow> Some (Inl (LexError e), lx')
      | (Inr lm, lx') \<Rightarrow> Some (Inr lm, lx'))"

text \<open>\<open>lx.Next().Value\<close>.\<close>

definition nextValueP :: "string P" where
  "nextValueP lx =
     (bindP nextP (\<lambda>r. case r of None \<Rightarrow> throwP NilPointer | Some lm \<Rightarrow> returnP (lexValue lm))) lx"

text \<open>An error changed on its way out, and an error handled.\<close>

definition mapErrP :: "(parseError \<Rightarrow> parseError) \<Rightarrow> 'a P \<Rightarrow> 'a P" where
  "mapErrP g m lx =
     (case m lx of Some (Inl e, lx') \<Rightarrow> Some (Inl (g e), lx') | r \<Rightarrow> r)"

definition catchP :: "'a P \<Rightarrow> (parseError \<Rightarrow> 'b P) \<Rightarrow> ('a \<Rightarrow> 'b P) \<Rightarrow> 'b P" where
  "catchP m h f lx =
     (case m lx of
        None \<Rightarrow> None
      | Some (Inl e, lx') \<Rightarrow> h e lx'
      | Some (Inr a, lx') \<Rightarrow> f a lx')"

text \<open>The deferred functions that wrap an error with the line of the lexer.\<close>

definition atLineP :: "'a P \<Rightarrow> 'a P" where
  "atLineP m lx =
     (case m lx of
        Some (Inl e, lx') \<Rightarrow> Some (Inl (ParsingError (lineNo lx') e), lx')
      | r \<Rightarrow> r)"

section \<open>Literals\<close>

function parseStringLoop :: "string \<Rightarrow> Lexer \<Rightarrow> (parseError + string) \<times> Lexer" where
  "parseStringLoop sb lx =
     (case NextOrErr lx of
        (Inl e, lx') \<Rightarrow> (Inl (LexError e), lx')
      | (Inr cur, lx') \<Rightarrow>
          (if lexKind cur = string_del then (Inr sb, lx')
           else parseStringLoop (sb @ lexValue cur) lx'))"
  by pat_completeness auto
termination
  by (relation "measure (\<lambda>(sb, lx). lxm lx)")
    (auto simp: NextOrErr_def split: prod.splits option.splits intro: Next_shrink)

declare parseStringLoop.simps [simp del]

definition parseString :: "string P" where
  "parseString lx =
     (bindP nextP (\<lambda>_ lx. Some (parseStringLoop [] lx))) lx"

definition parseNumber :: "float64 P" where
  "parseNumber lx =
     (bindP nextValueP (\<lambda>v. case ParseFloat v of
     None \<Rightarrow> throwP (NumError v) | Some f \<Rightarrow> returnP f)) lx"

section \<open>Expressions\<close>

fun parseParamsLoop :: "nat \<Rightarrow> expr P \<Rightarrow> expr list \<Rightarrow> expr list P" where
  "parseParamsLoop 0 pe params lx = None"
| "parseParamsLoop (Suc n) pe params lx =
     (bindP peekOrErrP (\<lambda>cur.
       if lexKind cur = identifier_param_end then bindP nextP (\<lambda>_. returnP params)
       else bindP pe (\<lambda>e.
            bindP skipSepP (\<lambda>_.
            bindP peekP (\<lambda>nxt.
              case nxt of
                None \<Rightarrow> throwP ErrInvalidExpression
              | Some lm \<Rightarrow>
                  if lexKind lm \<noteq> identifier_param_end \<and> lexKind lm \<noteq> identifier_param_sep
                  then throwP ErrInvalidExpression
                  else if lexKind lm = identifier_param_sep
                  then bindP nextP (\<lambda>_. bindP skipSepP (\<lambda>_. parseParamsLoop n pe (params @ [e])))
                  else parseParamsLoop n pe (params @ [e])))))) lx"

definition parseParams :: "nat \<Rightarrow> expr P \<Rightarrow> expr list P" where
  "parseParams n pe lx =
     (bindP skipSepP (\<lambda>_. parseParamsLoop n pe [])) lx"

fun parseEvalLoop :: "nat \<Rightarrow> expr P \<Rightarrow> expr \<Rightarrow> expr P" where
  "parseEvalLoop 0 pe prev lx = None"
| "parseEvalLoop (Suc n) pe prev lx =
     (bindP peekP (\<lambda>r.
       case r of
         None \<Rightarrow> returnP prev
       | Some cur \<Rightarrow>
           if IsHardSep cur then returnP prev
           else if lexKind cur = identifier_compose then
             bindP nextP (\<lambda>_.
             bindP nextOrErrP (\<lambda>name.
               if lexKind name \<noteq> identifier_kind then throwP ErrInvalidExpression
               else parseEvalLoop n pe (Field (lexValue name) prev)))
           else if lexKind cur = identifier_execute then
             bindP nextP (\<lambda>_.
             bindP nextOrErrP (\<lambda>name.
               if lexKind name \<noteq> identifier_kind then throwP ErrInvalidExpression
               else bindP nextOrErrP (\<lambda>paren.
                    if lexKind paren \<noteq> identifier_param_beg then throwP ErrInvalidExpression
                    else bindP (parseParams n pe) (\<lambda>params.
                         parseEvalLoop n pe (Method (lexValue name) prev params)))))
           else returnP prev)) lx"

definition parseEval :: "nat \<Rightarrow> expr P \<Rightarrow> expr P" where
  "parseEval n pe lx =
     (bindP nextValueP (\<lambda>v. parseEvalLoop n pe (Variable v))) lx"

text \<open>After the closing parenthesis is missed, the source returns \<open>ErrInvalidExpression\<close>
  for a wrong lexem and for no lexem alike.\<close>

definition closeParen :: "expr \<Rightarrow> expr P" where
  "closeParen e lx =
     (bindP skipSepP (\<lambda>_. bindP nextP (\<lambda>r.
     case r of
       None \<Rightarrow> throwP ErrInvalidExpression
     | Some lm \<Rightarrow> if lexKind lm \<noteq> identifier_param_end then throwP ErrInvalidExpression
                  else returnP e))) lx"

definition parseExpressionLiteral :: "nat \<Rightarrow> expr P \<Rightarrow> expr P" where
  "parseExpressionLiteral n pe lx =
     (bindP peekP (\<lambda>r.
       case r of
         None \<Rightarrow> throwP ErrExpectedStatement
       | Some cur \<Rightarrow>
           if lexKind cur = identifier_param_beg then
             bindP nextP (\<lambda>_. bindP skipSepP (\<lambda>_. bindP pe closeParen))
           else if lexKind cur = identifier_kind then parseEval n pe
           else if lexKind cur = number then bindP parseNumber (\<lambda>f. returnP (LiteralNumber f))
           else if lexKind cur = string_del then bindP parseString (\<lambda>s. returnP (LiteralString s))
           else throwP ErrInvalidExpression)) lx"

fun operatorLoop :: "nat \<Rightarrow> Kind \<Rightarrow> expr P \<Rightarrow> expr \<Rightarrow> expr P" where
  "operatorLoop 0 kind nextOp left lx = None"
| "operatorLoop (Suc n) kind nextOp left lx =
     (bindP peekP (\<lambda>r.
       case r of
         None \<Rightarrow> returnP left
       | Some nxt \<Rightarrow>
           if IsHardSep nxt then returnP left
           else bindP (if lexKind nxt = separator then nextP else returnP None) (\<lambda>_.
                bindP peekP (\<lambda>r'.
                  case r' of
                    None \<Rightarrow> returnP left
                  | Some op \<Rightarrow>
                      if lexKind op \<noteq> kind then returnP left
                      else bindP nextP (\<lambda>_.
                           bindP skipSepP (\<lambda>_.
                           bindP peekOrErrP (\<lambda>_.
                           bindP nextOp (\<lambda>right.
                             operatorLoop n kind nextOp
                               (OperatorExpression (lexValue op) left right))))))))) lx"

definition parseOperator :: "nat \<Rightarrow> Kind \<Rightarrow> expr P \<Rightarrow> expr P" where
  "parseOperator n kind nextOp lx =
     (bindP nextOp (\<lambda>left. operatorLoop n kind nextOp left)) lx"

definition parseExpressionLow :: "nat \<Rightarrow> expr P \<Rightarrow> expr P" where
  "parseExpressionLow n pe lx =
     (parseOperator n operator_low (parseExpressionLiteral n pe)) lx"

definition parseExpressionHigh :: "nat \<Rightarrow> expr P \<Rightarrow> expr P" where
  "parseExpressionHigh n pe lx =
     (parseOperator n operator_high (parseExpressionLow n pe)) lx"

fun parseExpression :: "nat \<Rightarrow> expr P" where
  "parseExpression 0 lx = None"
| "parseExpression (Suc n) lx =
     (parseExpressionHigh n (parseExpression n)) lx"

section \<open>Statements\<close>

definition parseExprStatement :: "nat \<Rightarrow> stmt P" where
  "parseExprStatement n lx =
     (atLineP (
     bindP (parseExpression n) (\<lambda>e.
     bindP nextP (\<lambda>nxt.
       case nxt of
         None \<Rightarrow> returnP (ExpressionStatement e)
       | Some lm \<Rightarrow> if \<not> IsHardSep lm then throwP ErrInvalidStatement
                    else returnP (ExpressionStatement e))))) lx"

definition parseActionStatement :: "nat \<Rightarrow> stmt P" where
  "parseActionStatement n lx =
     (atLineP (
     bindP skipSepP (\<lambda>_.
     bindP nextOrErrP (\<lambda>name.
       if lexKind name \<noteq> identifier_kind then throwP ErrInvalidStatement
       else bindP nextOrErrP (\<lambda>nxt.
            if lexKind nxt \<noteq> identifier_param_beg then throwP ErrInvalidStatement
            else bindP (parseParams n (parseExpression n)) (\<lambda>params.
                 returnP (ActionStatement (lexValue name) params))))))) lx"

definition parseLetStatement :: "nat \<Rightarrow> stmt P" where
  "parseLetStatement n lx =
     (atLineP (
     bindP skipSepP (\<lambda>_.
     bindP nextOrErrP (\<lambda>name.
       if lexKind name \<noteq> identifier_kind then throwP ErrInvalidStatement
       else bindP skipSepP (\<lambda>_.
            bindP nextOrErrP (\<lambda>nxt.
              if lexKind nxt \<noteq> operator_low \<or> lexValue nxt \<noteq> ''='' then throwP ErrInvalidStatement
              else bindP skipSepP (\<lambda>_.
                   bindP (parseExpression n) (\<lambda>e.
                     returnP (LetStatement (lexValue name) e))))))))) lx"

text \<open>\<open>errors.Is(err, ErrBlockEnded)\<close>, through \<open>ParsingError.Unwrap\<close>.\<close>

fun isBlockEnded :: "parseError \<Rightarrow> bool" where
  "isBlockEnded ErrBlockEnded = True"
| "isBlockEnded (ParsingError _ e) = isBlockEnded e"
| "isBlockEnded _ = False"

text \<open>\<open>ParseStatements\<close> returns the statements with its error when a block ends, so its
  value is the pair; \<open>ps\<close> stands for the call of \<open>ParseStatements\<close>.\<close>

type_synonym stmts = "stmt list \<times> parseError option"

definition parseFilterName :: "string P" where
  "parseFilterName lx =
     (bindP peekOrErrP (\<lambda>lm.
       if lexKind lm = block_beg then returnP []
       else if lexKind lm = string_del then
         bindP (mapErrP (ParsingError (lexLine lm)) parseString)
           (\<lambda>name. bindP skipSepP (\<lambda>_. returnP name))
       else throwP (ParsingError (lexLine lm) ErrInvalidStatement))) lx"

text \<open>When the lexem after the name is missing, the error takes the line of a zero
  \<open>Lexem\<close>, which is 0.\<close>

definition parseFilter :: "stmts P \<Rightarrow> stmt P" where
  "parseFilter ps lx =
     (bindP skipSepP (\<lambda>_.
      bindP parseFilterName (\<lambda>name.
      bindP (mapErrP (ParsingError 0) nextOrErrP) (\<lambda>lm.
        if lexKind lm \<noteq> block_beg then throwP (ParsingError (lexLine lm) ErrInvalidStatement)
        else bindP skipSepP (\<lambda>_.
             bindP ps (\<lambda>(body, err).
               case err of
                 None \<Rightarrow> throwP ErrBlockNotEnded
               | Some e \<Rightarrow> if \<not> isBlockEnded e then throwP e
                           else bindP skipSepP (\<lambda>_. returnP (Filter name body)))))))) lx"

definition parseStatement :: "nat \<Rightarrow> stmts P \<Rightarrow> Kind \<Rightarrow> stmt P" where
  "parseStatement n ps k lx =
     ((if k \<in> {identifier_kind, number, string_del} then parseExprStatement n
      else if k = filter_kind then bindP nextP (\<lambda>_. parseFilter ps)
      else if k = block_beg then bindP nextP (\<lambda>_. parseActionStatement n)
      else bindP nextP (\<lambda>_. parseLetStatement n))) lx"

fun ParseStatementsLoop :: "nat \<Rightarrow> stmt list \<Rightarrow> stmts P" where
  "ParseStatementsLoop 0 acc lx = None"
| "ParseStatementsLoop (Suc n) acc lx =
     (bindP peekP (\<lambda>r.
       case r of
         None \<Rightarrow> returnP (acc, None)
       | Some lm \<Rightarrow>
           if lexKind lm = block_end then
             bindP nextP (\<lambda>_ lx. returnP (acc, Some (ParsingError (lineNo lx) ErrBlockEnded)) lx)
           else if lexKind lm \<notin> {identifier_kind, number, string_del, filter_kind, block_beg, let_kind} then
             (\<lambda>lx. returnP ([], Some (ParsingError (lineNo lx) ErrExpectedStatement)) lx)
           else catchP (parseStatement (Suc n) (ParseStatementsLoop n []) (lexKind lm))
                  (\<lambda>e. returnP ([], Some e))
                  (\<lambda>st. bindP skipSepP (\<lambda>_. ParseStatementsLoop n (acc @ [st]))))) lx"

text \<open>\<open>Parse\<close>: the tree and the error, if any. The loop starts with no statement.\<close>

definition ParseFuel :: "nat \<Rightarrow> string \<Rightarrow> stmts option" where
  "ParseFuel n src =
     (case ParseStatementsLoop n [] (NewLexer src) of
        Some (Inr res, _) \<Rightarrow> Some res
      | Some (Inl e, _) \<Rightarrow> Some ([], Some e)
      | None \<Rightarrow> None)"

definition Parse :: "string \<Rightarrow> stmts option" where
  "Parse src = ParseFuel (Suc (length src)) src"

section \<open>A calculus for parsers\<close>

text \<open>\<open>wpP p Q lx\<close>: the parser returns, and \<open>Q\<close> holds of what it returns and of the lexer
  it leaves. \<open>fine good k\<close> is the postcondition of the proofs below: the pending lexem is
  well formed, no error is a panic or the end of a block, and a value is \<open>good\<close> with less than \<open>k\<close> input left.\<close>

definition wpP :: "'a P \<Rightarrow> (parseError + 'a \<Rightarrow> Lexer \<Rightarrow> bool) \<Rightarrow> Lexer \<Rightarrow> bool" where
  "wpP p Q lx \<longleftrightarrow> (\<exists>r lx'. p lx = Some (r, lx') \<and> Q r lx')"

fun plainErr :: "parseError \<Rightarrow> bool" where
  "plainErr NilPointer = False"
| "plainErr ErrBlockEnded = False"
| "plainErr (ParsingError _ e) = plainErr e"
| "plainErr _ = True"

definition fine :: "('a \<Rightarrow> bool) \<Rightarrow> nat \<Rightarrow> parseError + 'a \<Rightarrow> Lexer \<Rightarrow> bool" where
  "fine good k r lx' \<longleftrightarrow>
     lexerOk lx' \<and> (case r of Inl e \<Rightarrow> plainErr e | Inr a \<Rightarrow> good a \<and> lxm lx' < k)"

lemma wpP_fineE:
  assumes "wpP m (fine g j) lx"
  obtains (err) e lx' where "m lx = Some (Inl e, lx')" and "lexerOk lx'" and "plainErr e"
  | (val) a lx' where "m lx = Some (Inr a, lx')" and "lexerOk lx'" and "g a" and "lxm lx' < j"
proof -
  from assms obtain r lx' where "m lx = Some (r, lx')" and "fine g j r lx'"
    unfolding wpP_def by blast
  with that show thesis by (cases r) (auto simp: fine_def)
qed

named_theorems wp \<open>rules that reduce a parser to the parsers it is made of\<close>

lemma wp_returnP [wp]:
  "lexerOk lx \<Longrightarrow> good a \<Longrightarrow> lxm lx < k \<Longrightarrow> wpP (returnP a) (fine good k) lx"
  by (simp add: wpP_def returnP_def fine_def)

lemma wp_throwP [wp]: "lexerOk lx \<Longrightarrow> plainErr e \<Longrightarrow> wpP (throwP e) (fine good k) lx"
  by (simp add: wpP_def throwP_def fine_def)

lemma wp_bindP:
  assumes "wpP m (fine g j) lx"
    and "\<And>a lx'. lexerOk lx' \<Longrightarrow> g a \<Longrightarrow> lxm lx' < j \<Longrightarrow> wpP (f a) (fine good k) lx'"
  shows "wpP (bindP m f) (fine good k) lx"
  using assms(1)
proof (cases rule: wpP_fineE)
  case (val a lx')
  with assms(2) [of lx' a] show ?thesis by (simp add: wpP_def bindP_def)
qed (simp add: wpP_def bindP_def fine_def)

lemma wp_bind_returnP [wp]: "wpP (f a) Q lx \<Longrightarrow> wpP (bindP (returnP a) f) Q lx"
  by (simp add: wpP_def bindP_def returnP_def)

lemma wp_peekP [wp]:
  assumes "lexerOk lx"
    and "\<And>r lx'. lexerOk lx' \<Longrightarrow> lxm lx' \<le> lxm lx \<Longrightarrow> current lx' = r \<Longrightarrow> wpP (f r) Q lx'"
  shows "wpP (bindP peekP f) Q lx"
proof -
  obtain r lx' where p: "Peek lx = (r, lx')" by (cases "Peek lx")
  have "wpP (f r) Q lx'"
    using assms(2) Peek_ok(1) [OF assms(1) p] Peek_shrink [OF p] Peek_current [OF p] by blast
  then show ?thesis using p by (simp add: wpP_def bindP_def peekP_def)
qed

lemma wp_nextP [wp]:
  assumes "lexerOk lx"
    and "\<And>r lx'. lexerOk lx' \<Longrightarrow> lxm lx' \<le> lxm lx \<Longrightarrow> (current lx \<noteq> None \<Longrightarrow> lxm lx' < lxm lx) \<Longrightarrow>
      (\<And>lm. current lx = Some lm \<Longrightarrow> r = Some lm) \<Longrightarrow> wpP (f r) Q lx'"
  shows "wpP (bindP nextP f) Q lx"
proof -
  obtain r lx' where n: "Next lx = (r, lx')" by (cases "Next lx")
  have "lxm lx' \<le> lxm lx"
    using n Next_shrink [of lx] Next_None [of lx lx'] by (cases r) (auto simp: less_imp_le)
  moreover have "lxm lx' < lxm lx" if "current lx \<noteq> None"
    using that n by (auto simp: lxm_def)
  moreover have "r = Some lm" if "current lx = Some lm" for lm
    using that n by simp
  ultimately have "wpP (f r) Q lx'"
    using assms(2) Next_ok(1) [OF assms(1) n] by blast
  then show ?thesis using n by (simp add: wpP_def bindP_def nextP_def)
qed

lemma wp_if_nextP [wp]:
  assumes "lexerOk lx" and "\<And>r lx'. lexerOk lx' \<Longrightarrow> lxm lx' \<le> lxm lx \<Longrightarrow> wpP (f r) Q lx'"
  shows "wpP (bindP (if c then nextP else returnP r) f) Q lx"
  using assms by (auto intro: wp_nextP wp_bind_returnP)

lemma wp_skipSepP [wp]:
  assumes "lexerOk lx" and "\<And>b lx'. lexerOk lx' \<Longrightarrow> lxm lx' \<le> lxm lx \<Longrightarrow> wpP (f b) Q lx'"
  shows "wpP (bindP skipSepP f) Q lx"
proof -
  obtain b lx' where p: "SkipSep lx = (b, lx')" by (cases "SkipSep lx")
  have "wpP (f b) Q lx'"
    using assms(2) SkipSep_ok [OF assms(1) p] SkipSep_shrink [OF p] by blast
  then show ?thesis using p by (simp add: wpP_def bindP_def skipSepP_def)
qed

lemma wp_nextOrErr_fine:
  assumes "lexerOk lx"
  shows "wpP nextOrErrP (fine lexemOk (lxm lx)) lx"
proof -
  obtain r lx' where n: "Next lx = (r, lx')" by (cases "Next lx")
  show ?thesis
    using Next_ok [OF assms n] Next_shrink [of lx] n
    by (auto simp: wpP_def nextOrErrP_def NextOrErr_def fine_def split: option.splits)
qed

lemma wp_nextOrErrP [wp]:
  assumes "lexerOk lx"
    and "\<And>lm lx'. lexerOk lx' \<Longrightarrow> lexemOk lm \<Longrightarrow> lxm lx' < lxm lx \<Longrightarrow> wpP (f lm) (fine good k) lx'"
  shows "wpP (bindP nextOrErrP f) (fine good k) lx"
  using wp_bindP [OF wp_nextOrErr_fine [OF assms(1)]] assms(2) by blast

lemma wp_peekOrErrP [wp]:
  assumes "lexerOk lx"
    and "\<And>lm lx'. lexerOk lx' \<Longrightarrow> lxm lx' \<le> lxm lx \<Longrightarrow> current lx' = Some lm \<Longrightarrow>
      wpP (f lm) (fine good k) lx'"
  shows "wpP (bindP peekOrErrP f) (fine good k) lx"
proof -
  obtain r lx' where p: "Peek lx = (r, lx')" by (cases "Peek lx")
  note ok = Peek_ok(1) [OF assms(1) p]
  show ?thesis
  proof (cases r)
    case None
    with p ok show ?thesis
      by (simp add: wpP_def bindP_def peekOrErrP_def PeekOrErr_def fine_def)
  next
    case (Some lm)
    then have "wpP (f lm) (fine good k) lx'"
      using assms(2) ok Peek_shrink [OF p] Peek_current [OF p] by simp
    with p Some show ?thesis
      by (simp add: wpP_def bindP_def peekOrErrP_def PeekOrErr_def)
  qed
qed

lemma wp_mapErrP:
  assumes "wpP m (fine good k) lx" and "\<And>e. plainErr (g e) = plainErr e"
  shows "wpP (mapErrP g m) (fine good k) lx"
  using assms(1) by (cases rule: wpP_fineE) (simp_all add: wpP_def mapErrP_def fine_def assms(2))

lemma wp_atLineP [wp]: "wpP m (fine good k) lx \<Longrightarrow> wpP (atLineP m) (fine good k) lx"
  by (erule wpP_fineE) (simp_all add: wpP_def atLineP_def fine_def)

lemma wp_catchP:
  assumes "wpP m (fine g j) lx"
    and "\<And>e lx'. lexerOk lx' \<Longrightarrow> plainErr e \<Longrightarrow> wpP (h e) Q lx'"
    and "\<And>a lx'. lexerOk lx' \<Longrightarrow> g a \<Longrightarrow> lxm lx' < j \<Longrightarrow> wpP (f a) Q lx'"
  shows "wpP (catchP m h f) Q lx"
  using assms(1)
proof (cases rule: wpP_fineE)
  case (err e lx')
  with assms(2) [of lx' e] show ?thesis by (simp add: wpP_def catchP_def)
next
  case (val a lx')
  with assms(3) [of lx' a] show ?thesis by (simp add: wpP_def catchP_def)
qed

lemma wp_if [wp]:
  "(c \<Longrightarrow> wpP p Q lx) \<Longrightarrow> (\<not> c \<Longrightarrow> wpP q Q lx) \<Longrightarrow> wpP (if c then p else q) Q lx"
  by simp

lemma wp_option [wp]:
  "(x = None \<Longrightarrow> wpP p Q lx) \<Longrightarrow> (\<And>y. x = Some y \<Longrightarrow> wpP (q y) Q lx) \<Longrightarrow>
   wpP (case x of None \<Rightarrow> p | Some y \<Rightarrow> q y) Q lx"
  by (cases x) simp_all

lemma wp_eta: "wpP p Q lx \<Longrightarrow> (\<And>lx. p' lx = p lx) \<Longrightarrow> wpP p' Q lx"
  by (simp add: wpP_def)

lemma wp_here: "wpP (returnP (g lx)) Q lx \<Longrightarrow> wpP (\<lambda>lx. returnP (g lx) lx) Q lx"
  by (simp add: wpP_def)

lemma fine_weaken:
  "wpP p (fine g j) lx \<Longrightarrow> j \<le> k \<Longrightarrow> (\<And>a. g a \<Longrightarrow> good a) \<Longrightarrow> wpP p (fine good k) lx"
  by (erule wpP_fineE) (auto simp: wpP_def fine_def)

section \<open>Parsers that return\<close>

text \<open>The contract between a parser and the parsers it calls: with less than \<open>n\<close> of input
  it returns, does not panic, gives a good value and consumes something to give it.\<close>

locale subparser =
  fixes p :: "'a P" and n :: nat and good :: "'a \<Rightarrow> bool"
  assumes runs: "lexerOk lx \<Longrightarrow> lxm lx < n \<Longrightarrow> wpP p (fine good (lxm lx)) lx"

text \<open>An expression whose operators are all ones that \<open>OperatorExpression.Eval\<close> knows.\<close>

fun exprOk :: "expr \<Rightarrow> bool" where
  "exprOk (OperatorExpression op a b) = (op \<in> set (validOps @ [''or'']) \<and> exprOk a \<and> exprOk b)"
| "exprOk (Field name e) = exprOk e"
| "exprOk (Method name e ps) = (exprOk e \<and> (\<forall>q \<in> set ps. exprOk q))"
| "exprOk _ = True"

fun stmtOk :: "stmt \<Rightarrow> bool" where
  "stmtOk (ExpressionStatement e) = exprOk e"
| "stmtOk (ActionStatement name ps) = (\<forall>q \<in> set ps. exprOk q)"
| "stmtOk (LetStatement name e) = exprOk e"
| "stmtOk (Filter name body) = (\<forall>st \<in> set body. stmtOk st)"

lemma wp_nextValueP:
  assumes "lexerOk lx" and "current lx = Some lm"
    and "\<And>lx'. lexerOk lx' \<Longrightarrow> lxm lx' < lxm lx \<Longrightarrow> wpP (f (lexValue lm)) (fine good k) lx'"
  shows "wpP (bindP nextValueP f) (fine good k) lx"
proof -
  let ?lx = "lx\<lparr>current := None\<rparr>"
  have "nextValueP lx = Some (Inr (lexValue lm), ?lx)"
    using assms(2) by (simp add: nextValueP_def bindP_def nextP_def returnP_def)
  moreover have "lexerOk ?lx" and "lxm ?lx < lxm lx"
    using assms(2) by (simp_all add: lexerOk_def lxm_def)
  ultimately show ?thesis using assms(3) by (simp add: wpP_def bindP_def)
qed

lemma wp_parseNumber:
  assumes "lexerOk lx" and "current lx = Some lm"
  shows "wpP parseNumber (fine (\<lambda>_. True) (lxm lx)) lx"
  by (rule wp_eta [OF _ parseNumber_def], rule wp_nextValueP [OF assms])
    (auto intro!: wp)

lemma parseStringLoop_fine:
  assumes "lexerOk lx"
  shows "fine (\<lambda>_. True) (lxm lx) (fst (parseStringLoop sb lx)) (snd (parseStringLoop sb lx))"
  using assms
proof (induction sb lx rule: parseStringLoop.induct)
  case (1 sb lx)
  obtain r lx' where n: "Next lx = (r, lx')" by (cases "Next lx")
  note ok = Next_ok [OF "1.prems" n]
  show ?case
  proof (cases r)
    case None
    with n ok show ?thesis by (simp add: parseStringLoop.simps NextOrErr_def fine_def)
  next
    case (Some lm)
    have less: "lxm lx' < lxm lx" using n Some Next_shrink by simp
    have ne: "NextOrErr lx = (Inr lm, lx')" using n Some by (simp add: NextOrErr_def)
    show ?thesis
    proof (cases "lexKind lm = string_del")
      case True
      with ne ok less show ?thesis by (simp add: parseStringLoop.simps [of sb lx] fine_def)
    next
      case False
      have "fine (\<lambda>_. True) (lxm lx') (fst (parseStringLoop (sb @ lexValue lm) lx'))
          (snd (parseStringLoop (sb @ lexValue lm) lx'))"
        using "1.IH" ne False ok(1) by simp
      with ne False less show ?thesis
        by (simp add: parseStringLoop.simps [of sb lx] fine_def split: sum.splits)
    qed
  qed
qed

lemma wp_parseString:
  assumes "lexerOk lx"
  shows "wpP parseString (fine (\<lambda>_. True) (lxm lx)) lx"
proof (rule wp_eta [OF _ parseString_def], rule wp_nextP [OF assms])
  fix r lx'
  assume a: "lexerOk lx'" "lxm lx' \<le> lxm lx"
  show "wpP (\<lambda>lx. Some (parseStringLoop [] lx)) (fine (\<lambda>_. True) (lxm lx)) lx'"
    using parseStringLoop_fine [OF a(1), of "[]"] a(2)
    by (cases "parseStringLoop [] lx'") (auto simp: wpP_def fine_def split: sum.splits)
qed

lemma wp_closeParen:
  "lexerOk lx \<Longrightarrow> exprOk e \<Longrightarrow> lxm lx < k \<Longrightarrow> wpP (closeParen e) (fine exprOk k) lx"
  by (rule wp_eta [OF _ closeParen_def]) (auto intro!: wp)

lemma operator_known:
  assumes "lexerOk lx" and "current lx = Some op" and "lexKind op = operator_low \<or> lexKind op = operator_high"
  shows "lexValue op \<in> set (validOps @ [''or''])"
proof -
  have "lexemOk op" using assms(1,2) by (simp add: lexerOk_def)
  with assms(3) show ?thesis by (auto simp: lexemOk_def)
qed

locale operand = subparser p n exprOk for p :: "expr P" and n :: nat
begin

lemma bind_operand:
  "lexerOk lx \<Longrightarrow> lxm lx < n \<Longrightarrow>
   (\<And>e lx'. lexerOk lx' \<Longrightarrow> exprOk e \<Longrightarrow> lxm lx' < lxm lx \<Longrightarrow> wpP (f e) (fine good k) lx') \<Longrightarrow>
   wpP (bindP p f) (fine good k) lx"
  using wp_bindP [OF runs] by blast

lemma params_loop:
  "lexerOk lx \<Longrightarrow> lxm lx < n \<Longrightarrow> lxm lx < m \<Longrightarrow> \<forall>q \<in> set ps. exprOk q \<Longrightarrow>
   wpP (parseParamsLoop m p ps) (fine (\<lambda>qs. \<forall>q \<in> set qs. exprOk q) (lxm lx)) lx"
proof (induction m arbitrary: lx ps)
  case 0
  then show ?case by simp
next
  case (Suc m)
  have rec: "wpP (parseParamsLoop m p qs) (fine (\<lambda>qs. \<forall>q \<in> set qs. exprOk q) (lxm lx)) lx'"
    if "lexerOk lx'" "lxm lx' < lxm lx" "\<forall>q \<in> set qs. exprOk q" for lx' qs
    using fine_weaken [OF Suc.IH [of lx' qs]] that Suc.prems by simp
  show ?case
    by (rule wp_eta [OF _ parseParamsLoop.simps(2)])
      (use Suc.prems in \<open>auto intro!: wp bind_operand rec\<close>)
qed

lemma params:
  "lexerOk lx \<Longrightarrow> lxm lx < n \<Longrightarrow> lxm lx < m \<Longrightarrow>
   wpP (parseParams m p) (fine (\<lambda>qs. \<forall>q \<in> set qs. exprOk q) (lxm lx)) lx"
  by (rule wp_eta [OF _ parseParams_def])
    (auto intro!: wp fine_weaken [OF params_loop])

lemma bind_params:
  "lexerOk lx \<Longrightarrow> lxm lx < n \<Longrightarrow> lxm lx < m \<Longrightarrow>
   (\<And>qs lx'. lexerOk lx' \<Longrightarrow> \<forall>q \<in> set qs. exprOk q \<Longrightarrow> lxm lx' < lxm lx \<Longrightarrow> wpP (f qs) (fine good k) lx') \<Longrightarrow>
   wpP (bindP (parseParams m p) f) (fine good k) lx"
  using wp_bindP [OF params] by blast

lemma eval_loop:
  "lexerOk lx \<Longrightarrow> lxm lx < n \<Longrightarrow> lxm lx < m \<Longrightarrow> exprOk e \<Longrightarrow>
   wpP (parseEvalLoop m p e) (fine exprOk (Suc (lxm lx))) lx"
proof (induction m arbitrary: lx e)
  case 0
  then show ?case by simp
next
  case (Suc m)
  have rec: "wpP (parseEvalLoop m p e') (fine exprOk (Suc (lxm lx))) lx'"
    if "lexerOk lx'" "lxm lx' < lxm lx" "exprOk e'" for lx' e'
    using fine_weaken [OF Suc.IH [of lx' e']] that Suc.prems by simp
  show ?case
    by (rule wp_eta [OF _ parseEvalLoop.simps(2)])
      (use Suc.prems in \<open>auto intro!: wp bind_params rec\<close>)
qed

lemma evaluation:
  "lexerOk lx \<Longrightarrow> current lx = Some lm \<Longrightarrow> lxm lx \<le> n \<Longrightarrow> wpP (parseEval n p) (fine exprOk (lxm lx)) lx"
  by (rule wp_eta [OF _ parseEval_def], erule wp_nextValueP, assumption)
    (auto intro!: fine_weaken [OF eval_loop])

lemma literal:
  assumes "lexerOk lx" and "lxm lx \<le> n"
  shows "wpP (parseExpressionLiteral n p) (fine exprOk (lxm lx)) lx"
proof (rule wp_eta [OF _ parseExpressionLiteral_def], rule wp_peekP [OF assms(1)], rule wp_option, goal_cases)
  case (1 r lx')
  then show ?case by (auto intro!: wp)
next
  case (2 r lx' lm)
  then have c: "current lx' = Some lm" by simp
  show ?case
  proof (intro wp_if, goal_cases)
    case 1
    show ?case using 2 assms c by (auto intro!: wp bind_operand wp_closeParen)
  next
    case _: 2
    show ?case using 2 assms c by (auto intro!: fine_weaken [OF evaluation])
  next
    case 3
    show ?case using 2 c by (auto intro!: wp_bindP [OF wp_parseNumber] wp)
  next
    case 4
    show ?case using 2 c by (auto intro!: wp_bindP [OF wp_parseString] wp)
  next
    case 5
    show ?case using 2 by (auto intro!: wp)
  qed
qed

lemma operator_loop:
  assumes "kind = operator_low \<or> kind = operator_high"
  shows "lexerOk lx \<Longrightarrow> lxm lx < n \<Longrightarrow> lxm lx < m \<Longrightarrow> exprOk l \<Longrightarrow>
    wpP (operatorLoop m kind p l) (fine exprOk (Suc (lxm lx))) lx"
proof (induction m arbitrary: lx l)
  case 0
  then show ?case by simp
next
  case (Suc m)
  have rec: "wpP (operatorLoop m kind p (OperatorExpression (lexValue op) l r)) (fine exprOk (Suc (lxm lx))) lx2"
    if "current lx1 = Some op" "lexerOk lx1" "lexKind op = kind" "lexerOk lx2" "lxm lx2 < lxm lx" "exprOk r"
    for lx1 lx2 op r
    using fine_weaken [OF Suc.IH [of lx2 "OperatorExpression (lexValue op) l r"]] that Suc.prems
      operator_known [OF that(2,1)] assms by auto
  show ?case
    by (rule wp_eta [OF _ operatorLoop.simps(2)])
      (insert Suc.prems, (rule wp bind_operand | assumption | erule (3) rec | simp)+)
qed

lemma operator:
  assumes "kind = operator_low \<or> kind = operator_high" and "lexerOk lx" and "lxm lx < n" and "lxm lx \<le> m"
  shows "wpP (parseOperator m kind p) (fine exprOk (lxm lx)) lx"
  by (rule wp_eta [OF _ parseOperator_def])
    (use assms in \<open>auto intro!: bind_operand fine_weaken [OF operator_loop]\<close>)

end

text \<open>The layers of the expression grammar, each fulfilling the contract the next relies on.\<close>

lemma operandI:
  "(\<And>lx. lexerOk lx \<Longrightarrow> lxm lx < n \<Longrightarrow> wpP p (fine exprOk (lxm lx)) lx) \<Longrightarrow> operand p n"
  by unfold_locales

lemma operand_literal: "operand p n \<Longrightarrow> operand (parseExpressionLiteral n p) (Suc n)"
  by (rule operandI) (simp add: operand.literal)

lemma operand_low: "operand p n \<Longrightarrow> operand (parseExpressionLow n p) (Suc n)"
  using operand.operator [OF operand_literal, of p n operator_low _ n]
  by (intro operandI) (auto intro: wp_eta [OF _ parseExpressionLow_def])

lemma operand_high: "operand p n \<Longrightarrow> operand (parseExpressionHigh n p) (Suc n)"
  using operand.operator [OF operand_low, of p n operator_high _ n]
  by (intro operandI) (auto intro: wp_eta [OF _ parseExpressionHigh_def])

lemma operand_expression: "operand (parseExpression n) n"
proof (induction n)
  case 0
  show ?case by (rule operandI) simp
next
  case (Suc n)
  show ?case
    using subparser.runs [OF operand.axioms [OF operand_high [OF Suc.IH]]]
    by (intro operandI) (auto intro: wp_eta [OF _ parseExpression.simps(2)])
qed

interpretation pe: operand "parseExpression n" n for n
  by (rule operand_expression)

section \<open>Statements return\<close>

text \<open>The contract of \<open>ParseStatements\<close>: well-formed statements, and as error nothing, a
  plain error, or the end of a block, and then no more input than before is left.\<close>

definition stmtsPost :: "nat \<Rightarrow> parseError + stmts \<Rightarrow> Lexer \<Rightarrow> bool" where
  "stmtsPost k r lx' \<longleftrightarrow>
     lexerOk lx' \<and>
     (case r of
        Inl e \<Rightarrow> False
      | Inr (ss, err) \<Rightarrow> (\<forall>st \<in> set ss. stmtOk st) \<and>
          (case err of
             None \<Rightarrow> True
           | Some e \<Rightarrow> plainErr e \<or> (\<exists>l. e = ParsingError l ErrBlockEnded) \<and> lxm lx' \<le> k))"

lemma stmtsPost_mono:
  "wpP p (stmtsPost j) lx \<Longrightarrow> j \<le> k \<Longrightarrow> wpP p (stmtsPost k) lx"
  unfolding wpP_def stmtsPost_def by (fastforce split: sum.splits option.splits)

locale statements =
  fixes ps :: "stmts P" and n :: nat
  assumes stmts: "lexerOk lx \<Longrightarrow> lxm lx < n \<Longrightarrow> wpP ps (stmtsPost (lxm lx)) lx"
begin

lemma bind_stmts:
  assumes "lexerOk lx" and "lxm lx < n"
    and "\<And>ss lx'. lexerOk lx' \<Longrightarrow> wpP (f (ss, None)) Q lx'"
    and "\<And>ss e lx'. lexerOk lx' \<Longrightarrow> plainErr e \<Longrightarrow> wpP (f (ss, Some e)) Q lx'"
    and "\<And>ss l lx'. lexerOk lx' \<Longrightarrow> \<forall>st \<in> set ss. stmtOk st \<Longrightarrow> lxm lx' \<le> lxm lx \<Longrightarrow>
      wpP (f (ss, Some (ParsingError l ErrBlockEnded))) Q lx'"
  shows "wpP (bindP ps f) Q lx"
proof -
  obtain ss err lx' where p: "ps lx = Some (Inr (ss, err), lx')" and ok: "lexerOk lx'"
    and s: "\<forall>st \<in> set ss. stmtOk st"
    and c: "case err of None \<Rightarrow> True
      | Some e \<Rightarrow> plainErr e \<or> (\<exists>l. e = ParsingError l ErrBlockEnded) \<and> lxm lx' \<le> lxm lx"
  proof -
    obtain r lx' where "ps lx = Some (r, lx')" and "stmtsPost (lxm lx) r lx'"
      using stmts [OF assms(1,2)] by (auto simp: wpP_def)
    with that show thesis by (cases r) (auto simp: stmtsPost_def)
  qed
  from c ok s assms(3-5) have "wpP (f (ss, err)) Q lx'"
    by (auto split: option.splits)
  with p show ?thesis by (simp add: wpP_def bindP_def)
qed

lemma plain_not_ended: "plainErr e \<Longrightarrow> \<not> isBlockEnded e"
  by (induction e) auto

lemma filter_name:
  "lexerOk lx \<Longrightarrow> wpP parseFilterName (fine (\<lambda>_. True) (Suc (lxm lx))) lx"
  by (rule wp_eta [OF _ parseFilterName_def])
    (auto intro!: wp wp_bindP [OF wp_mapErrP [OF wp_parseString]])

lemma filter_statement:
  assumes "lexerOk lx" and "lxm lx < n"
  shows "wpP (parseFilter ps) (fine stmtOk (lxm lx)) lx"
  by (rule wp_eta [OF _ parseFilter_def])
    (use assms in \<open>auto intro!: wp wp_bindP [OF filter_name] bind_stmts
      wp_bindP [OF wp_mapErrP [OF wp_nextOrErr_fine]] simp: plain_not_ended\<close>)

lemma statement:
  assumes "lexerOk lx" and "current lx = Some lm" and "lxm lx \<le> n"
  shows "wpP (parseStatement (Suc n) ps k) (fine stmtOk (lxm lx)) lx"
proof -
  have expr: "wpP (parseExprStatement (Suc n)) (fine stmtOk (lxm lx)) lx"
    by (rule wp_eta [OF _ parseExprStatement_def])
      (use assms in \<open>auto intro!: wp pe.bind_operand simp del: parseExpression.simps\<close>)
  have act: "wpP (parseActionStatement (Suc n)) (fine stmtOk (lxm lx)) lx'"
    if "lexerOk lx'" "lxm lx' < lxm lx" for lx'
    by (rule wp_eta [OF _ parseActionStatement_def])
      (use that assms in \<open>auto intro!: wp pe.bind_params simp del: parseExpression.simps\<close>)
  have lt: "wpP (parseLetStatement (Suc n)) (fine stmtOk (lxm lx)) lx'"
    if "lexerOk lx'" "lxm lx' < lxm lx" for lx'
    by (rule wp_eta [OF _ parseLetStatement_def])
      (use that assms in \<open>auto intro!: wp pe.bind_operand simp del: parseExpression.simps\<close>)
  have fl: "wpP (parseFilter ps) (fine stmtOk (lxm lx)) lx'"
    if "lexerOk lx'" "lxm lx' < lxm lx" for lx'
    using fine_weaken [OF filter_statement [of lx']] that assms by simp
  show ?thesis
    by (rule wp_eta [OF _ parseStatement_def])
      (use assms expr in \<open>auto intro!: wp fl act lt\<close>)
qed

end

lemma statements_loop:
  "lexerOk lx \<Longrightarrow> lxm lx < m \<Longrightarrow> \<forall>st \<in> set acc. stmtOk st \<Longrightarrow>
   wpP (ParseStatementsLoop m acc) (stmtsPost (lxm lx)) lx"
proof (induction m arbitrary: lx acc)
  case 0
  then show ?case by simp
next
  case (Suc m)
  have prov: "statements (ParseStatementsLoop m []) m"
    by unfold_locales (simp add: Suc.IH)
  have fin: "wpP (returnP (ss, err)) (stmtsPost (lxm lx)) lx'"
    if "lexerOk lx'" "\<forall>st \<in> set ss. stmtOk st"
      "case err of None \<Rightarrow> True
       | Some e \<Rightarrow> plainErr e \<or> (\<exists>l. e = ParsingError l ErrBlockEnded) \<and> lxm lx' \<le> lxm lx"
    for ss err lx'
    using that by (simp add: wpP_def returnP_def stmtsPost_def)
  have rec: "wpP (ParseStatementsLoop m ss) (stmtsPost (lxm lx)) lx'"
    if "lexerOk lx'" "lxm lx' < lxm lx" "\<forall>st \<in> set ss. stmtOk st" for lx' ss
    using stmtsPost_mono [OF Suc.IH [of lx' ss], of "lxm lx"] that Suc.prems by simp
  have stmt: "wpP (catchP (parseStatement (Suc m) (ParseStatementsLoop m []) k) h f) (stmtsPost (lxm lx)) lx'"
    if "lexerOk lx'" "current lx' = Some lm" "lxm lx' \<le> lxm lx"
      "\<And>e lx'. lexerOk lx' \<Longrightarrow> plainErr e \<Longrightarrow> wpP (h e) (stmtsPost (lxm lx)) lx'"
      "\<And>st lx'. lexerOk lx' \<Longrightarrow> stmtOk st \<Longrightarrow> lxm lx' < lxm lx \<Longrightarrow> wpP (f st) (stmtsPost (lxm lx)) lx'"
    for lx' lm k h f
    using that Suc.prems
    by (intro wp_catchP [OF statements.statement [OF prov that(1,2)]]) auto
  show ?case
  proof (rule wp_eta [OF _ ParseStatementsLoop.simps(2)], rule wp_peekP [OF Suc.prems(1)],
      rule wp_option, goal_cases)
    case (1 r lx')
    then show ?case using Suc.prems by (auto intro!: fin)
  next
    case (2 r lx' lm)
    then have c: "current lx' = Some lm" by simp
    show ?case
    proof (intro wp_if, goal_cases)
      case 1
      show ?case
        by (rule wp_nextP [OF 2(1)], rule wp_here, rule fin)
          (use 2 Suc.prems in auto)
    next
      case _: 2
      show ?case
        by (rule wp_here, rule fin) (use 2 Suc.prems in auto)
    next
      case 3
      show ?case
        using 2 Suc.prems c
        by (auto intro!: stmt fin wp_skipSepP rec)
    qed
  qed
qed

interpretation ps: statements "ParseStatementsLoop m []" m for m
  by unfold_locales (simp add: statements_loop)

section \<open>More fuel changes nothing\<close>

text \<open>\<open>leP p q\<close>: \<open>q\<close> returns what \<open>p\<close> returns, wherever \<open>p\<close> returns.\<close>

definition leP :: "'a P \<Rightarrow> 'a P \<Rightarrow> bool" where
  "leP p q \<longleftrightarrow> (\<forall>lx. p lx = None \<or> p lx = q lx)"

named_theorems mono_parser \<open>the combinators and the parsers are monotone in \<open>leP\<close>\<close>

lemma leP_refl [mono_parser]: "leP p p"
  by (simp add: leP_def)

lemma leP_None: "(\<And>lx. p lx = None) \<Longrightarrow> leP p q"
  by (simp add: leP_def)

lemma leP_eta: "leP p q \<Longrightarrow> (\<And>lx. p' lx = p lx) \<Longrightarrow> (\<And>lx. q' lx = q lx) \<Longrightarrow> leP p' q'"
  by (simp add: leP_def)

lemma leP_bindP [mono_parser]:
  assumes "leP p q" and "\<And>a. leP (f a) (g a)"
  shows "leP (bindP p f) (bindP q g)"
  unfolding leP_def
proof
  fix lx
  show "bindP p f lx = None \<or> bindP p f lx = bindP q g lx"
  proof (cases "p lx")
    case (Some rl)
    then obtain r lx' where "p lx = Some (r, lx')" by (cases rl) simp
    moreover from this have "q lx = Some (r, lx')" using assms(1) by (auto simp: leP_def dest: spec [of _ lx])
    ultimately show ?thesis using assms(2) by (cases r) (auto simp: bindP_def leP_def)
  qed (simp add: bindP_def)
qed

lemma leP_catchP [mono_parser]:
  assumes "leP p q" and "\<And>a. leP (f a) (g a)"
  shows "leP (catchP p h f) (catchP q h g)"
  unfolding leP_def
proof
  fix lx
  show "catchP p h f lx = None \<or> catchP p h f lx = catchP q h g lx"
  proof (cases "p lx")
    case (Some rl)
    then obtain r lx' where "p lx = Some (r, lx')" by (cases rl) simp
    moreover from this have "q lx = Some (r, lx')" using assms(1) by (auto simp: leP_def dest: spec [of _ lx])
    ultimately show ?thesis using assms(2) by (cases r) (auto simp: catchP_def leP_def)
  qed (simp add: catchP_def)
qed

lemma leP_atLineP [mono_parser]: "leP p q \<Longrightarrow> leP (atLineP p) (atLineP q)"
  unfolding leP_def
proof
  fix lx
  assume "\<forall>lx. p lx = None \<or> p lx = q lx"
  then have "p lx = None \<or> p lx = q lx" by blast
  then show "atLineP p lx = None \<or> atLineP p lx = atLineP q lx"
    by (elim disjE) (simp_all add: atLineP_def)
qed

lemma leP_if [mono_parser]: "leP p q \<Longrightarrow> leP p' q' \<Longrightarrow> leP (if c then p else p') (if c then q else q')"
  by simp

lemma leP_option [mono_parser]:
  "leP p q \<Longrightarrow> (\<And>y. leP (f y) (g y)) \<Longrightarrow>
   leP (case x of None \<Rightarrow> p | Some y \<Rightarrow> f y) (case x of None \<Rightarrow> q | Some y \<Rightarrow> g y)"
  by (cases x) simp_all

lemma leP_pair [mono_parser]:
  "(\<And>a b. leP (f a b) (g a b)) \<Longrightarrow> leP (case x of (a, b) \<Rightarrow> f a b) (case x of (a, b) \<Rightarrow> g a b)"
  by (cases x) simp

lemma leP_paramsLoop: "m \<le> m' \<Longrightarrow> leP pe pe' \<Longrightarrow> leP (parseParamsLoop m pe ps) (parseParamsLoop m' pe' ps)"
proof (induction m arbitrary: m' ps)
  case 0
  show ?case by (rule leP_None) simp
next
  case (Suc m)
  then obtain k where k: "m' = Suc k" "m \<le> k" by (cases m') auto
  have rec: "\<And>qs. leP (parseParamsLoop m pe qs) (parseParamsLoop k pe' qs)"
    using Suc.IH k(2) Suc.prems(2) by blast
  show ?case unfolding k(1)
    by (rule leP_eta [OF _ parseParamsLoop.simps(2) parseParamsLoop.simps(2)])
      (intro mono_parser rec Suc.prems)
qed

lemma leP_params: "m \<le> m' \<Longrightarrow> leP pe pe' \<Longrightarrow> leP (parseParams m pe) (parseParams m' pe')"
  by (rule leP_eta [OF _ parseParams_def parseParams_def]) (intro mono_parser leP_paramsLoop)

lemma leP_evalLoop: "m \<le> m' \<Longrightarrow> leP pe pe' \<Longrightarrow> leP (parseEvalLoop m pe e) (parseEvalLoop m' pe' e)"
proof (induction m arbitrary: m' e)
  case 0
  show ?case by (rule leP_None) simp
next
  case (Suc m)
  then obtain k where k: "m' = Suc k" "m \<le> k" by (cases m') auto
  have rec: "\<And>e. leP (parseEvalLoop m pe e) (parseEvalLoop k pe' e)"
    using Suc.IH k(2) Suc.prems(2) by blast
  show ?case unfolding k(1)
    by (rule leP_eta [OF _ parseEvalLoop.simps(2) parseEvalLoop.simps(2)])
      (intro mono_parser rec leP_params k(2) Suc.prems)
qed

lemma leP_literal: "n \<le> n' \<Longrightarrow> leP pe pe' \<Longrightarrow> leP (parseExpressionLiteral n pe) (parseExpressionLiteral n' pe')"
  by (rule leP_eta [OF _ parseExpressionLiteral_def parseExpressionLiteral_def])
    (intro mono_parser leP_eta [OF _ parseEval_def parseEval_def] leP_evalLoop)

lemma leP_operatorLoop: "m \<le> m' \<Longrightarrow> leP p p' \<Longrightarrow> leP (operatorLoop m kind p e) (operatorLoop m' kind p' e)"
proof (induction m arbitrary: m' e)
  case 0
  show ?case by (rule leP_None) simp
next
  case (Suc m)
  then obtain k where k: "m' = Suc k" "m \<le> k" by (cases m') auto
  have rec: "\<And>e. leP (operatorLoop m kind p e) (operatorLoop k kind p' e)"
    using Suc.IH k(2) Suc.prems(2) by blast
  show ?case unfolding k(1)
    by (rule leP_eta [OF _ operatorLoop.simps(2) operatorLoop.simps(2)])
      (intro mono_parser rec Suc.prems)
qed

lemma leP_operator: "m \<le> m' \<Longrightarrow> leP p p' \<Longrightarrow> leP (parseOperator m kind p) (parseOperator m' kind p')"
  by (rule leP_eta [OF _ parseOperator_def parseOperator_def]) (intro mono_parser leP_operatorLoop)

lemma leP_high: "n \<le> n' \<Longrightarrow> leP pe pe' \<Longrightarrow> leP (parseExpressionHigh n pe) (parseExpressionHigh n' pe')"
  by (rule leP_eta [OF _ parseExpressionHigh_def parseExpressionHigh_def], rule leP_operator, assumption,
      rule leP_eta [OF _ parseExpressionLow_def parseExpressionLow_def])
    (intro leP_operator leP_literal)

lemma leP_expression: "n \<le> n' \<Longrightarrow> leP (parseExpression n) (parseExpression n')"
proof (induction n arbitrary: n')
  case 0
  show ?case by (rule leP_None) simp
next
  case (Suc n)
  then obtain k where k: "n' = Suc k" "n \<le> k" by (cases n') auto
  show ?case unfolding k(1)
    by (rule leP_eta [OF _ parseExpression.simps(2) parseExpression.simps(2)])
      (intro leP_high Suc.IH k(2))
qed

lemma leP_statement:
  assumes "n \<le> n'" and "leP ps ps'"
  shows "leP (parseStatement n ps k) (parseStatement n' ps' k)"
proof -
  note sub = leP_expression [OF assms(1)] leP_params [OF assms(1)]
  show ?thesis
    by (rule leP_eta [OF _ parseStatement_def parseStatement_def])
      (intro mono_parser leP_eta [OF _ parseExprStatement_def parseExprStatement_def]
        leP_eta [OF _ parseFilter_def parseFilter_def]
        leP_eta [OF _ parseActionStatement_def parseActionStatement_def]
        leP_eta [OF _ parseLetStatement_def parseLetStatement_def] sub assms)
qed

lemma leP_statementsLoop: "n \<le> n' \<Longrightarrow> leP (ParseStatementsLoop n acc) (ParseStatementsLoop n' acc)"
proof (induction n arbitrary: n' acc)
  case 0
  show ?case by (rule leP_None) simp
next
  case (Suc n)
  then obtain k where k: "n' = Suc k" "n \<le> k" by (cases n') auto
  have rec: "\<And>acc. leP (ParseStatementsLoop n acc) (ParseStatementsLoop k acc)"
    using Suc.IH k(2) by blast
  show ?case unfolding k(1)
    by (rule leP_eta [OF _ ParseStatementsLoop.simps(2) ParseStatementsLoop.simps(2)])
      (use k(2) in \<open>intro mono_parser leP_statement rec, simp\<close>)
qed

section \<open>Properties\<close>

lemma NewLexer_lxm: "lxm (NewLexer src) = length src"
  by (simp add: lxm_def NewLexer_def)

lemma Parse_cases:
  obtains ss err where "Parse src = Some (ss, err)" and "\<forall>st \<in> set ss. stmtOk st"
    and "case err of None \<Rightarrow> True
         | Some e \<Rightarrow> plainErr e \<or> (\<exists>l. e = ParsingError l ErrBlockEnded)"
proof -
  have "wpP (ParseStatementsLoop (Suc (length src)) []) (stmtsPost (length src)) (NewLexer src)"
    using ps.stmts [of "NewLexer src"] NewLexer_ok NewLexer_lxm by simp
  then obtain r lx' where p: "ParseStatementsLoop (Suc (length src)) [] (NewLexer src) = Some (r, lx')"
    and q: "stmtsPost (length src) r lx'"
    unfolding wpP_def by blast
  from q obtain ss err where r: "r = Inr (ss, err)" and s: "\<forall>st \<in> set ss. stmtOk st"
    and e: "case err of None \<Rightarrow> True
      | Some e \<Rightarrow> plainErr e \<or> (\<exists>l. e = ParsingError l ErrBlockEnded) \<and> lxm lx' \<le> length src"
    by (cases r) (auto simp: stmtsPost_def)
  have "Parse src = Some (ss, err)" unfolding Parse_def ParseFuel_def p r by simp
  then show thesis
    by (rule that [OF _ s]) (use e in \<open>auto split: option.splits\<close>)
qed

lemma ParseFuel_enough:
  assumes "length src < n"
  shows "ParseFuel n src = Parse src"
proof -
  obtain ss err where p: "Parse src = Some (ss, err)" by (rule Parse_cases)
  have "leP (ParseStatementsLoop (Suc (length src)) []) (ParseStatementsLoop n [])"
    using leP_statementsLoop assms by simp
  with p show ?thesis
    unfolding Parse_def ParseFuel_def leP_def by (metis option.case(1) option.distinct(1))
qed

text \<open>C2: the parser returns on every source, with statements whose operators are all known
  to the evaluator; an error it returns with them is never the panic of a missing lexem, and
  the end of a block only when the source has a stray \<open>end\<close>.\<close>

theorem Parse_returns:
  "\<exists>ss err. Parse src = Some (ss, err) \<and> list_all stmtOk ss \<and>
     (err = None \<or> (\<exists>e. err = Some e \<and> (plainErr e \<or> (\<exists>l. e = ParsingError l ErrBlockEnded))))"
proof -
  obtain ss err where "Parse src = Some (ss, err)" "\<forall>st \<in> set ss. stmtOk st"
    "case err of None \<Rightarrow> True | Some e \<Rightarrow> plainErr e \<or> (\<exists>l. e = ParsingError l ErrBlockEnded)"
    by (rule Parse_cases)
  then show ?thesis by (cases err) (auto simp: list_all_iff)
qed

text \<open>the bound on the depth and the iterations of the parser that \<open>Parse\<close> takes changes
  nothing: any larger one gives the same statements and the same error.\<close>

theorem Parse_fuel_irrelevant:
  assumes "length src < n"
  shows "ParseFuel n src = Parse src"
  using ParseFuel_enough [OF assms] .

theorem Parse_fuel_irrelevant_witness:
  "ParseFuel 100 ''do reject()'' = Parse ''do reject()''
   \<and> Parse ''do reject()'' = Some ([ActionStatement ''reject'' []], None)"
proof -
  have "Parse ''do reject()'' = Some ([ActionStatement ''reject'' []], None)" by code_simp
  with Parse_fuel_irrelevant [of "''do reject()''" 100] show ?thesis by simp
qed

end
