(* ===== verification/Filter_Eval.thy ===== *)
theory Filter_Eval
  imports Filter_Parser
begin

text \<open>
  The evaluator of the filter language: \<open>src/filter/eval.go\<close>, \<open>src/filter/eval_std.go\<close>,
  \<open>src/filter/eval_actions.go\<close> and the \<open>Eval\<close> methods of \<open>expression.go\<close>, \<open>ast.go\<close> and
  \<open>filter.go\<close>.

  A value of the language never changes once it is made (\<open>set\<close> works on a copy), so the
  pointers to it are left out. Its address shows in one place only: \<open>reflect.DeepEqual\<close> on
  two maps, whose elements hold functions, is decided by the identity of the objects, and
  is the argument \<open>same\<close> of the definitions that depend on it. The table of methods of a
  value is named by what made it, and the actions by the entries of the table \<open>actions\<close>.

  Run-time panics of Go are errors \<open>Panic\<close>, which no statement turns into \<open>false\<close>. The
  messages that go to the logger when the context is verbose are not modelled.
\<close>

section \<open>Values\<close>

datatype EvaluationVariableType = TypeString | TypeNumber | TypeBool | TypeCollection | TypeAny

datatype goType = GoFloat64 | GoString | GoAny

text \<open>The tables of methods: those of \<open>newString\<close>, \<open>newBool\<close> and \<open>newCollection[K, V]\<close>.\<close>

datatype methods = NoMethods | StringMethods | BoolMethods | CollectionMethods goType goType

datatype collKey = KeyNumber float64 | KeyString string

datatype EvaluationVariable =
    EVar (evType: EvaluationVariableType) (evValue: evalue) (evMethods: methods)
      (evFields: "(string \<times> EvaluationVariable) list")
and evalue =
    VString string
  | VNumber float64
  | VBool bool
  | VMap goType "(collKey \<times> EvaluationVariable) list"

datatype goPanic = TypeAssertion | UncomparableType | IndexOutOfRange | UnsupportedOperator

datatype evalError =
    ErrNotNumber | ErrNotBool | IncompatibleType
  | VariableNotFound string | FieldNotFound string | MethodNotFound string
  | MissingParameters | InvalidParametersType | InvalidArguments
  | OutOfRange int nat | NegativeRange | EmptyRange int int
  | NotANumber string | KeyNotFound collKey
  | Panic goPanic

type_synonym 'a result = "evalError + 'a"

definition bindE :: "'a result \<Rightarrow> ('a \<Rightarrow> 'b result) \<Rightarrow> 'b result" where
  "bindE m f = (case m of Inl e \<Rightarrow> Inl e | Inr a \<Rightarrow> f a)"

text \<open>Type assertions \<open>v.(T)\<close>.\<close>

fun asString :: "evalue \<Rightarrow> string result" where
  "asString (VString s) = Inr s"
| "asString _ = Inl (Panic TypeAssertion)"

fun asNumber :: "evalue \<Rightarrow> float64 result" where
  "asNumber (VNumber f) = Inr f"
| "asNumber _ = Inl (Panic TypeAssertion)"

fun asBool :: "evalue \<Rightarrow> bool result" where
  "asBool (VBool b) = Inr b"
| "asBool _ = Inl (Panic TypeAssertion)"

fun asKey :: "goType \<Rightarrow> evalue \<Rightarrow> collKey result" where
  "asKey GoFloat64 (VNumber f) = Inr (KeyNumber f)"
| "asKey GoString (VString s) = Inr (KeyString s)"
| "asKey _ _ = Inl (Panic TypeAssertion)"

fun asMap :: "goType \<Rightarrow> evalue \<Rightarrow> (collKey \<times> EvaluationVariable) list result" where
  "asMap k (VMap k' m) = (if k = k' then Inr m else Inl (Panic TypeAssertion))"
| "asMap k _ = Inl (Panic TypeAssertion)"

text \<open>A Go map, an entry per key; a NaN key equals no key, so that each assignment to it adds
  an entry that no lookup finds.\<close>

fun keyEq :: "collKey \<Rightarrow> collKey \<Rightarrow> bool" where
  "keyEq (KeyNumber a) (KeyNumber b) = floatEq a b"
| "keyEq (KeyString a) (KeyString b) = (a = b)"
| "keyEq _ _ = False"

fun mapGet :: "(collKey \<times> 'v) list \<Rightarrow> collKey \<Rightarrow> 'v option" where
  "mapGet [] k = None"
| "mapGet ((k', v) # m) k = (if keyEq k' k then Some v else mapGet m k)"

fun mapSet :: "(collKey \<times> 'v) list \<Rightarrow> collKey \<Rightarrow> 'v \<Rightarrow> (collKey \<times> 'v) list" where
  "mapSet [] k v = [(k, v)]"
| "mapSet ((k', v') # m) k v = (if keyEq k' k then (k', v) # m else (k', v') # mapSet m k v)"

definition newString :: "string \<Rightarrow> EvaluationVariable" where
  "newString val = EVar TypeString (VString val) StringMethods []"

definition newNumber :: "float64 \<Rightarrow> EvaluationVariable" where
  "newNumber val = EVar TypeNumber (VNumber val) NoMethods []"

definition newBool :: "bool \<Rightarrow> EvaluationVariable" where
  "newBool val = EVar TypeBool (VBool val) BoolMethods []"

definition newCollection :: "goType \<Rightarrow> goType \<Rightarrow> (collKey \<times> EvaluationVariable) list \<Rightarrow> EvaluationVariable" where
  "newCollection k v val = EVar TypeCollection (VMap k val) (CollectionMethods k v) []"

definition sliceToMap :: "'a list \<Rightarrow> ('a \<Rightarrow> EvaluationVariable) \<Rightarrow> (collKey \<times> EvaluationVariable) list" where
  "sliceToMap sl conv =
     map (\<lambda>(i, v). (KeyNumber (floatOfNat i), conv v)) (zip [0..<length sl] sl)"

fun typeOf :: "goType \<Rightarrow> EvaluationVariableType" where
  "typeOf GoFloat64 = TypeNumber"
| "typeOf GoString = TypeString"
| "typeOf GoAny = TypeAny"

text \<open>\<open>EvaluationVariable.Clone\<close>: the result is a zero value into which the fields, the
  methods and the value are copied; its \<open>Type\<close> stays the zero one.\<close>

definition Clone :: "EvaluationVariable \<Rightarrow> EvaluationVariable" where
  "Clone v = EVar TypeString (evValue v) (evMethods v) (evFields v)"

section \<open>strings.Split\<close>

text \<open>The number of bytes of the first rune, as \<open>utf8.DecodeRuneInString\<close> gives it; one
  for bytes that are not valid UTF-8.\<close>

definition contByte :: "nat \<Rightarrow> nat \<Rightarrow> string \<Rightarrow> nat \<Rightarrow> bool" where
  "contByte lo hi s i = (i < length s \<and> lo \<le> byte_of (s ! i) \<and> byte_of (s ! i) \<le> hi)"

definition runeSize :: "string \<Rightarrow> nat" where
  "runeSize s =
     (let b = byte_of (hd s);
          lo = (if b = 224 then 160 else if b = 240 then 144 else 128);
          hi = (if b = 237 then 159 else if b = 244 then 143 else 191)
      in if 194 \<le> b \<and> b \<le> 223 \<and> contByte 128 191 s 1 then 2
         else if 224 \<le> b \<and> b \<le> 239 \<and> contByte lo hi s 1 \<and> contByte 128 191 s 2 then 3
         else if 240 \<le> b \<and> b \<le> 244 \<and> contByte lo hi s 1 \<and> contByte 128 191 s 2
              \<and> contByte 128 191 s 3 then 4
         else 1)"

lemma runeSize_pos [simp]: "0 < runeSize s"
  by (simp add: runeSize_def Let_def)

function explode :: "string \<Rightarrow> string list" where
  "explode s = (if s = [] then [] else take (runeSize s) s # explode (drop (runeSize s) s))"
  by pat_completeness auto
termination
  by (relation "measure length") (auto simp: diff_less)

declare explode.simps [simp del]

text \<open>\<open>genSplit\<close> for a separator that is not empty; \<open>cur\<close> holds the bytes since the last
  separator.\<close>

function splitOn :: "string \<Rightarrow> string \<Rightarrow> string \<Rightarrow> string list" where
  "splitOn sep cur s =
     (if s = [] \<or> sep = [] then [cur @ s]
      else if has_prefix s sep then cur # splitOn sep [] (drop (length sep) s)
      else splitOn sep (cur @ [hd s]) (tl s))"
  by pat_completeness auto
termination
  by (relation "measure (\<lambda>(sep, cur, s). length s)") (auto simp: diff_less)

declare splitOn.simps [simp del]

definition Split :: "string \<Rightarrow> string \<Rightarrow> string list" where
  "Split s sep = (if sep = [] then explode s else splitOn sep [] s)"

section \<open>Methods\<close>

text \<open>An entry of a table of methods: the types of the parameters and the action, a function
  of the parent and the parameters. Actions read the parameters by index, after
  \<open>EvaluationMethod.Eval\<close> has checked how many there are.\<close>

record EvaluationMethod =
  ParamsType :: "EvaluationVariableType list"
  Action :: "EvaluationVariable \<Rightarrow> EvaluationVariable list \<Rightarrow> EvaluationVariable result"

definition stringGet :: "string \<Rightarrow> int \<Rightarrow> EvaluationVariable result" where
  "stringGet s k =
     (if k \<ge> int (length s) then Inl (OutOfRange k (length s))
      else if k < 0 then Inl (Panic IndexOutOfRange)
      else Inr (newString (WriteRune (s ! nat k))))"

definition stringSub :: "string \<Rightarrow> int \<Rightarrow> int \<Rightarrow> EvaluationVariable result" where
  "stringSub s k1 k2 =
     (if k1 < 0 then Inl NegativeRange
      else if k1 > k2 then Inl (EmptyRange k1 k2)
      else if k1 > int (length s) then Inr (newString [])
      else let k = min k2 (int (length s))
           in Inr (newString (take (nat (k - k1)) (drop (nat k1) s))))"

definition stringMethods :: "string \<rightharpoonup> EvaluationMethod" where
  "stringMethods name =
     (if name = ''len'' then Some \<lparr>ParamsType = [], Action = \<lambda>parent _.
        bindE (asString (evValue parent)) (\<lambda>s. Inr (newNumber (floatOfNat (length s))))\<rparr>
      else if name = ''contains'' then Some \<lparr>ParamsType = [TypeString], Action = \<lambda>parent params.
        bindE (asString (evValue parent)) (\<lambda>s.
        bindE (asString (evValue (params ! 0))) (\<lambda>t. Inr (newBool (contains s t))))\<rparr>
      else if name = ''split'' then Some \<lparr>ParamsType = [TypeString], Action = \<lambda>parent params.
        bindE (asString (evValue parent)) (\<lambda>s.
        bindE (asString (evValue (params ! 0))) (\<lambda>t.
          Inr (newCollection GoFloat64 GoString (sliceToMap (Split s t) newString))))\<rparr>
      else if name = ''get'' then Some \<lparr>ParamsType = [TypeNumber], Action = \<lambda>parent params.
        bindE (asString (evValue parent)) (\<lambda>s.
        bindE (asNumber (evValue (params ! 0))) (\<lambda>f. stringGet s (intOfFloat f)))\<rparr>
      else if name = ''sub'' then Some \<lparr>ParamsType = [TypeNumber, TypeNumber], Action = \<lambda>parent params.
        bindE (asString (evValue parent)) (\<lambda>s.
        bindE (asNumber (evValue (params ! 0))) (\<lambda>f1.
        bindE (asNumber (evValue (params ! 1))) (\<lambda>f2. stringSub s (intOfFloat f1) (intOfFloat f2))))\<rparr>
      else if name = ''number'' then Some \<lparr>ParamsType = [], Action = \<lambda>parent _.
        bindE (asString (evValue parent)) (\<lambda>s.
          case ParseFloat s of None \<Rightarrow> Inl (NotANumber s) | Some f \<Rightarrow> Inr (newNumber f))\<rparr>
      else None)"

definition boolMethods :: "string \<rightharpoonup> EvaluationMethod" where
  "boolMethods name =
     (if name = ''not'' then Some \<lparr>ParamsType = [], Action = \<lambda>parent _.
        bindE (asBool (evValue parent)) (\<lambda>b. Inr (newBool (\<not> b)))\<rparr>
      else None)"

text \<open>\<open>reflect.DeepEqual\<close> on two values.\<close>

fun DeepEqual :: "(evalue \<Rightarrow> evalue \<Rightarrow> bool) \<Rightarrow> evalue \<Rightarrow> evalue \<Rightarrow> bool" where
  "DeepEqual same (VString a) (VString b) = (a = b)"
| "DeepEqual same (VNumber a) (VNumber b) = floatEq a b"
| "DeepEqual same (VBool a) (VBool b) = (a = b)"
| "DeepEqual same (VMap k a) (VMap k' b) = (k = k' \<and> same (VMap k a) (VMap k' b))"
| "DeepEqual same _ _ = False"

definition collectionMethods ::
  "(evalue \<Rightarrow> evalue \<Rightarrow> bool) \<Rightarrow> goType \<Rightarrow> goType \<Rightarrow> string \<rightharpoonup> EvaluationMethod" where
  "collectionMethods same K V name =
     (if name = ''get'' then Some \<lparr>ParamsType = [typeOf K], Action = \<lambda>parent params.
        bindE (asKey K (evValue (params ! 0))) (\<lambda>k.
        bindE (asMap K (evValue parent)) (\<lambda>m.
          case mapGet m k of None \<Rightarrow> Inl (KeyNotFound k) | Some v \<Rightarrow> Inr v))\<rparr>
      else if name = ''len'' then Some \<lparr>ParamsType = [], Action = \<lambda>parent _.
        bindE (asMap K (evValue parent)) (\<lambda>m. Inr (newNumber (floatOfNat (length m))))\<rparr>
      else if name = ''set'' then Some \<lparr>ParamsType = [typeOf K, typeOf V], Action = \<lambda>parent params.
        bindE (asMap K (evValue (Clone parent))) (\<lambda>m.
        bindE (asKey K (evValue (params ! 0))) (\<lambda>k.
          Inr (case Clone parent of EVar t _ ms fs \<Rightarrow> EVar t (VMap K (mapSet m k (params ! 1))) ms fs)))\<rparr>
      else if name = ''has_value'' then Some \<lparr>ParamsType = [typeOf V], Action = \<lambda>parent params.
        bindE (asMap K (evValue parent)) (\<lambda>m.
          Inr (newBool (\<exists>kv \<in> set m. DeepEqual same (evValue (snd kv)) (evValue (params ! 0)))))\<rparr>
      else if name = ''has_key'' then Some \<lparr>ParamsType = [typeOf K], Action = \<lambda>parent params.
        bindE (asMap K (evValue parent)) (\<lambda>m.
        bindE (asKey K (evValue (params ! 0))) (\<lambda>k. Inr (newBool (mapGet m k \<noteq> None))))\<rparr>
      else None)"

fun methodTable :: "(evalue \<Rightarrow> evalue \<Rightarrow> bool) \<Rightarrow> methods \<Rightarrow> string \<rightharpoonup> EvaluationMethod" where
  "methodTable same NoMethods = Map.empty"
| "methodTable same StringMethods = stringMethods"
| "methodTable same BoolMethods = boolMethods"
| "methodTable same (CollectionMethods k v) = collectionMethods same k v"

text \<open>\<open>EvaluationMethod.Eval\<close>.\<close>

definition methodEval ::
  "EvaluationMethod \<Rightarrow> EvaluationVariable \<Rightarrow> EvaluationVariable list \<Rightarrow> EvaluationVariable result" where
  "methodEval m parent params =
     (if length (ParamsType m) \<noteq> length params then Inl MissingParameters
      else if \<exists>(t, v) \<in> set (zip (ParamsType m) params). t \<noteq> TypeAny \<and> t \<noteq> evType v
      then Inl InvalidParametersType
      else Action m parent params)"

section \<open>Contexts\<close>

record Rcpt =
  rcptUser :: string
  rcptDomain :: string
  rcptFolder :: string
  rcptAddress :: string

datatype ResultAction =
    ActionContinue | ActionAccept | ActionReject | ActionTempFail | ActionDiscard
  | ActionConnectionFail | ActionQuarantine

text \<open>\<open>ModifyHeader\<close> is a Go map: the copies of a \<open>Result\<close> share it. The definition of
  \<open>filterEval\<close> below says where this shows.\<close>

record Result =
  resAction :: ResultAction
  AddRecipient :: "string list"
  RemoveRecipient :: "string list"
  SenderAddress :: "Rcpt option"
  Mailbox :: "string option"
  Body :: "string option"
  ModifyHeader :: "string \<rightharpoonup> string"
  Spam :: bool

datatype EvaluationAction =
    SetResultAction ResultAction | ForwardAction | MailboxAction | SetHeaderAction | SpamAction

record EvaluationContext =
  Variables :: "string \<rightharpoonup> EvaluationVariable"
  Actions :: "string \<rightharpoonup> EvaluationAction"
  ctxResult :: Result
  Verbose :: bool
  LoggerKey :: string

definition actions :: "string \<rightharpoonup> EvaluationAction" where
  "actions =
     [''reject'' \<mapsto> SetResultAction ActionReject,
      ''accept'' \<mapsto> SetResultAction ActionAccept,
      ''temp_reject'' \<mapsto> SetResultAction ActionTempFail,
      ''discard'' \<mapsto> SetResultAction ActionDiscard,
      ''quarantine'' \<mapsto> SetResultAction ActionQuarantine,
      ''forward'' \<mapsto> ForwardAction,
      ''mailbox'' \<mapsto> MailboxAction,
      ''set_header'' \<mapsto> SetHeaderAction,
      ''spam'' \<mapsto> SpamAction]"

definition emptyResult :: Result where
  "emptyResult = \<lparr>resAction = ActionContinue, AddRecipient = [], RemoveRecipient = [],
     SenderAddress = None, Mailbox = None, Body = None, ModifyHeader = Map.empty, Spam = False\<rparr>"

definition rcptVariable :: "Rcpt \<Rightarrow> EvaluationVariable" where
  "rcptVariable rcpt =
     (case newString (rcptAddress rcpt) of EVar t v ms _ \<Rightarrow>
        EVar t v ms [(''user'', newString (rcptUser rcpt)), (''domain'', newString (rcptDomain rcpt))])"

text \<open>A header is what \<open>header.Map()\<close> of the message library returns: the values of each
  name, the names distinct.\<close>

type_synonym header = "(string \<times> string list) list"

definition headerVariable :: "header \<Rightarrow> EvaluationVariable" where
  "headerVariable hdr =
     newCollection GoString GoAny
       (map (\<lambda>(k, v). (KeyString k,
          if length v = 1 then newString (v ! 0)
          else newCollection GoFloat64 GoString (sliceToMap v newString))) hdr)"

definition InitEvalulationContext :: "string \<Rightarrow> Rcpt \<Rightarrow> Rcpt \<Rightarrow> header \<Rightarrow> string \<Rightarrow> EvaluationContext" where
  "InitEvalulationContext name frm to hdr body =
     \<lparr>Variables = [''true'' \<mapsto> newBool True, ''false'' \<mapsto> newBool False,
        ''from'' \<mapsto> rcptVariable frm, ''to'' \<mapsto> rcptVariable to,
        ''header'' \<mapsto> headerVariable hdr,
        ''body'' \<mapsto> EVar TypeString (VString body) NoMethods []],
      Actions = actions, ctxResult = emptyResult, Verbose = False, LoggerKey = name\<rparr>"

section \<open>Expressions\<close>

text \<open>\<open>a == b\<close> on two values of type \<open>any\<close>.\<close>

fun valueEq :: "evalue \<Rightarrow> evalue \<Rightarrow> bool result" where
  "valueEq (VString a) (VString b) = Inr (a = b)"
| "valueEq (VNumber a) (VNumber b) = Inr (floatEq a b)"
| "valueEq (VBool a) (VBool b) = Inr (a = b)"
| "valueEq (VMap k a) (VMap k' b) = (if k = k' then Inl (Panic UncomparableType) else Inr False)"
| "valueEq _ _ = Inr False"

definition compareNumbers ::
  "(float64 \<Rightarrow> float64 \<Rightarrow> bool) \<Rightarrow> EvaluationVariable \<Rightarrow> EvaluationVariable \<Rightarrow> EvaluationVariable result" where
  "compareNumbers cmp a b =
     (if evType a \<noteq> TypeNumber then Inl ErrNotNumber
      else bindE (asNumber (evValue a)) (\<lambda>x. bindE (asNumber (evValue b)) (\<lambda>y. Inr (newBool (cmp x y)))))"

definition operatorEval ::
  "string \<Rightarrow> EvaluationVariable \<Rightarrow> EvaluationVariable \<Rightarrow> EvaluationVariable result" where
  "operatorEval op a b =
     (if evType a \<noteq> evType b then Inl IncompatibleType
      else if op = ''='' then bindE (valueEq (evValue a) (evValue b)) (\<lambda>r. Inr (newBool r))
      else if op = ''!='' then bindE (valueEq (evValue a) (evValue b)) (\<lambda>r. Inr (newBool (\<not> r)))
      else if op = ''>='' then compareNumbers (\<lambda>x y. floatLeq y x) a b
      else if op = ''<='' then compareNumbers floatLeq a b
      else if op = ''>'' then compareNumbers (\<lambda>x y. floatLess y x) a b
      else if op = ''<'' then compareNumbers floatLess a b
      else if op = ''or'' then
        (if evType a \<noteq> TypeBool then Inl ErrNotBool
         else bindE (asBool (evValue a)) (\<lambda>x.
              if x then Inr (newBool True)
              else bindE (asBool (evValue b)) (\<lambda>y. Inr (newBool y))))
      else Inl (Panic UnsupportedOperator))"

fun exprEval :: "(evalue \<Rightarrow> evalue \<Rightarrow> bool) \<Rightarrow> EvaluationContext \<Rightarrow> expr \<Rightarrow> EvaluationVariable result"
  and evalParams :: "(evalue \<Rightarrow> evalue \<Rightarrow> bool) \<Rightarrow> EvaluationContext \<Rightarrow> expr list \<Rightarrow> EvaluationVariable list result"
where
  "exprEval same ctx (LiteralBool b) = Inr (newBool b)"
| "exprEval same ctx (LiteralNumber f) = Inr (newNumber f)"
| "exprEval same ctx (LiteralString s) = Inr (newString s)"
| "exprEval same ctx (OperatorExpression op a b) =
     bindE (exprEval same ctx a) (\<lambda>x. bindE (exprEval same ctx b) (\<lambda>y. operatorEval op x y))"
| "exprEval same ctx (Variable name) =
     (case Variables ctx name of None \<Rightarrow> Inl (VariableNotFound name) | Some v \<Rightarrow> Inr v)"
| "exprEval same ctx (Field name e) =
     bindE (exprEval same ctx e) (\<lambda>v.
       case map_of (evFields v) name of None \<Rightarrow> Inl (FieldNotFound name) | Some f \<Rightarrow> Inr f)"
| "exprEval same ctx (Method name e ps) =
     bindE (exprEval same ctx e) (\<lambda>v.
       case methodTable same (evMethods v) name of
         None \<Rightarrow> Inl (MethodNotFound name)
       | Some m \<Rightarrow> bindE (evalParams same ctx ps) (\<lambda>params. methodEval m v params))"
| "evalParams same ctx [] = Inr []"
| "evalParams same ctx (p # ps) =
     bindE (exprEval same ctx p) (\<lambda>v. bindE (evalParams same ctx ps) (\<lambda>vs. Inr (v # vs)))"

section \<open>Actions\<close>

definition setResultAction :: "ResultAction \<Rightarrow> EvaluationContext \<Rightarrow> EvaluationContext" where
  "setResultAction a ctx = ctx\<lparr>ctxResult := (ctxResult ctx)\<lparr>resAction := a\<rparr>\<rparr>"

fun runAction ::
  "EvaluationAction \<Rightarrow> EvaluationContext \<Rightarrow> EvaluationVariable list \<Rightarrow> EvaluationContext result" where
  "runAction (SetResultAction a) ctx params = Inr (setResultAction a ctx)"
| "runAction ForwardAction ctx params =
     (if length params \<noteq> 1 \<or> evType (params ! 0) \<noteq> TypeString then Inl InvalidArguments
      else bindE (asString (evValue (params ! 0))) (\<lambda>s.
        Inr (ctx\<lparr>ctxResult := (ctxResult ctx)\<lparr>AddRecipient := AddRecipient (ctxResult ctx) @ [s]\<rparr>\<rparr>)))"
| "runAction MailboxAction ctx params =
     (if length params \<noteq> 1 \<or> evType (params ! 0) \<noteq> TypeString then Inl InvalidArguments
      else bindE (asString (evValue (params ! 0))) (\<lambda>s.
        Inr (ctx\<lparr>ctxResult := (ctxResult ctx)\<lparr>Mailbox := Some s\<rparr>\<rparr>)))"
| "runAction SetHeaderAction ctx params =
     (if length params \<noteq> 2 \<or> evType (params ! 0) \<noteq> TypeString \<or> evType (params ! 1) \<noteq> TypeString
      then Inl InvalidArguments
      else bindE (asString (evValue (params ! 0))) (\<lambda>k. bindE (asString (evValue (params ! 1))) (\<lambda>v.
        Inr (ctx\<lparr>ctxResult := (ctxResult ctx)
               \<lparr>ModifyHeader := (ModifyHeader (ctxResult ctx))(k \<mapsto> v)\<rparr>\<rparr>))))"
| "runAction SpamAction ctx params =
     Inr (ctx\<lparr>ctxResult := (ctxResult ctx)
       \<lparr>Mailbox := Some ''Junk'', resAction := ActionQuarantine, Spam := True\<rparr>\<rparr>)"

section \<open>Statements\<close>

text \<open>A statement returns whether the evaluation can go on, with the context it leaves, or
  panics. An error of an expression or of an action is \<open>false\<close>.\<close>

definition orFalse :: "EvaluationContext \<Rightarrow> 'a result \<Rightarrow> ('a \<Rightarrow> goPanic + bool \<times> EvaluationContext) \<Rightarrow>
    goPanic + bool \<times> EvaluationContext" where
  "orFalse ctx r f =
     (case r of Inl (Panic p) \<Rightarrow> Inl p | Inl _ \<Rightarrow> Inr (False, ctx) | Inr a \<Rightarrow> f a)"

definition expressionStatementEval ::
  "(evalue \<Rightarrow> evalue \<Rightarrow> bool) \<Rightarrow> EvaluationContext \<Rightarrow> expr \<Rightarrow> goPanic + bool \<times> EvaluationContext" where
  "expressionStatementEval same ctx e =
     orFalse ctx (exprEval same ctx e) (\<lambda>res.
       if evType res \<noteq> TypeBool then Inr (False, ctx)
       else orFalse ctx (asBool (evValue res)) (\<lambda>val. Inr (val, ctx)))"

definition actionStatementEval ::
  "(evalue \<Rightarrow> evalue \<Rightarrow> bool) \<Rightarrow> EvaluationContext \<Rightarrow> string \<Rightarrow> expr list \<Rightarrow> goPanic + bool \<times> EvaluationContext" where
  "actionStatementEval same ctx name params =
     (case Actions ctx name of
        None \<Rightarrow> Inr (False, ctx)
      | Some a \<Rightarrow>
          orFalse ctx (evalParams same ctx params) (\<lambda>acc.
          orFalse ctx (runAction a ctx acc) (\<lambda>ctx'. Inr (True, ctx'))))"

definition letStatementEval ::
  "(evalue \<Rightarrow> evalue \<Rightarrow> bool) \<Rightarrow> EvaluationContext \<Rightarrow> string \<Rightarrow> expr \<Rightarrow> goPanic + bool \<times> EvaluationContext" where
  "letStatementEval same ctx name e =
     orFalse ctx (exprEval same ctx e) (\<lambda>cv.
       Inr (True, ctx\<lparr>Variables := (Variables ctx)(name \<mapsto> cv)\<rparr>))"

text \<open>\<open>EvaluationContext.Clone\<close> copies the maps of variables and of actions, and the \<open>Result\<close>
  with its reference to the map of headers. A sub-filter therefore changes nothing of its
  parent but that map, until it succeeds and its whole \<open>Result\<close> becomes the parent's.\<close>

definition subContext :: "EvaluationContext \<Rightarrow> string \<Rightarrow> EvaluationContext" where
  "subContext parent name = parent\<lparr>LoggerKey := LoggerKey parent @ '' > '' @ name\<rparr>"

definition leaveFilter :: "EvaluationContext \<Rightarrow> bool \<Rightarrow> EvaluationContext \<Rightarrow> EvaluationContext" where
  "leaveFilter parent prev ctx =
     (if prev then parent\<lparr>ctxResult := ctxResult ctx\<rparr>
      else parent\<lparr>ctxResult := (ctxResult parent)\<lparr>ModifyHeader := ModifyHeader (ctxResult ctx)\<rparr>\<rparr>)"

fun stmtEval :: "(evalue \<Rightarrow> evalue \<Rightarrow> bool) \<Rightarrow> EvaluationContext \<Rightarrow> stmt \<Rightarrow> goPanic + bool \<times> EvaluationContext"
  and filterLoop :: "(evalue \<Rightarrow> evalue \<Rightarrow> bool) \<Rightarrow> EvaluationContext \<Rightarrow> stmt list \<Rightarrow> goPanic + bool \<times> EvaluationContext"
where
  "stmtEval same ctx (ExpressionStatement e) = expressionStatementEval same ctx e"
| "stmtEval same ctx (ActionStatement name params) = actionStatementEval same ctx name params"
| "stmtEval same ctx (LetStatement name e) = letStatementEval same ctx name e"
| "stmtEval same ctx (Filter name body) =
     (case filterLoop same (subContext ctx name) body of
        Inl p \<Rightarrow> Inl p
      | Inr (prev, ctx') \<Rightarrow> Inr (True, leaveFilter ctx prev ctx'))"
| "filterLoop same ctx [] = Inr (True, ctx)"
| "filterLoop same ctx (st # sts) =
     (case stmtEval same ctx st of
        Inl p \<Rightarrow> Inl p
      | Inr (False, ctx') \<Rightarrow> Inr (False, ctx')
      | Inr (True, ctx') \<Rightarrow> filterLoop same ctx' sts)"

text \<open>\<open>Tree.Eval\<close>: the result, or \<open>None\<close> for \<open>(nil, false)\<close>, with the context it leaves.\<close>

fun treeEval :: "(evalue \<Rightarrow> evalue \<Rightarrow> bool) \<Rightarrow> EvaluationContext \<Rightarrow> stmt list \<Rightarrow>
    goPanic + Result option \<times> EvaluationContext" where
  "treeEval same ctx [] = Inr (Some (ctxResult ctx), ctx)"
| "treeEval same ctx (st # sts) =
     (case stmtEval same ctx st of
        Inl p \<Rightarrow> Inl p
      | Inr (False, ctx') \<Rightarrow> Inr (None, ctx')
      | Inr (True, ctx') \<Rightarrow>
          if resAction (ctxResult ctx') \<noteq> ActionContinue then Inr (Some (ctxResult ctx'), ctx')
          else treeEval same ctx' sts)"

section \<open>Well-formed values\<close>

text \<open>The methods of a value fit its dynamic type, and so does its static type, unless the
  value went through \<open>Clone\<close>: then a collection carries the type of a string. With
  \<open>strict\<close>, nothing in the value has been cloned.\<close>

fun typeFits :: "bool \<Rightarrow> EvaluationVariableType \<Rightarrow> evalue \<Rightarrow> bool" where
  "typeFits strict TypeString (VString _) = True"
| "typeFits strict TypeString (VMap _ _) = (\<not> strict)"
| "typeFits strict TypeNumber (VNumber _) = True"
| "typeFits strict TypeBool (VBool _) = True"
| "typeFits strict TypeCollection (VMap _ _) = True"
| "typeFits strict _ _ = False"

fun methodsFit :: "methods \<Rightarrow> evalue \<Rightarrow> bool" where
  "methodsFit NoMethods _ = True"
| "methodsFit StringMethods (VString _) = True"
| "methodsFit BoolMethods (VBool _) = True"
| "methodsFit (CollectionMethods k v) (VMap k' _) = (k = k' \<and> k \<noteq> GoAny)"
| "methodsFit _ _ = False"

fun evarOk :: "bool \<Rightarrow> EvaluationVariable \<Rightarrow> bool"
  and valueOk :: "bool \<Rightarrow> evalue \<Rightarrow> bool"
where
  "evarOk strict (EVar t v ms fs) =
     (typeFits strict t v \<and> methodsFit ms v \<and> valueOk strict v \<and> (\<forall>x \<in> set fs. evarOk strict (snd x)))"
| "valueOk strict (VMap k m) = (\<forall>x \<in> set m. evarOk strict (snd x))"
| "valueOk strict _ = True"

definition ctxOk :: "bool \<Rightarrow> EvaluationContext \<Rightarrow> bool" where
  "ctxOk strict ctx \<longleftrightarrow> (\<forall>name v. Variables ctx name = Some v \<longrightarrow> evarOk strict v)"

lemma evarOk_new [simp]:
  "evarOk strict (newString s)" "evarOk strict (newNumber f)" "evarOk strict (newBool b)"
  by (simp_all add: newString_def newNumber_def newBool_def)

lemma evarOk_newCollection [simp]:
  "evarOk strict (newCollection k v m) \<longleftrightarrow> k \<noteq> GoAny \<and> (\<forall>x \<in> set m. evarOk strict (snd x))"
  by (simp add: newCollection_def)

lemma evarOk_sliceToMap:
  "(\<And>x. evarOk strict (conv x)) \<Longrightarrow> y \<in> set (sliceToMap sl conv) \<Longrightarrow> evarOk strict (snd y)"
  by (auto simp: sliceToMap_def)

lemma evarOkD:
  assumes "evarOk strict v"
  shows "typeFits strict (evType v) (evValue v)" "methodsFit (evMethods v) (evValue v)"
    "valueOk strict (evValue v)" "x \<in> set (evFields v) \<Longrightarrow> evarOk strict (snd x)"
  using assms by (cases v; simp)+

text \<open>The results an operation may have: a well-formed value, or an error that is no panic
  outside \<open>ps\<close>.\<close>

definition okResult :: "goPanic set \<Rightarrow> ('a \<Rightarrow> bool) \<Rightarrow> 'a result \<Rightarrow> bool" where
  "okResult ps good r \<longleftrightarrow> (case r of Inl (Panic p) \<Rightarrow> p \<in> ps | Inl _ \<Rightarrow> True | Inr a \<Rightarrow> good a)"

lemma okResult_simps [simp]:
  "okResult ps good (Inr a) = good a"
  "okResult ps good (Inl (Panic p)) = (p \<in> ps)"
  "(\<And>p. e \<noteq> Panic p) \<Longrightarrow> okResult ps good (Inl e)"
  by (auto simp: okResult_def split: evalError.splits)

lemma okResult_bindE:
  assumes "okResult ps g m" and "\<And>a. g a \<Longrightarrow> okResult ps good (f a)"
  shows "okResult ps good (bindE m f)"
proof (cases m)
  case (Inl e)
  with assms(1) show ?thesis by (cases e) (simp_all add: bindE_def okResult_def)
next
  case (Inr a)
  with assms show ?thesis by (simp add: bindE_def)
qed

lemma bindE_simps [simp]: "bindE (Inr a) f = f a" "bindE (Inl e) f = Inl e"
  by (simp_all add: bindE_def)

text \<open>The panics that remain without \<open>set\<close>, and with it.\<close>

definition mayPanic :: "bool \<Rightarrow> goPanic set" where
  "mayPanic strict = {UncomparableType, IndexOutOfRange} \<union> (if strict then {} else {TypeAssertion})"

lemma mayPanic_simps [simp]:
  "UncomparableType \<in> mayPanic strict" "IndexOutOfRange \<in> mayPanic strict"
  "TypeAssertion \<in> mayPanic strict \<longleftrightarrow> \<not> strict" "UnsupportedOperator \<notin> mayPanic strict"
  by (auto simp: mayPanic_def)

section \<open>Methods keep values well formed\<close>

lemma typeFits_cases:
  assumes "typeFits strict t v"
  obtains (str) s where "t = TypeString" "v = VString s"
  | (num) f where "t = TypeNumber" "v = VNumber f"
  | (bool) b where "t = TypeBool" "v = VBool b"
  | (coll) k m where "t = TypeCollection" "v = VMap k m"
  | (cloned) k m where "t = TypeString" "v = VMap k m" "\<not> strict"
  using assms by (cases "(strict, t, v)" rule: typeFits.cases) auto

lemma as_ok:
  assumes "typeFits strict t v"
  shows "t = TypeString \<Longrightarrow> okResult (mayPanic strict) (\<lambda>_. True) (asString v)"
    and "t = TypeNumber \<Longrightarrow> okResult (mayPanic strict) (\<lambda>_. True) (asNumber v)"
    and "t = TypeBool \<Longrightarrow> okResult (mayPanic strict) (\<lambda>_. True) (asBool v)"
    and "t = typeOf k \<Longrightarrow> k \<noteq> GoAny \<Longrightarrow> okResult (mayPanic strict) (\<lambda>_. True) (asKey k v)"
  using assms by (cases rule: typeFits_cases; cases k; simp)+

lemma mapGet_in: "mapGet m k = Some v \<Longrightarrow> \<exists>k'. (k', v) \<in> set m"
  by (induction m k rule: mapGet.induct) (auto split: if_splits)

lemma mapSet_in: "x \<in> set (mapSet m k v) \<Longrightarrow> x \<in> set m \<or> snd x = v"
  by (induction m k v rule: mapSet.induct) (auto split: if_splits)

lemma stringGet_ok: "okResult (mayPanic strict) (evarOk strict) (stringGet s k)"
  by (simp add: stringGet_def)

lemma stringSub_ok: "okResult ps (evarOk strict) (stringSub s k1 k2)"
  by (simp add: stringSub_def Let_def)

text \<open>The parameters of a call that \<open>EvaluationMethod.Eval\<close> lets through.\<close>

definition paramsFit :: "EvaluationVariableType list \<Rightarrow> EvaluationVariable list \<Rightarrow> bool" where
  "paramsFit ts params = list_all2 (\<lambda>t v. t = TypeAny \<or> t = evType v) ts params"

lemma paramsFit_simps [simp]:
  "paramsFit [] params \<longleftrightarrow> params = []"
  "paramsFit (t # ts) params \<longleftrightarrow>
     (\<exists>v vs. params = v # vs \<and> (t = TypeAny \<or> t = evType v) \<and> paramsFit ts vs)"
  by (auto simp: paramsFit_def list_all2_Cons1)

lemma methodEval_eq:
  "methodEval m parent params =
     (if length (ParamsType m) \<noteq> length params then Inl MissingParameters
      else if \<not> paramsFit (ParamsType m) params then Inl InvalidParametersType
      else Action m parent params)"
  by (auto simp: methodEval_def paramsFit_def list_all2_iff)

lemma as_param:
  assumes "evarOk strict v"
  shows "TypeString = evType v \<Longrightarrow> okResult (mayPanic strict) (\<lambda>_. True) (asString (evValue v))"
    and "TypeNumber = evType v \<Longrightarrow> okResult (mayPanic strict) (\<lambda>_. True) (asNumber (evValue v))"
    and "typeOf k = evType v \<Longrightarrow> k \<noteq> GoAny \<Longrightarrow> okResult (mayPanic strict) (\<lambda>_. True) (asKey k (evValue v))"
  using as_ok [OF evarOkD(1) [OF assms]] by simp_all

lemma typeOf_Any [simp]: "typeOf k = TypeAny \<longleftrightarrow> k = GoAny"
  by (cases k) simp_all

lemma stringMethods_ok:
  assumes "stringMethods name = Some m" and "evValue parent = VString s"
    and "\<forall>v \<in> set params. evarOk strict v" and "paramsFit (ParamsType m) params"
  shows "okResult (mayPanic strict) (evarOk strict) (Action m parent params)"
  using assms unfolding stringMethods_def
  by (auto split: if_splits option.splits intro!: okResult_bindE [OF as_param(1)] okResult_bindE [OF as_param(2)]
      stringGet_ok stringSub_ok elim!: evarOk_sliceToMap [rotated])

lemma boolMethods_ok:
  assumes "boolMethods name = Some m" and "evValue parent = VBool b"
  shows "okResult (mayPanic strict) (evarOk strict) (Action m parent params)"
  using assms unfolding boolMethods_def by (auto split: if_splits)

lemma collectionMethods_ok:
  assumes "collectionMethods same k t name = Some m" and "evValue parent = VMap k es" and "k \<noteq> GoAny"
    and "strict \<longrightarrow> name \<noteq> ''set''" and "evarOk strict parent"
    and "\<forall>v \<in> set params. evarOk strict v" and "paramsFit (ParamsType m) params"
  shows "okResult (mayPanic strict) (evarOk strict) (Action m parent params)"
proof -
  have es: "\<forall>x \<in> set es. evarOk strict (snd x)" and fs: "\<forall>x \<in> set (evFields parent). evarOk strict (snd x)"
    using evarOkD(3,4) [OF assms(5)] assms(2) by auto
  have ms: "methodsFit (evMethods parent) (VMap k es)"
    using evarOkD(2) [OF assms(5)] assms(2) by simp
  then have ms': "methodsFit (evMethods parent) (VMap k es')" for es'
    by (cases "evMethods parent") auto
  have get: "evarOk strict v" if "mapGet es key = Some v" for key v
    using mapGet_in [OF that] es by auto
  have set: "evarOk False (EVar TypeString (VMap k (mapSet es key v)) (evMethods parent) (evFields parent))"
    if "\<not> strict" "evarOk False v" for key v
    using mapSet_in [of _ es key v] that es fs ms' by auto
  show ?thesis
    using assms(1,2,3,4,6,7) unfolding collectionMethods_def
    by (auto split: if_splits option.splits intro!: okResult_bindE [OF as_param(3)] set
        simp: Clone_def get simp del: evarOk.simps)
qed

lemma methodEval_ok:
  assumes "methodTable same (evMethods parent) name = Some m" and "evarOk strict parent"
    and "strict \<longrightarrow> name \<noteq> ''set''" and "\<forall>v \<in> set params. evarOk strict v"
  shows "okResult (mayPanic strict) (evarOk strict) (methodEval m parent params)"
proof (cases "paramsFit (ParamsType m) params")
  case True
  have "methodsFit (evMethods parent) (evValue parent)" by (rule evarOkD(2) [OF assms(2)])
  then have "okResult (mayPanic strict) (evarOk strict) (Action m parent params)"
    using assms True
    by (cases "(evMethods parent, evValue parent)" rule: methodsFit.cases)
      (auto intro: stringMethods_ok boolMethods_ok collectionMethods_ok)
  then show ?thesis by (simp add: methodEval_eq)
qed (simp add: methodEval_eq)

section \<open>Evaluation is safe\<close>

text \<open>The expressions that never call \<open>set\<close>.\<close>

fun noSet :: "expr \<Rightarrow> bool" where
  "noSet (OperatorExpression op a b) = (noSet a \<and> noSet b)"
| "noSet (Field name e) = noSet e"
| "noSet (Method name e ps) = (name \<noteq> ''set'' \<and> noSet e \<and> (\<forall>q \<in> set ps. noSet q))"
| "noSet _ = True"

lemma as_operand:
  assumes "evarOk strict v"
  shows "evType v = TypeNumber \<Longrightarrow> \<exists>f. evValue v = VNumber f"
    and "evType v = TypeBool \<Longrightarrow> \<exists>b. evValue v = VBool b"
  using evarOkD(1) [OF assms] by (cases rule: typeFits_cases; simp)+

lemma compareNumbers_ok:
  assumes "evarOk strict a" and "evarOk strict b" and "evType a = evType b"
  shows "okResult (mayPanic strict) (evarOk strict) (compareNumbers cmp a b)"
  using as_operand(1) [OF assms(1)] as_operand(1) [OF assms(2)] assms(3)
  by (auto simp: compareNumbers_def)

lemma operatorEval_ok:
  assumes "evarOk strict a" and "evarOk strict b" and "op \<in> set (validOps @ [''or''])"
  shows "okResult (mayPanic strict) (evarOk strict) (operatorEval op a b)"
proof (cases "evType a = evType b")
  case True
  have "okResult (mayPanic strict) (\<lambda>_. True) (valueEq (evValue a) (evValue b))"
    by (cases "(evValue a, evValue b)" rule: valueEq.cases) simp_all
  then have "okResult (mayPanic strict) (evarOk strict) (bindE (valueEq (evValue a) (evValue b)) (\<lambda>r. Inr (newBool (f r))))" for f
    by (rule okResult_bindE) simp
  moreover note compareNumbers_ok [OF assms(1,2) True] as_operand(2) [OF assms(1)] as_operand(2) [OF assms(2)]
  ultimately show ?thesis
    using True assms(3) by (auto simp: operatorEval_def validOps_def)
qed (simp add: operatorEval_def)

lemma field_ok: "evarOk strict v \<Longrightarrow> map_of (evFields v) name = Some f \<Longrightarrow> evarOk strict f"
  using evarOkD(4) [of strict v "(name, f)"] by (simp add: map_of_SomeD)

lemma exprEval_ok:
  shows "ctxOk strict ctx \<Longrightarrow> exprOk e \<Longrightarrow> (strict \<Longrightarrow> noSet e) \<Longrightarrow>
      okResult (mayPanic strict) (evarOk strict) (exprEval same ctx e)"
    and "ctxOk strict ctx \<Longrightarrow> \<forall>q \<in> set ps. exprOk q \<Longrightarrow> (strict \<Longrightarrow> \<forall>q \<in> set ps. noSet q) \<Longrightarrow>
      okResult (mayPanic strict) (\<lambda>vs. \<forall>v \<in> set vs. evarOk strict v) (evalParams same ctx ps)"
proof (induction same ctx e and same ctx ps rule: exprEval_evalParams.induct)
  case (4 same ctx op a b)
  show ?case unfolding exprEval.simps
    by (rule okResult_bindE [where g = "evarOk strict"], use 4 in simp,
        rule okResult_bindE [where g = "evarOk strict"], use 4 in simp, rule operatorEval_ok)
      (use 4 in simp_all)
next
  case (5 same ctx name)
  then show ?case by (auto simp: ctxOk_def split: option.splits)
next
  case (6 same ctx name e)
  show ?case unfolding exprEval.simps
    by (rule okResult_bindE [where g = "evarOk strict"], use 6 in simp)
      (auto split: option.splits intro: field_ok)
next
  case (7 same ctx name e ps)
  have "okResult (mayPanic strict) (evarOk strict) (exprEval same ctx e)"
    using 7 by simp
  then show ?case unfolding exprEval.simps
  proof (rule okResult_bindE)
    fix v assume v: "evarOk strict v"
    show "okResult (mayPanic strict) (evarOk strict)
      (case methodTable same (evMethods v) name of None \<Rightarrow> Inl (MethodNotFound name)
       | Some m \<Rightarrow> bindE (evalParams same ctx ps) (methodEval m v))"
    proof (cases "methodTable same (evMethods v) name")
      case (Some m)
      have "okResult (mayPanic strict) (\<lambda>vs. \<forall>v \<in> set vs. evarOk strict v) (evalParams same ctx ps)"
        using 7 Some by simp
      then have "okResult (mayPanic strict) (evarOk strict) (bindE (evalParams same ctx ps) (methodEval m v))"
        by (rule okResult_bindE) (use methodEval_ok [OF Some v] 7(5) in auto)
      with Some show ?thesis by simp
    qed simp
  qed
next
  case (9 same ctx p ps)
  show ?case unfolding evalParams.simps
    by (rule okResult_bindE [where g = "evarOk strict"], use 9 in simp,
        rule okResult_bindE [where g = "\<lambda>vs. \<forall>v \<in> set vs. evarOk strict v"], use 9 in simp)
      (use 9 in simp)
qed simp_all

fun noSetStmt :: "stmt \<Rightarrow> bool" where
  "noSetStmt (ExpressionStatement e) = noSet e"
| "noSetStmt (ActionStatement name ps) = (\<forall>q \<in> set ps. noSet q)"
| "noSetStmt (LetStatement name e) = noSet e"
| "noSetStmt (Filter name body) = (\<forall>st \<in> set body. noSetStmt st)"

section \<open>What a statement may change\<close>

text \<open>The relation between the result a statement starts from and the one it leaves: it keeps
  the recipients, only adds to them and to the changed headers, never goes back from an
  action to none, and marks as spam only with an action.\<close>

definition resultGrows :: "Result \<Rightarrow> Result \<Rightarrow> bool" where
  "resultGrows r r' \<longleftrightarrow>
     (\<exists>add. AddRecipient r' = AddRecipient r @ add) \<and>
     RemoveRecipient r' = RemoveRecipient r \<and> SenderAddress r' = SenderAddress r \<and> Body r' = Body r \<and>
     dom (ModifyHeader r) \<subseteq> dom (ModifyHeader r') \<and>
     (Mailbox r \<noteq> None \<longrightarrow> Mailbox r' \<noteq> None) \<and>
     (resAction r \<noteq> ActionContinue \<longrightarrow> resAction r' \<noteq> ActionContinue) \<and>
     (Spam r \<longrightarrow> Spam r') \<and> (Spam r' \<longrightarrow> Spam r \<or> resAction r' \<noteq> ActionContinue)"

lemma resultGrows_refl [simp]: "resultGrows r r"
  by (simp add: resultGrows_def)

lemma resultGrows_trans: "resultGrows r s \<Longrightarrow> resultGrows s t \<Longrightarrow> resultGrows r t"
  unfolding resultGrows_def by auto

lemma resultGrows_headers:
  "dom (ModifyHeader r) \<subseteq> dom h \<Longrightarrow> resultGrows r (r\<lparr>ModifyHeader := h\<rparr>)"
  by (simp add: resultGrows_def)

text \<open>The contract every statement fulfils, over the well-formedness of the values \<open>strict\<close>:
  it panics only where \<open>mayPanic\<close> allows it, keeps the variables well formed, and changes
  of the context only the variables and the result, which grows.\<close>

definition ctxGrows :: "bool \<Rightarrow> EvaluationContext \<Rightarrow> EvaluationContext \<Rightarrow> bool" where
  "ctxGrows strict ctx ctx' \<longleftrightarrow>
     ctxOk strict ctx' \<and> Actions ctx' = Actions ctx \<and> Verbose ctx' = Verbose ctx \<and>
     LoggerKey ctx' = LoggerKey ctx \<and> resultGrows (ctxResult ctx) (ctxResult ctx')"

definition stmtFine :: "bool \<Rightarrow> EvaluationContext \<Rightarrow> goPanic + bool \<times> EvaluationContext \<Rightarrow> bool" where
  "stmtFine strict ctx r \<longleftrightarrow>
     (case r of Inl p \<Rightarrow> p \<in> mayPanic strict | Inr (_, ctx') \<Rightarrow> ctxGrows strict ctx ctx')"

lemma ctxGrows_refl: "ctxOk strict ctx \<Longrightarrow> ctxGrows strict ctx ctx"
  by (simp add: ctxGrows_def)

lemma stmtFine_here [simp]: "ctxOk strict ctx \<Longrightarrow> stmtFine strict ctx (Inr (b, ctx))"
  by (simp add: stmtFine_def ctxGrows_refl)

lemma ctxGrows_trans: "ctxGrows strict a b \<Longrightarrow> ctxGrows strict b c \<Longrightarrow> ctxGrows strict a c"
  by (auto simp: ctxGrows_def intro: resultGrows_trans)

lemma stmtFine_orFalse:
  assumes "okResult (mayPanic strict) g r" and "ctxOk strict ctx"
    and "\<And>a. g a \<Longrightarrow> stmtFine strict ctx (f a)"
  shows "stmtFine strict ctx (orFalse ctx r f)"
proof (cases r)
  case (Inl e)
  with assms(1,2) show ?thesis
    by (cases e) (simp_all add: orFalse_def stmtFine_def ctxGrows_refl)
next
  case (Inr a)
  with assms show ?thesis by (simp add: orFalse_def)
qed

text \<open>The actions of the table never set \<open>ActionContinue\<close>.\<close>

definition actionsOk :: "EvaluationContext \<Rightarrow> bool" where
  "actionsOk ctx \<longleftrightarrow> (\<forall>name. Actions ctx name \<noteq> Some (SetResultAction ActionContinue))"

lemma actions_ok: "actions name \<noteq> Some (SetResultAction ActionContinue)"
  by (auto simp: actions_def)

lemma ctxOk_result [simp]: "ctxOk strict (ctx\<lparr>ctxResult := r\<rparr>) = ctxOk strict ctx"
  by (simp add: ctxOk_def)

lemma runAction_ok:
  assumes "a \<noteq> SetResultAction ActionContinue" and "ctxOk strict ctx" and "\<forall>v \<in> set params. evarOk strict v"
  shows "okResult (mayPanic strict) (ctxGrows strict ctx) (runAction a ctx params)"
proof -
  have str: "okResult (mayPanic strict) (\<lambda>_. True) (asString (evValue (params ! i)))"
    if "i < length params" "evType (params ! i) = TypeString" for i
    using as_param(1) [of strict "params ! i"] that assms(3) by auto
  show ?thesis
    using assms(1,2)
    by (cases a) (auto simp: setResultAction_def ctxGrows_def resultGrows_def
        intro!: okResult_bindE [OF str])
qed

lemma expressionStatementEval_fine:
  assumes "ctxOk strict ctx" and "exprOk e" and "strict \<longrightarrow> noSet e"
  shows "stmtFine strict ctx (expressionStatementEval same ctx e)"
  unfolding expressionStatementEval_def
proof (rule stmtFine_orFalse [OF exprEval_ok(1) assms(1)])
  fix res
  assume res: "evarOk strict res"
  show "stmtFine strict ctx (if evType res \<noteq> TypeBool then Inr (False, ctx)
      else orFalse ctx (asBool (evValue res)) (\<lambda>val. Inr (val, ctx)))"
    using as_operand(2) [OF res] assms(1)
    by (auto simp: stmtFine_def ctxGrows_refl orFalse_def)
qed (use assms in auto)

lemma letStatementEval_fine:
  assumes "ctxOk strict ctx" and "exprOk e" and "strict \<longrightarrow> noSet e"
  shows "stmtFine strict ctx (letStatementEval same ctx name e)"
  unfolding letStatementEval_def
  by (rule stmtFine_orFalse [OF exprEval_ok(1) assms(1)])
    (use assms in \<open>auto simp: stmtFine_def ctxGrows_def ctxOk_def\<close>)

lemma actionStatementEval_fine:
  assumes "ctxOk strict ctx" and "actionsOk ctx" and "\<forall>q \<in> set ps. exprOk q"
    and "strict \<longrightarrow> (\<forall>q \<in> set ps. noSet q)"
  shows "stmtFine strict ctx (actionStatementEval same ctx name ps)"
proof (cases "Actions ctx name")
  case (Some a)
  then have a: "a \<noteq> SetResultAction ActionContinue" using assms(2) by (auto simp: actionsOk_def)
  have "stmtFine strict ctx (orFalse ctx (runAction a ctx acc) (\<lambda>ctx'. Inr (True, ctx')))"
    if "\<forall>v \<in> set acc. evarOk strict v" for acc
    by (rule stmtFine_orFalse [OF runAction_ok [OF a assms(1) that] assms(1)]) (simp add: stmtFine_def)
  then have "stmtFine strict ctx (orFalse ctx (evalParams same ctx ps) (\<lambda>acc.
      orFalse ctx (runAction a ctx acc) (\<lambda>ctx'. Inr (True, ctx'))))"
    using assms by (intro stmtFine_orFalse [OF exprEval_ok(2)]) auto
  with Some show ?thesis by (simp add: actionStatementEval_def)
qed (simp add: actionStatementEval_def stmtFine_def ctxGrows_refl assms(1))

lemma subContext_ok [simp]:
  "ctxOk strict (subContext ctx name) = ctxOk strict ctx" "actionsOk (subContext ctx name) = actionsOk ctx"
  by (simp_all add: subContext_def ctxOk_def actionsOk_def)

lemma actionsOk_grows: "ctxGrows strict ctx ctx' \<Longrightarrow> actionsOk ctx \<Longrightarrow> actionsOk ctx'"
  by (simp add: ctxGrows_def actionsOk_def)

lemma leaveFilter_grows:
  assumes "ctxGrows strict (subContext ctx name) ctx'" and "ctxOk strict ctx"
  shows "ctxGrows strict ctx (leaveFilter ctx prev ctx')"
  using assms resultGrows_headers [of "ctxResult ctx" "ModifyHeader (ctxResult ctx')"]
  by (auto simp: leaveFilter_def ctxGrows_def subContext_def resultGrows_def)

lemma stmtFine_seq:
  assumes "stmtFine strict ctx r"
    and "\<And>ctx'. r = Inr (True, ctx') \<Longrightarrow> ctxGrows strict ctx ctx' \<Longrightarrow> stmtFine strict ctx' (f ctx')"
  shows "stmtFine strict ctx
    (case r of Inl p \<Rightarrow> Inl p | Inr (False, ctx') \<Rightarrow> Inr (False, ctx') | Inr (True, ctx') \<Rightarrow> f ctx')"
proof (cases r)
  case (Inr res)
  obtain ok ctx' where res: "res = (ok, ctx')" by (cases res)
  with Inr assms(1) have g: "ctxGrows strict ctx ctx'" by (simp add: stmtFine_def)
  show ?thesis
    using Inr res g assms(2) [OF _ g]
    by (cases ok) (auto simp: stmtFine_def split: sum.splits intro: ctxGrows_trans)
qed (use assms(1) in \<open>simp add: stmtFine_def\<close>)

lemma stmtEval_fine:
  shows "ctxOk strict ctx \<Longrightarrow> actionsOk ctx \<Longrightarrow> stmtOk st \<Longrightarrow> (strict \<Longrightarrow> noSetStmt st) \<Longrightarrow>
      stmtFine strict ctx (stmtEval same ctx st)"
    and "ctxOk strict ctx \<Longrightarrow> actionsOk ctx \<Longrightarrow> \<forall>st \<in> set sts. stmtOk st \<Longrightarrow>
      (strict \<Longrightarrow> \<forall>st \<in> set sts. noSetStmt st) \<Longrightarrow> stmtFine strict ctx (filterLoop same ctx sts)"
proof (induction same ctx st and same ctx sts rule: stmtEval_filterLoop.induct)
  case (4 same ctx name body)
  then have "stmtFine strict (subContext ctx name) (filterLoop same (subContext ctx name) body)"
    by simp
  then show ?case
    using leaveFilter_grows [OF _ 4(2)]
    by (auto simp: stmtFine_def split: sum.splits)
next
  case (6 same ctx st sts)
  show ?case unfolding filterLoop.simps
  proof (rule stmtFine_seq)
    show "stmtFine strict ctx (stmtEval same ctx st)" using 6 by simp
    fix ctx'
    assume r: "stmtEval same ctx st = Inr (True, ctx')" and g: "ctxGrows strict ctx ctx'"
    have "ctxOk strict ctx'" using g by (simp add: ctxGrows_def)
    then show "stmtFine strict ctx' (filterLoop same ctx' sts)"
      using 6(2) [OF r] 6(4-6) actionsOk_grows [OF g] by simp
  qed
qed (simp_all add: expressionStatementEval_fine actionStatementEval_fine letStatementEval_fine)

section \<open>Whole filters\<close>

lemma treeEval_fine:
  assumes "ctxOk strict ctx" and "actionsOk ctx" and "\<forall>st \<in> set sts. stmtOk st"
    and "strict \<Longrightarrow> \<forall>st \<in> set sts. noSetStmt st"
  shows "case treeEval same ctx sts of
      Inl p \<Rightarrow> p \<in> mayPanic strict
    | Inr (res, ctx') \<Rightarrow> ctxGrows strict ctx ctx' \<and> (res = None \<or> res = Some (ctxResult ctx'))"
  using assms
proof (induction same ctx sts rule: treeEval.induct)
  case (1 same ctx)
  then show ?case by (simp add: ctxGrows_refl)
next
  case (2 same ctx st sts)
  have fine: "stmtFine strict ctx (stmtEval same ctx st)"
    using 2 by (intro stmtEval_fine(1)) auto
  show ?case
  proof (cases "stmtEval same ctx st")
    case (Inl p)
    with fine show ?thesis by (simp add: stmtFine_def)
  next
    case (Inr res)
    obtain ok ctx' where res: "res = (ok, ctx')" by (cases res)
    with fine Inr have g: "ctxGrows strict ctx ctx'" by (simp add: stmtFine_def)
    show ?thesis
    proof (cases "ok \<and> resAction (ctxResult ctx') = ActionContinue")
      case True
      have "ctxOk strict ctx'" using g by (simp add: ctxGrows_def)
      then have "case treeEval same ctx' sts of
          Inl p \<Rightarrow> p \<in> mayPanic strict
        | Inr (res, c) \<Rightarrow> ctxGrows strict ctx' c \<and> (res = None \<or> res = Some (ctxResult c))"
        using True res by (intro 2(1) [OF Inr] actionsOk_grows [OF g 2(3)]) (simp_all add: 2(4,5))
      moreover have "treeEval same ctx (st # sts) = treeEval same ctx' sts" using Inr res True by simp
      ultimately show ?thesis
        by (cases "treeEval same ctx' sts") (auto intro: ctxGrows_trans [OF g])
    next
      case False
      with Inr res g show ?thesis by (cases ok) simp_all
    qed
  qed
qed

lemma evarOk_headerVariable [simp]: "evarOk strict (headerVariable hdr)"
  using evarOk_sliceToMap [OF evarOk_new(1)] by (fastforce simp: headerVariable_def)

lemma evarOk_rcptVariable [simp]: "evarOk strict (rcptVariable rcpt)"
  by (simp add: rcptVariable_def newString_def)

lemma Init_ok:
  "ctxOk strict (InitEvalulationContext name frm to hdr body)"
  "actionsOk (InitEvalulationContext name frm to hdr body)"
  by (auto simp: InitEvalulationContext_def ctxOk_def actionsOk_def actions_ok)

lemma Parse_stmtOk: "Parse src = Some (ss, err) \<Longrightarrow> \<forall>st \<in> set ss. stmtOk st"
  by (metis Parse_cases option.inject prod.inject)

lemma run_fine:
  assumes "Parse src = Some (ss, err)" and "strict \<Longrightarrow> \<forall>st \<in> set ss. noSetStmt st"
  shows "case treeEval same (InitEvalulationContext name frm to hdr body) ss of
      Inl p \<Rightarrow> p \<in> mayPanic strict
    | Inr (res, ctx') \<Rightarrow> ctxGrows strict (InitEvalulationContext name frm to hdr body) ctx'
        \<and> (res = None \<or> res = Some (ctxResult ctx'))"
  by (rule treeEval_fine [OF Init_ok Parse_stmtOk [OF assms(1)] assms(2)])

lemma treeEval_append:
  "treeEval same ctx (pre @ post) =
     (case treeEval same ctx pre of
        Inr (Some r, ctx') \<Rightarrow>
          if pre \<noteq> [] \<and> resAction r \<noteq> ActionContinue then Inr (Some r, ctx')
          else treeEval same ctx' post
      | r \<Rightarrow> r)"
  by (induction same ctx pre rule: treeEval.induct)
    (auto split: sum.splits bool.splits option.splits prod.splits)

section \<open>Splitting and joining\<close>

fun joinWith :: "string \<Rightarrow> string list \<Rightarrow> string" where
  "joinWith sep [] = []"
| "joinWith sep [x] = x"
| "joinWith sep (x # y # xs) = x @ sep @ joinWith sep (y # xs)"

lemma joinWith_Cons: "xs \<noteq> [] \<Longrightarrow> joinWith sep (x # xs) = x @ sep @ joinWith sep xs"
  by (cases xs) simp_all

lemma splitOn_Nil [simp]: "splitOn sep cur [] = [cur]"
  by (simp add: splitOn.simps)

lemma splitOn_hit:
  "sep \<noteq> [] \<Longrightarrow> splitOn sep cur (sep @ t) = cur # splitOn sep [] t"
  by (subst splitOn.simps) (simp add: has_prefix_iff)

lemma splitOn_not_Nil [simp]: "splitOn sep cur s \<noteq> []"
  by (induction sep cur s rule: splitOn.induct) (subst splitOn.simps, simp)

lemma joinWith_splitOn: "sep \<noteq> [] \<Longrightarrow> joinWith sep (splitOn sep cur s) = cur @ s"
proof (induction sep cur s rule: splitOn.induct)
  case (1 sep cur s)
  show ?case
  proof (cases "s = []")
    case True
    then show ?thesis by (simp add: splitOn.simps)
  next
    case s: False
    show ?thesis
    proof (cases "has_prefix s sep")
      case True
      then obtain t where "s = sep @ t" by (auto simp: has_prefix_iff)
      with 1(1) s True 1(3) show ?thesis
        by (simp add: splitOn_hit joinWith_Cons)
    next
      case False
      with 1(2) s 1(3) show ?thesis by (simp add: splitOn.simps [of sep cur s])
    qed
  qed
qed

lemma concat_explode: "concat (explode s) = s"
  by (induction s rule: explode.induct) (subst explode.simps, simp)

text \<open>No occurrence of the separator starts in the bytes already scanned.\<close>

definition scanned :: "string \<Rightarrow> string \<Rightarrow> string \<Rightarrow> bool" where
  "scanned sep cur s \<longleftrightarrow> (\<forall>i < length cur. \<not> has_prefix (drop i cur @ s) sep)"

lemma scanned_no_sep:
  assumes "scanned sep cur s" and "sep \<noteq> []"
  shows "\<not> contains cur sep"
proof
  assume "contains cur sep"
  then obtain a b where cur: "cur = a @ sep @ b" by (auto simp: contains_iff)
  then have "length a < length cur" using assms(2) by simp
  moreover have "has_prefix (drop (length a) cur @ s) sep" using cur by (simp add: has_prefix_iff)
  ultimately show False using assms(1) by (auto simp: scanned_def)
qed

lemma scanned_step:
  assumes "scanned sep cur s" and "\<not> has_prefix s sep" and "s \<noteq> []"
  shows "scanned sep (cur @ [hd s]) (tl s)"
  unfolding scanned_def
proof (intro allI impI)
  fix i
  assume "i < length (cur @ [hd s])"
  then consider "i < length cur" | "i = length cur" by force
  then show "\<not> has_prefix (drop i (cur @ [hd s]) @ tl s) sep"
    by cases (use assms in \<open>auto simp: scanned_def\<close>)
qed

lemma splitOn_no_sep:
  "sep \<noteq> [] \<Longrightarrow> scanned sep cur s \<Longrightarrow> p \<in> set (splitOn sep cur s) \<Longrightarrow> \<not> contains p sep"
proof (induction sep cur s rule: splitOn.induct)
  case (1 sep cur s)
  show ?case
  proof (cases "s = []")
    case True
    with 1 scanned_no_sep show ?thesis by simp
  next
    case s: False
    show ?thesis
    proof (cases "has_prefix s sep")
      case True
      have "scanned sep [] (drop (length sep) s)" by (simp add: scanned_def)
      with 1 s True scanned_no_sep show ?thesis
        by (auto simp: splitOn.simps [of sep cur s])
    next
      case False
      with 1 s scanned_step show ?thesis by (simp add: splitOn.simps [of sep cur s])
    qed
  qed
qed

section \<open>Collections\<close>

lemma keyEq_refl: "(k \<noteq> KeyNumber F_NaN) = keyEq k k"
proof (cases k)
  case (KeyNumber f)
  then show ?thesis by (cases f) simp_all
qed simp

lemma floatEqD: "floatEq a b \<Longrightarrow> a = b \<and> a \<noteq> F_NaN"
  by (cases "(a, b)" rule: floatEq.cases) auto

lemma keyEqD: "keyEq a b \<Longrightarrow> a = b"
  by (cases "(a, b)" rule: keyEq.cases) (auto dest: floatEqD)

lemma mapGet_mapSet:
  "keyEq k k \<Longrightarrow> mapGet (mapSet m k v) k' = (if keyEq k k' then Some v else mapGet m k')"
  by (induction m k v rule: mapSet.induct) (auto dest: keyEqD)

section \<open>Properties\<close>

text \<open>C29: running a parsed filter on a mail never reaches the panic of an unknown operator,
  and never fails a type assertion unless the filter calls the method \<open>set\<close>. What is left
  is the comparison of two collections and the negative index of \<open>get\<close>.\<close>

theorem filter_panics:
  assumes "Parse src = Some (ss, err)"
    and "treeEval same (InitEvalulationContext name frm to hdr body) ss = Inl p"
  shows "p \<noteq> UnsupportedOperator \<and> (p = TypeAssertion \<longrightarrow> \<not> list_all noSetStmt ss)"
proof -
  have "p \<in> mayPanic False" using run_fine [where strict = False, OF assms(1), of name frm to hdr body same] assms(2) by simp
  moreover have "p \<in> mayPanic True" if "list_all noSetStmt ss"
    using run_fine [where strict = True, OF assms(1), of name frm to hdr body same] assms(2) that
    by (simp add: list_all_iff)
  ultimately show ?thesis by auto
qed

definition nobody :: Rcpt where
  "nobody = \<lparr>rcptUser = [], rcptDomain = [], rcptFolder = [], rcptAddress = []\<rparr>"

theorem filter_panics_witness:
  "UncomparableType \<noteq> UnsupportedOperator \<and>
   treeEval (\<lambda>_ _. False) (InitEvalulationContext [] nobody nobody [] [])
     (fst (the (Parse ''header = header''))) = Inl UncomparableType"
proof -
  have p: "Parse ''header = header'' =
      Some ([ExpressionStatement (OperatorExpression ''='' (Variable ''header'') (Variable ''header''))], None)"
    by code_simp
  have e: "treeEval (\<lambda>_ _. False) (InitEvalulationContext [] nobody nobody [] [])
      [ExpressionStatement (OperatorExpression ''='' (Variable ''header'') (Variable ''header''))]
      = Inl UncomparableType"
    by (simp add: InitEvalulationContext_def expressionStatementEval_def orFalse_def operatorEval_def
        headerVariable_def newCollection_def)
  show ?thesis using filter_panics [OF p e] p e by simp
qed

text \<open>C30: the result of a filter that ran to its end: it adds recipients and headers, but never
  removes a recipient, changes the sender or replaces the body, and a mail marked as spam
  always carries an action.\<close>

theorem filter_result:
  assumes "Parse src = Some (ss, err)"
    and "treeEval same (InitEvalulationContext name frm to hdr body) ss = Inr (Some r, ctx)"
  shows "RemoveRecipient r = [] \<and> SenderAddress r = None \<and> Body r = None \<and>
    (Spam r \<longrightarrow> resAction r \<noteq> ActionContinue)"
proof -
  have "ctxGrows False (InitEvalulationContext name frm to hdr body) ctx \<and> r = ctxResult ctx"
    using run_fine [where strict = False, OF assms(1), of name frm to hdr body same] assms(2) by simp
  then show ?thesis
    by (simp add: ctxGrows_def resultGrows_def InitEvalulationContext_def emptyResult_def)
qed

theorem filter_result_witness:
  "\<exists>r ctx. treeEval (\<lambda>_ _. False) (InitEvalulationContext [] nobody nobody [] [])
     (fst (the (Parse ''do spam()''))) = Inr (Some r, ctx) \<and> Spam r \<and> resAction r \<noteq> ActionContinue"
proof -
  have p: "Parse ''do spam()'' = Some ([ActionStatement ''spam'' []], None)" by code_simp
  have "\<exists>r ctx. treeEval (\<lambda>_ _. False) (InitEvalulationContext [] nobody nobody [] [])
      [ActionStatement ''spam'' []] = Inr (Some r, ctx) \<and> Spam r"
    by (simp add: InitEvalulationContext_def actionStatementEval_def orFalse_def actions_def)
  with filter_result [OF p] p show ?thesis by auto
qed

text \<open>a sub-filter never stops its parent and hands nothing back but its result, and that
  only when all its statements succeeded; when one failed, the parent keeps its own result
  up to the map of headers, which it shares with the sub-filter.\<close>

theorem subfilter_isolated:
  assumes "stmtEval same ctx (Filter name body) = Inr (ok, ctx')"
  shows "ok \<and> Variables ctx' = Variables ctx \<and> Actions ctx' = Actions ctx \<and> LoggerKey ctx' = LoggerKey ctx \<and>
    (\<exists>prev sub. filterLoop same (subContext ctx name) body = Inr (prev, sub) \<and>
       (prev \<longrightarrow> ctxResult ctx' = ctxResult sub) \<and>
       (\<not> prev \<longrightarrow> ctxResult ctx' = (ctxResult ctx)\<lparr>ModifyHeader := ModifyHeader (ctxResult sub)\<rparr>))"
  using assms by (auto simp: leaveFilter_def split: sum.splits if_splits)

theorem subfilter_isolated_witness:
  "\<exists>ctx'. stmtEval (\<lambda>_ _. False) (InitEvalulationContext [] nobody nobody [] [])
     (Filter ''f'' [ActionStatement ''reject'' [], ExpressionStatement (Variable ''false'')]) = Inr (True, ctx')
   \<and> resAction (ctxResult ctx') = ActionContinue
   \<and> Variables ctx' = Variables (InitEvalulationContext [] nobody nobody [] [])"
proof -
  let ?ctx = "InitEvalulationContext [] nobody nobody [] []"
  let ?f = "Filter ''f'' [ActionStatement ''reject'' [], ExpressionStatement (Variable ''false'')]"
  obtain ctx' where c: "stmtEval (\<lambda>_ _. False) ?ctx ?f = Inr (True, ctx')"
    and r: "resAction (ctxResult ctx') = ActionContinue"
    by (simp add: InitEvalulationContext_def actionStatementEval_def expressionStatementEval_def orFalse_def
        actions_def subContext_def setResultAction_def newBool_def leaveFilter_def emptyResult_def)
  with subfilter_isolated [OF c] show ?thesis by blast
qed

text \<open>at the top level a terminal action ends the filter: no statement after it is
  evaluated, whatever it is.\<close>

theorem top_level_stops:
  assumes "treeEval same ctx pre = Inr (Some r, ctx')" and "pre \<noteq> []" and "resAction r \<noteq> ActionContinue"
  shows "treeEval same ctx (pre @ post) = Inr (Some r, ctx')"
  using treeEval_append [of same ctx pre post] assms by simp

theorem top_level_stops_witness:
  "\<exists>r ctx'. treeEval (\<lambda>_ _. False) (InitEvalulationContext [] nobody nobody [] [])
     ([ActionStatement ''accept'' []] @ [ActionStatement ''reject'' []]) = Inr (Some r, ctx')
   \<and> resAction r = ActionAccept"
proof -
  let ?ctx = "InitEvalulationContext [] nobody nobody [] []"
  obtain r ctx' where c: "treeEval (\<lambda>_ _. False) ?ctx [ActionStatement ''accept'' []] = Inr (Some r, ctx')"
    and r: "resAction r = ActionAccept"
    by (simp add: InitEvalulationContext_def actionStatementEval_def orFalse_def actions_def setResultAction_def)
  with top_level_stops [OF c, of "[ActionStatement ''reject'' []]"] show ?thesis by auto
qed

text \<open>inside a sub-filter a terminal action ends nothing: the statements after it are
  evaluated, and the last terminal action decides, here \<open>quarantine\<close> after anything that
  succeeded.\<close>

theorem subfilter_last_action_wins:
  assumes "filterLoop same ctx body = Inr (True, sub)" and "Actions sub = actions"
  shows "filterLoop same ctx (body @ [ActionStatement ''quarantine'' []]) =
    Inr (True, setResultAction ActionQuarantine sub)"
  using assms(1)
proof (induction body arbitrary: ctx)
  case Nil
  with assms(2) show ?case
    by (simp add: actionStatementEval_def orFalse_def actions_def)
next
  case (Cons st sts)
  then show ?case by (auto split: sum.splits bool.splits prod.splits)
qed

theorem subfilter_last_action_wins_witness:
  "\<exists>sub. filterLoop (\<lambda>_ _. False) (InitEvalulationContext [] nobody nobody [] [])
     ([ActionStatement ''reject'' []] @ [ActionStatement ''quarantine'' []]) = Inr (True, sub)
   \<and> resAction (ctxResult sub) = ActionQuarantine"
proof -
  let ?ctx = "InitEvalulationContext [] nobody nobody [] []"
  obtain sub where c: "filterLoop (\<lambda>_ _. False) ?ctx [ActionStatement ''reject'' []] = Inr (True, sub)"
    and a: "Actions sub = actions"
    by (simp add: InitEvalulationContext_def actionStatementEval_def orFalse_def actions_def setResultAction_def)
  with subfilter_last_action_wins [OF c a] show ?thesis by (simp add: setResultAction_def)
qed

text \<open>splitting a string loses nothing: joined by the separator, the pieces are the
  string again, and no piece holds the separator; with an empty separator the pieces,
  one per rune, put together are the string.\<close>

theorem Split_Join:
  "(sep \<noteq> [] \<longrightarrow> joinWith sep (Split s sep) = s \<and> list_all (\<lambda>p. \<not> contains p sep) (Split s sep)) \<and>
   (sep = [] \<longrightarrow> concat (Split s sep) = s)"
  using splitOn_no_sep [of sep "[]" s] joinWith_splitOn [of sep "[]" s] concat_explode [of s]
  by (auto simp: Split_def list_all_iff scanned_def)

theorem Split_Join_witness: "joinWith ''/'' (Split ''/usr/bin'' ''/'') = ''/usr/bin''"
  using Split_Join [of "''/''" "''/usr/bin''"] by simp

text \<open>what a collection holds after \<open>set\<close>: the new value under its key, and every other
  key as before, for a key that is not NaN.\<close>

theorem collection_set_get:
  assumes "k \<noteq> KeyNumber F_NaN"
  shows "mapGet (mapSet m k v) k = Some v \<and> (k' \<noteq> k \<longrightarrow> mapGet (mapSet m k v) k' = mapGet m k')"
  using assms mapGet_mapSet [of k m v] by (auto simp: keyEq_refl dest: keyEqD)

theorem collection_set_get_witness:
  "mapGet (mapSet [(KeyString ''a'', True)] (KeyString ''a'') False) (KeyString ''a'') = Some False"
  using collection_set_get [of "KeyString ''a''" "[(KeyString ''a'', True)]" False] by simp

end
