(* ===== verification/Utils_Slices.thy ===== *)
theory Utils_Slices
  imports Atmail_Prelude "HOL-Library.Multiset"
begin

text \<open>
  The helpers of \<open>src/utils/slices.go\<close>, and what the other components rely on: that the
  loops compute the functions they are named after, and that \<open>GroupBy\<close> loses nothing. A Go
  map built by \<open>GroupBy\<close> is the list of its entries, the keys distinct; the language leaves
  the order of a range over it open, and no property below depends on it.
\<close>

section \<open>The loops\<close>

fun mapLoop :: "'a list \<Rightarrow> ('a \<Rightarrow> 'b) \<Rightarrow> 'b list \<Rightarrow> 'b list" where
  "mapLoop [] fn out = out"
| "mapLoop (v # vs) fn out = mapLoop vs fn (out @ [fn v])"

definition Map :: "'a list \<Rightarrow> ('a \<Rightarrow> 'b) \<Rightarrow> 'b list" where
  "Map ins fn = mapLoop ins fn []"

fun mapFilterLoop :: "'a list \<Rightarrow> ('a \<Rightarrow> 'b option) \<Rightarrow> 'b list \<Rightarrow> 'b list" where
  "mapFilterLoop [] fn out = out"
| "mapFilterLoop (v # vs) fn out =
     (case fn v of None \<Rightarrow> mapFilterLoop vs fn out | Some r \<Rightarrow> mapFilterLoop vs fn (out @ [r]))"

definition MapFilter :: "'a list \<Rightarrow> ('a \<Rightarrow> 'b option) \<Rightarrow> 'b list" where
  "MapFilter ins fn = mapFilterLoop ins fn []"

text \<open>The iterator of \<open>Zip\<close>: the pairs it yields to a consumer that takes all of them.\<close>

definition Zip :: "'a list \<Rightarrow> 'b list \<Rightarrow> ('a \<times> 'b) list" where
  "Zip as bs = concat (map (\<lambda>a. map (\<lambda>b. (a, b)) bs) as)"

fun putGroup :: "('k \<times> 'a list) list \<Rightarrow> 'k \<Rightarrow> 'a \<Rightarrow> ('k \<times> 'a list) list" where
  "putGroup [] key a = [(key, [a])]"
| "putGroup ((k, arr) # mp) key a =
     (if k = key then (k, arr @ [a]) # mp else (k, arr) # putGroup mp key a)"

fun groupByLoop :: "'a list \<Rightarrow> ('a \<Rightarrow> 'k) \<Rightarrow> ('k \<times> 'a list) list \<Rightarrow> ('k \<times> 'a list) list" where
  "groupByLoop [] fn mp = mp"
| "groupByLoop (a # as) fn mp = groupByLoop as fn (putGroup mp (fn a) a)"

definition GroupBy :: "'a list \<Rightarrow> ('a \<Rightarrow> 'k) \<Rightarrow> ('k \<times> 'a list) list" where
  "GroupBy ins fn = groupByLoop ins fn []"

fun Any :: "bool list \<Rightarrow> bool" where
  "Any [] = False"
| "Any (v # vs) = (if v then True else Any vs)"

fun All :: "bool list \<Rightarrow> bool" where
  "All [] = True"
| "All (v # vs) = (if \<not> v then False else All vs)"

section \<open>What they compute\<close>

lemma mapLoop_eq: "mapLoop ins fn out = out @ map fn ins"
  by (induction ins fn out rule: mapLoop.induct) simp_all

lemma Map_eq [simp]: "Map ins fn = map fn ins"
  by (simp add: Map_def mapLoop_eq)

lemma mapFilterLoop_eq: "mapFilterLoop ins fn out = out @ List.map_filter fn ins"
  by (induction ins fn out rule: mapFilterLoop.induct) (simp_all add: map_filter_simps split: option.splits)

lemma MapFilter_eq [simp]: "MapFilter ins fn = List.map_filter fn ins"
  by (simp add: MapFilter_def mapFilterLoop_eq)

lemma Any_iff [simp]: "Any vs \<longleftrightarrow> True \<in> set vs"
  by (induction vs) auto

lemma All_iff [simp]: "All vs \<longleftrightarrow> False \<notin> set vs"
  by (induction vs) auto

section \<open>Groups\<close>

text \<open>The groups of a list: one per key, each the elements of its key in their order.\<close>

definition groupsOf :: "'a list \<Rightarrow> ('a \<Rightarrow> 'k) \<Rightarrow> ('k \<times> 'a list) list \<Rightarrow> bool" where
  "groupsOf xs fn mp \<longleftrightarrow>
     distinct (map fst mp) \<and> fst ` set mp = fn ` set xs \<and>
     (\<forall>(k, arr) \<in> set mp. arr = filter (\<lambda>a. fn a = k) xs)"

lemma fst_putGroup: "fst ` set (putGroup mp key a) = insert key (fst ` set mp)"
  by (induction mp key a rule: putGroup.induct) auto

lemma distinct_putGroup: "distinct (map fst mp) \<Longrightarrow> distinct (map fst (putGroup mp key a))"
proof (induction mp key a rule: putGroup.induct)
  case (2 k arr mp key a)
  then show ?case using fst_putGroup [of mp key a] by (auto simp flip: image_set)
qed simp

lemma in_putGroup:
  "distinct (map fst mp) \<Longrightarrow> (k, arr) \<in> set (putGroup mp key a) \<Longrightarrow>
   (k \<noteq> key \<and> (k, arr) \<in> set mp) \<or>
   (k = key \<and> ((\<exists>arr'. (key, arr') \<in> set mp \<and> arr = arr' @ [a]) \<or> (key \<notin> fst ` set mp \<and> arr = [a])))"
  by (induction mp key a rule: putGroup.induct) (force split: if_splits)+

lemma groupsOf_put:
  assumes "groupsOf xs fn mp"
  shows "groupsOf (xs @ [a]) fn (putGroup mp (fn a) a)"
proof -
  have d: "distinct (map fst mp)" and f: "fst ` set mp = fn ` set xs"
    and e: "\<And>k arr. (k, arr) \<in> set mp \<Longrightarrow> arr = filter (\<lambda>a. fn a = k) xs"
    using assms by (auto simp: groupsOf_def)
  have "arr = filter (\<lambda>x. fn x = k) (xs @ [a])" if mem: "(k, arr) \<in> set (putGroup mp (fn a) a)" for k arr
  proof -
    consider "k \<noteq> fn a" "(k, arr) \<in> set mp"
      | arr' where "k = fn a" "(k, arr') \<in> set mp" "arr = arr' @ [a]"
      | "k = fn a" "k \<notin> fst ` set mp" "arr = [a]"
      using in_putGroup [OF d mem] by metis
    then show ?thesis
    proof cases
      case 1
      then show ?thesis using e by simp
    next
      case 2
      then show ?thesis using e [OF 2(2)] by simp
    next
      case 3
      then have "filter (\<lambda>x. fn x = k) xs = []" using f by (simp add: filter_empty_conv) (metis image_eqI)
      with 3 show ?thesis by simp
    qed
  qed
  with distinct_putGroup [OF d] f show ?thesis
    by (auto simp: groupsOf_def fst_putGroup)
qed

lemma groupByLoop_groups: "groupsOf xs fn mp \<Longrightarrow> groupsOf (xs @ ins) fn (groupByLoop ins fn mp)"
proof (induction ins fn mp arbitrary: xs rule: groupByLoop.induct)
  case (2 a as fn mp)
  then show ?case using groupsOf_put [of xs fn mp a] "2.IH" [of "xs @ [a]"] by simp
qed simp

lemma GroupBy_groups: "groupsOf ins fn (GroupBy ins fn)"
  using groupByLoop_groups [of "[]" fn "[]" ins] by (simp add: GroupBy_def groupsOf_def)

lemma filter_mset_partition:
  "finite K \<Longrightarrow> (\<And>a. a \<in> set xs \<Longrightarrow> fn a \<in> K) \<Longrightarrow>
   mset xs = (\<Sum>k \<in> K. mset (filter (\<lambda>a. fn a = k) xs))"
proof (induction xs)
  case (Cons a xs)
  have "(\<Sum>k \<in> K. mset (filter (\<lambda>x. fn x = k) (a # xs))) =
      (\<Sum>k \<in> K. (if fn a = k then {#a#} else {#}) + mset (filter (\<lambda>x. fn x = k) xs))"
    by (rule sum.cong) auto
  also have "\<dots> = {#a#} + mset xs"
    using Cons by (simp add: sum.distrib sum.delta')
  finally show ?case by simp
qed simp

lemma groupsOf_mset:
  assumes "groupsOf xs fn mp"
  shows "mset (concat (map snd mp)) = mset xs"
proof -
  have "mset (concat (map snd mp)) = (\<Sum>p \<leftarrow> mp. mset (snd p))"
    by (induction mp) auto
  also have "\<dots> = (\<Sum>p \<leftarrow> mp. mset (filter (\<lambda>a. fn a = fst p) xs))"
    using assms by (intro arg_cong [of _ _ sum_list] map_cong) (auto simp: groupsOf_def)
  also have "\<dots> = (\<Sum>k \<leftarrow> map fst mp. mset (filter (\<lambda>a. fn a = k) xs))"
    by (simp add: comp_def)
  also have "\<dots> = (\<Sum>k \<in> set (map fst mp). mset (filter (\<lambda>a. fn a = k) xs))"
    using assms by (intro sum_list_distinct_conv_sum_set) (simp add: groupsOf_def)
  also have "\<dots> = mset xs"
    using assms by (intro filter_mset_partition [symmetric]) (auto simp: groupsOf_def)
  finally show ?thesis .
qed

section \<open>Properties\<close>

text \<open>\<open>GroupBy\<close> puts every element in exactly one group, that of its key, in the order
  of the slice, and no group is empty.\<close>

theorem GroupBy_partition:
  "mset (concat (map snd (GroupBy ins fn))) = mset ins \<and>
   distinct (map fst (GroupBy ins fn)) \<and>
   list_all (\<lambda>(k, arr). arr \<noteq> [] \<and> arr = filter (\<lambda>a. fn a = k) ins) (GroupBy ins fn)"
proof -
  note g = GroupBy_groups [of ins fn]
  have "arr \<noteq> [] \<and> arr = filter (\<lambda>a. fn a = k) ins" if "(k, arr) \<in> set (GroupBy ins fn)" for k arr
  proof -
    have "k \<in> fst ` set (GroupBy ins fn)" using that by force
    then have "k \<in> fn ` set ins" using g by (simp add: groupsOf_def)
    moreover have "arr = filter (\<lambda>a. fn a = k) ins" using g that by (auto simp: groupsOf_def)
    ultimately show ?thesis by (auto simp: filter_empty_conv)
  qed
  with groupsOf_mset [OF g] g show ?thesis by (auto simp: groupsOf_def list_all_iff)
qed

end
