(* ===== verification/Auth_Domain.thy ===== *)
theory Auth_Domain
  imports Utils_Slices
begin

text \<open>
  The accounts of a domain: \<open>src/auth/domain.go\<close>, \<open>src/auth/password.go\<close> and
  \<open>ListenConfig.From\<close> of \<open>src/utils/listen.go\<close>.

  What is outside the sources is an argument: the files (\<open>readFile\<close>), the resolver
  (\<open>lookupAddr\<close>), the comparison of a password with its hash (\<open>compare\<close>) and the client of
  the account service Den (\<open>denAuthn\<close>, \<open>denExists\<close>). They are the fields of the record
  \<open>world\<close>. The waits after a failed login are not modelled.
\<close>

section \<open>Configuration\<close>

record Crypto =
  PGPPubKey :: "string option"
  PGPPubKeyFile :: "string option"

record Admin =
  adminUser :: string
  adminFolder :: string
  adminCrypto :: Crypto

record ListenConfig =
  ListenAddr :: string
  addresses :: "string list"

record StaticUser =
  staticPassword :: string
  staticCrypto :: Crypto

record Group =
  Members :: "string list"
  AuthorizedSenders :: "string list"

record StaticConfig =
  Users :: "string \<rightharpoonup> StaticUser"
  SystemUsers :: "string \<rightharpoonup> ListenConfig"
  staticGroups :: "string \<rightharpoonup> Group"

record CatchAll =
  catchUser :: string
  catchPassword :: string
  catchCrypto :: Crypto

record Den =
  denGroups :: "string \<rightharpoonup> Group"

record Config =
  cfgAdmin :: Admin
  PlusSubaddressing :: bool
  CreateFolderSubaddressing :: bool
  Static :: "StaticConfig option"
  catchAll :: "CatchAll option"
  cfgDen :: "Den option"

text \<open>\<open>compare\<close> gives the two results of \<open>PasswordAlgorithm(hash).Compare\<close>: whether they match
  and whether it failed. \<open>denAuthn\<close> tells whether the service answered with a user,
  \<open>denExists\<close> gives the key of the user, if there is such a user.\<close>

record world =
  readFile :: "string \<Rightarrow> string option"
  lookupAddr :: "string \<Rightarrow> string list option"
  compare :: "string \<Rightarrow> string \<Rightarrow> bool \<times> bool"
  denAuthn :: "string \<Rightarrow> string \<Rightarrow> bool"
  denExists :: "string \<Rightarrow> string option option"

section \<open>Operations\<close>

text \<open>An unreadable key file is a panic, \<open>Inl\<close>.\<close>

definition GetKey :: "world \<Rightarrow> Crypto \<Rightarrow> unit + string option" where
  "GetKey w c =
     (case PGPPubKey c of
        Some k \<Rightarrow> Inr (Some k)
      | None \<Rightarrow> (case PGPPubKeyFile c of
                   Some f \<Rightarrow> (case readFile w f of None \<Rightarrow> Inl () | Some b \<Rightarrow> Inr (Some b))
                 | None \<Rightarrow> Inr None))"

definition Verify :: "Group \<Rightarrow> string \<Rightarrow> bool" where
  "Verify g frm \<longleftrightarrow> length (AuthorizedSenders g) \<noteq> 0 \<and> frm \<in> set (AuthorizedSenders g)"

text \<open>\<open>ListenConfig.From\<close>: the addresses are looked up when there are none yet. \<open>local\<close> is the
  local address of the connection.\<close>

definition From :: "world \<Rightarrow> ListenConfig \<Rightarrow> string \<Rightarrow> bool \<times> ListenConfig" where
  "From w cfg local =
     (if addresses cfg = [] then
        (case lookupAddr w (ListenAddr cfg) of
           None \<Rightarrow> (False, cfg)
         | Some as \<Rightarrow> (Any (Map as (\<lambda>s. s = local)), cfg\<lparr>addresses := as\<rparr>))
      else (Any (Map (addresses cfg) (\<lambda>s. s = local)), cfg))"

text \<open>\<open>VerifyUser\<close>, on a connection with the local address \<open>local\<close>. The system user is a copy,
  so that the addresses \<open>From\<close> looked up are dropped.\<close>

definition VerifyUser :: "world \<Rightarrow> Config \<Rightarrow> string \<Rightarrow> string \<Rightarrow> string \<Rightarrow> string \<Rightarrow> bool" where
  "VerifyUser w cfg local domain username password =
     (let check = (\<lambda>realPass. fst (compare w realPass password))
      in case catchAll cfg of
           Some ca \<Rightarrow>
             if catchUser ca @ ''@'' @ domain \<noteq> username then False else check (catchPassword ca)
         | None \<Rightarrow>
             (case Static cfg of
                Some st \<Rightarrow>
                  (case str_cut username (CHR ''@'') of (u, d, _) \<Rightarrow>
                     if d \<noteq> domain then False
                     else (case Users st u of
                             None \<Rightarrow> (case SystemUsers st u of
                                        None \<Rightarrow> False | Some lc \<Rightarrow> fst (From w lc local))
                           | Some user \<Rightarrow> check (staticPassword user)))
              | None \<Rightarrow>
                  (case cfgDen cfg of
                     Some _ \<Rightarrow>
                       (case str_cut username (CHR ''@'') of (u, d, _) \<Rightarrow>
                          if d \<noteq> domain then False else denAuthn w u password)
                   | None \<Rightarrow> check [])))"

record UserData =
  Username :: string
  Folder :: string
  dataAddress :: string
  dataKey :: "string option"
  dataGroup :: "Group option"

definition noData :: UserData where
  "noData = \<lparr>Username = [], Folder = [], dataAddress = [], dataKey = None, dataGroup = None\<rparr>"

definition AdminEmails :: "string list" where
  "AdminEmails = [''root'', ''postmaster'', ''operator'', ''mail-daemon'', ''daemon'', ''uucp'',
     ''abuse'', ''security'']"

text \<open>\<open>strings.Cut(username, "+")\<close> when subaddresses are enabled.\<close>

definition subaddressOf :: "Config \<Rightarrow> string \<Rightarrow> string \<times> string" where
  "subaddressOf cfg username =
     (if PlusSubaddressing cfg
      then (case str_cut username (CHR ''+'') of (u, sub, _) \<Rightarrow> (u, sub))
      else (username, []))"

definition withKey :: "unit + string option \<Rightarrow> UserData \<Rightarrow> unit + UserData option" where
  "withKey key data = (case key of Inl p \<Rightarrow> Inl p | Inr k \<Rightarrow> Inr (Some (data\<lparr>dataKey := k\<rparr>)))"

definition existsStatic :: "world \<Rightarrow> Config \<Rightarrow> StaticConfig \<Rightarrow> string \<Rightarrow> string \<Rightarrow> unit + UserData option" where
  "existsStatic w cfg st frm username =
     (case subaddressOf cfg username of (name, subaddress) \<Rightarrow>
        case Users st name of
          None \<Rightarrow>
            (case staticGroups st name of
               None \<Rightarrow> Inr None
             | Some g \<Rightarrow> if Verify g frm then Inr None else Inr (Some (noData\<lparr>dataGroup := Some g\<rparr>)))
        | Some u \<Rightarrow>
            withKey (GetKey w (staticCrypto u))
              (noData\<lparr>Username := name,
                 Folder := (if CreateFolderSubaddressing cfg then subaddress else [])\<rparr>))"

definition existsDen :: "world \<Rightarrow> Config \<Rightarrow> Den \<Rightarrow> string \<Rightarrow> string \<Rightarrow> unit + UserData option" where
  "existsDen w cfg dn frm username =
     (case subaddressOf cfg username of (name, subaddress) \<Rightarrow>
        case denExists w name of
          None \<Rightarrow>
            (case denGroups dn name of
               None \<Rightarrow> Inr None
             | Some g \<Rightarrow> if Verify g frm then Inr (Some (noData\<lparr>dataGroup := Some g\<rparr>)) else Inr None)
        | Some key \<Rightarrow>
            Inr (Some (noData\<lparr>Folder := (if CreateFolderSubaddressing cfg then subaddress else []),
                              dataKey := key\<rparr>)))"

definition Exists :: "world \<Rightarrow> Config \<Rightarrow> string \<Rightarrow> string \<Rightarrow> unit + UserData option" where
  "Exists w cfg frm username =
     (if username \<in> set AdminEmails then Inr (Some (noData\<lparr>Username := username\<rparr>))
      else case catchAll cfg of
             Some ca \<Rightarrow>
               withKey (GetKey w (catchCrypto ca))
                 (noData\<lparr>Username := catchUser ca,
                    Folder := (if CreateFolderSubaddressing cfg \<and> username \<noteq> catchUser ca
                               then username else [])\<rparr>)
           | None \<Rightarrow>
               (case Static cfg of
                  Some st \<Rightarrow> existsStatic w cfg st frm username
                | None \<Rightarrow> (case cfgDen cfg of
                             Some dn \<Rightarrow> existsDen w cfg dn frm username
                           | None \<Rightarrow> Inr (Some noData))))"

section \<open>Password parameters\<close>

text \<open>\<open>PasswordConfig.Load\<close> checks the parameters by hashing a test string, which is the
  argument \<open>hash\<close>: true when there is no error. The defaults are the package variables it
  sets; on an error they keep what was set before it.\<close>

record Argon2id =
  argonM :: int
  argonT :: int
  argonP :: int

record Scrypt =
  scryptN :: int
  scryptP :: int
  scryptR :: int

record Bcrypt =
  bcryptCost :: int

record PasswordDefaults =
  DefaultArgon2id :: Argon2id
  DefaultScrypt :: Scrypt
  DefaultBcrypt :: Bcrypt

definition passwordDefaults :: PasswordDefaults where
  "passwordDefaults =
     \<lparr>DefaultArgon2id = \<lparr>argonM = 16 * 1024, argonT = 5, argonP = 2\<rparr>,
      DefaultScrypt = \<lparr>scryptN = 2 * 2 ^ 15, scryptP = 2, scryptR = 8\<rparr>,
      DefaultBcrypt = \<lparr>bcryptCost = 12\<rparr>\<rparr>"

record PasswordConfig =
  pwDefault :: "string option"
  pwBcrypt :: "Bcrypt option"
  pwArgon2id :: "Argon2id option"
  pwScrypt :: "Scrypt option"

record hashers =
  argonHash :: "Argon2id \<Rightarrow> bool"
  scryptHash :: "Scrypt \<Rightarrow> bool"
  bcryptHash :: "Bcrypt \<Rightarrow> bool"

datatype passwordError = UnknownDefault string | Argon2idConfig | ScryptConfig | BcryptConfig | NegativeShift

definition loadArgon2id :: "hashers \<Rightarrow> PasswordConfig \<Rightarrow> PasswordDefaults \<Rightarrow> passwordError + PasswordDefaults" where
  "loadArgon2id h cfg ds =
     (case pwArgon2id cfg of
        None \<Rightarrow> Inr ds
      | Some a \<Rightarrow>
          let a' = a\<lparr>argonM := argonM a * 1024\<rparr>
          in if argonHash h a' then Inr (ds\<lparr>DefaultArgon2id := a'\<rparr>) else Inl Argon2idConfig)"

text \<open>In \<open>2<<cfg.Scrypt.N - 1\<close> the shift binds tighter than the minus; a negative shift count
  is a panic.\<close>

definition loadScrypt :: "hashers \<Rightarrow> PasswordConfig \<Rightarrow> PasswordDefaults \<Rightarrow> passwordError + PasswordDefaults" where
  "loadScrypt h cfg ds =
     (case pwScrypt cfg of
        None \<Rightarrow> Inr ds
      | Some s \<Rightarrow>
          if scryptN s < 0 then Inl NegativeShift
          else let s' = s\<lparr>scryptN := 2 * 2 ^ nat (scryptN s) - 1\<rparr>
               in if scryptHash h s' then Inr (ds\<lparr>DefaultScrypt := s'\<rparr>) else Inl ScryptConfig)"

definition loadBcrypt :: "hashers \<Rightarrow> PasswordConfig \<Rightarrow> PasswordDefaults \<Rightarrow> passwordError + PasswordDefaults" where
  "loadBcrypt h cfg ds =
     (case pwBcrypt cfg of
        None \<Rightarrow> Inr ds
      | Some b \<Rightarrow> if bcryptHash h b then Inr (ds\<lparr>DefaultBcrypt := b\<rparr>) else Inl BcryptConfig)"

text \<open>The error, if any, and the defaults it leaves.\<close>

definition Load :: "hashers \<Rightarrow> PasswordConfig \<Rightarrow> PasswordDefaults \<Rightarrow> passwordError option \<times> PasswordDefaults" where
  "Load h cfg ds =
     (if pwDefault cfg \<notin> {None, Some ''argon2id'', Some ''bcrypt'', Some ''scrypt''}
      then (Some (UnknownDefault (the (pwDefault cfg))), ds)
      else case loadArgon2id h cfg ds of
             Inl e \<Rightarrow> (Some e, ds)
           | Inr ds1 \<Rightarrow>
               (case loadScrypt h cfg ds1 of
                  Inl e \<Rightarrow> (Some e, ds1)
                | Inr ds2 \<Rightarrow>
                    (case loadBcrypt h cfg ds2 of
                       Inl e \<Rightarrow> (Some e, ds2)
                     | Inr ds3 \<Rightarrow> (None, ds3))))"

section \<open>Logins\<close>

text \<open>The domain of an address: what follows its first at sign.\<close>

definition domainOf :: "string \<Rightarrow> string" where
  "domainOf addr = fst (snd (str_cut addr (CHR ''@'')))"

lemma domainOf_append: "CHR ''@'' \<notin> set u \<Longrightarrow> domainOf (u @ ''@'' @ d) = d"
  by (simp add: domainOf_def cut_append)

lemma cut_at_iff:
  assumes "d \<noteq> []"
  shows "fst (str_cut addr sep) = u \<and> fst (snd (str_cut addr sep)) = d \<longleftrightarrow>
    sep \<notin> set u \<and> addr = u @ sep # d"
proof
  assume l: "fst (str_cut addr sep) = u \<and> fst (snd (str_cut addr sep)) = d"
  then have "dropWhile (\<lambda>c. c \<noteq> sep) addr \<noteq> []" and u: "u = takeWhile (\<lambda>c. c \<noteq> sep) addr"
    and d: "d = tl (dropWhile (\<lambda>c. c \<noteq> sep) addr)"
    using assms by (auto simp: cut_eq_takeWhile simp del: dropWhile_eq_Nil_conv)
  then have "dropWhile (\<lambda>c. c \<noteq> sep) addr = sep # d"
    by (metis (full_types) hd_dropWhile list.collapse)
  then show "sep \<notin> set u \<and> addr = u @ sep # d"
    using takeWhile_dropWhile_id [of "\<lambda>c. c \<noteq> sep" addr] u by (auto dest: set_takeWhileD)
qed (use cut_append in auto)

text \<open>A configuration that has accounts, and whose catch-all user is a user name and not an
  address.\<close>

definition configOk :: "Config \<Rightarrow> bool" where
  "configOk cfg \<longleftrightarrow>
     (case catchAll cfg of
        Some ca \<Rightarrow> CHR ''@'' \<notin> set (catchUser ca)
      | None \<Rightarrow> Static cfg \<noteq> None \<or> cfgDen cfg \<noteq> None)"

text \<open>The interface the mail server and the mailbox server log users in through: a
  configuration accepts only users of the domain it is asked about.\<close>

locale authenticator =
  fixes ok :: "'c \<Rightarrow> bool"
    and verify :: "'c \<Rightarrow> string \<Rightarrow> string \<Rightarrow> string \<Rightarrow> bool"
  assumes verify_domain: "ok cfg \<Longrightarrow> verify cfg domain username password \<Longrightarrow> domain = domainOf username"
begin

lemma one_domain:
  "ok c1 \<Longrightarrow> ok c2 \<Longrightarrow> verify c1 d1 u p1 \<Longrightarrow> verify c2 d2 u p2 \<Longrightarrow> d1 = d2"
  using verify_domain by metis

text \<open>Whether some domain accepts the login is what the domain of the user name says, in
  whatever order the domains are tried.\<close>

lemma tried_in_any_order:
  assumes "\<And>d c. domains d = Some c \<Longrightarrow> ok c" and "set ds = dom domains"
  shows "(\<exists>d \<in> set ds. verify (the (domains d)) d u p) \<longleftrightarrow>
    (\<exists>c. domains (domainOf u) = Some c \<and> verify c (domainOf u) u p)"
proof
  assume "\<exists>d \<in> set ds. verify (the (domains d)) d u p"
  then obtain d c where d: "domains d = Some c" "verify c d u p" using assms(2) by auto
  then have "d = domainOf u" using assms(1) verify_domain by blast
  with d show "\<exists>c. domains (domainOf u) = Some c \<and> verify c (domainOf u) u p" by blast
next
  assume "\<exists>c. domains (domainOf u) = Some c \<and> verify c (domainOf u) u p"
  then show "\<exists>d \<in> set ds. verify (the (domains d)) d u p"
    using assms(2) by (metis domI option.sel)
qed

end

lemma VerifyUser_domain:
  assumes "configOk cfg" and "VerifyUser w cfg local domain username password"
  shows "domain = domainOf username"
  using assms
  by (auto simp: VerifyUser_def configOk_def domainOf_def cut_append
      split: option.splits prod.splits if_splits)

interpretation au: authenticator configOk "\<lambda>cfg. VerifyUser w cfg local" for w local
  by unfold_locales (rule VerifyUser_domain)

lemma From_eq:
  "fst (From w lc local) \<longleftrightarrow>
     local \<in> (if addresses lc = [] then (case lookupAddr w (ListenAddr lc) of None \<Rightarrow> {} | Some as \<Rightarrow> set as)
              else set (addresses lc))"
  by (auto simp: From_def split: option.splits)

section \<open>Properties\<close>

text \<open>C34: a user is accepted by the configuration of one domain only, that of the user name, so
  that the order in which the servers try the domains does not matter.\<close>

theorem login_one_domain:
  assumes "configOk c1" and "configOk c2"
    and "VerifyUser w c1 local d1 u p1" and "VerifyUser w c2 local d2 u p2"
  shows "d1 = d2 \<and> d1 = domainOf u"
  using au.one_domain [OF assms] au.verify_domain [OF assms(1,3)] by simp

definition noCrypto :: Crypto where
  "noCrypto = \<lparr>PGPPubKey = None, PGPPubKeyFile = None\<rparr>"

definition emptyWorld :: world where
  "emptyWorld = \<lparr>readFile = \<lambda>_. None, lookupAddr = \<lambda>_. None, compare = \<lambda>h p. (h = p, False),
     denAuthn = \<lambda>_ _. False, denExists = \<lambda>_. None\<rparr>"

definition demoConfig :: Config where
  "demoConfig = \<lparr>cfgAdmin = \<lparr>adminUser = ''bob'', adminFolder = [], adminCrypto = noCrypto\<rparr>,
     PlusSubaddressing = True, CreateFolderSubaddressing = True,
     Static = Some \<lparr>Users = [''bob'' \<mapsto> \<lparr>staticPassword = ''pw'', staticCrypto = noCrypto\<rparr>],
       SystemUsers = Map.empty,
       staticGroups = [''team'' \<mapsto> \<lparr>Members = [''bob@a.org''], AuthorizedSenders = [''eve@b.org'']\<rparr>]\<rparr>,
     catchAll = None, cfgDen = None\<rparr>"

theorem login_one_domain_witness:
  "VerifyUser emptyWorld demoConfig [] ''a.org'' ''bob@a.org'' ''pw'' \<and> ''a.org'' = domainOf ''bob@a.org''"
proof -
  have v: "VerifyUser emptyWorld demoConfig [] ''a.org'' ''bob@a.org'' ''pw''"
    by (simp add: VerifyUser_def demoConfig_def emptyWorld_def)
  have c: "configOk demoConfig" by (simp add: configOk_def demoConfig_def)
  show ?thesis using login_one_domain [OF c c v v] v by simp
qed

text \<open>with accounts in the configuration file, exactly these logins are accepted: the
  address of a user with the password of that user, and the address of a system user on a
  connection to one of the addresses it listens on.\<close>

theorem static_login:
  assumes "catchAll cfg = None" and "Static cfg = Some st" and "domain \<noteq> []"
  shows "VerifyUser w cfg local domain username password \<longleftrightarrow>
    (\<exists>u. CHR ''@'' \<notin> set u \<and> username = u @ ''@'' @ domain \<and>
       (case Users st u of
          Some user \<Rightarrow> fst (compare w (staticPassword user) password)
        | None \<Rightarrow> (case SystemUsers st u of None \<Rightarrow> False | Some lc \<Rightarrow> fst (From w lc local))))"
proof -
  obtain u d f where c: "str_cut username (CHR ''@'') = (u, d, f)" by (cases "str_cut username (CHR ''@'')")
  have "VerifyUser w cfg local domain username password \<longleftrightarrow> d = domain \<and>
      (case Users st u of
         Some user \<Rightarrow> fst (compare w (staticPassword user) password)
       | None \<Rightarrow> (case SystemUsers st u of None \<Rightarrow> False | Some lc \<Rightarrow> fst (From w lc local)))"
    using assms c by (auto simp: VerifyUser_def Let_def split: option.splits)
  moreover have "fst (str_cut username (CHR ''@'')) = v \<and> d = domain \<longleftrightarrow>
      CHR ''@'' \<notin> set v \<and> username = v @ ''@'' @ domain" for v
    using cut_at_iff [OF assms(3), of username "CHR ''@''" v] c by simp
  ultimately show ?thesis using c by (metis fst_conv)
qed

theorem static_login_witness:
  "VerifyUser emptyWorld demoConfig [] ''a.org'' ''bob@a.org'' ''pw'' \<and>
   \<not> VerifyUser emptyWorld demoConfig [] ''a.org'' ''bob@a.org'' ''no''"
proof -
  note iff = static_login [of demoConfig "the (Static demoConfig)" "''a.org''" emptyWorld "[]"]
  have d: "catchAll demoConfig = None" "Static demoConfig = Some (the (Static demoConfig))"
    by (simp_all add: demoConfig_def)
  have b: "''bob@a.org'' = u @ ''@'' @ ''a.org'' \<longleftrightarrow> u = ''bob''" for u :: string
    using append_same_eq [of u "''@'' @ ''a.org''" "''bob''"] by auto
  show ?thesis
    unfolding iff [OF d, simplified] by (simp add: b [simplified] demoConfig_def emptyWorld_def)
qed

text \<open>whether a group exists for a sender depends on where it is configured: a group of the
  configuration file refuses exactly its authorized senders, a group of a Den domain accepts
  exactly them.\<close>

theorem group_senders:
  assumes "name \<notin> set AdminEmails" and "catchAll cfg = None" and "\<not> PlusSubaddressing cfg"
  shows "(\<forall>st. Static cfg = Some st \<and> Users st name = None \<and> staticGroups st name = Some g \<longrightarrow>
       Exists w cfg frm name = Inr (if Verify g frm then None else Some (noData\<lparr>dataGroup := Some g\<rparr>))) \<and>
    (\<forall>dn. Static cfg = None \<and> cfgDen cfg = Some dn \<and> denExists w name = None \<and> denGroups dn name = Some g \<longrightarrow>
       Exists w cfg frm name = Inr (if Verify g frm then Some (noData\<lparr>dataGroup := Some g\<rparr>) else None))"
  using assms by (simp add: Exists_def existsStatic_def existsDen_def subaddressOf_def)

theorem group_senders_witness:
  "Exists emptyWorld (demoConfig\<lparr>PlusSubaddressing := False\<rparr>) ''eve@b.org'' ''team'' = Inr None"
  using group_senders [of "''team''" "demoConfig\<lparr>PlusSubaddressing := False\<rparr>"
      "\<lparr>Members = [''bob@a.org''], AuthorizedSenders = [''eve@b.org'']\<rparr>" emptyWorld "''eve@b.org''"]
  by (simp add: demoConfig_def AdminEmails_def Verify_def)

text \<open>a subaddress reaches the mailbox of its user: with subaddresses enabled, \<open>name+tag\<close>
  is the same account with the same key as \<open>name\<close>, and its folder is the tag, when folders
  are made from subaddresses.\<close>

theorem subaddress_same_account:
  assumes "catchAll cfg = None" and "Static cfg = Some st" and "PlusSubaddressing cfg"
    and "CHR ''+'' \<notin> set name" and "name \<notin> set AdminEmails" and "Users st name = Some user"
    and "GetKey w (staticCrypto user) = Inr key"
  shows "Exists w cfg frm name = Inr (Some (noData\<lparr>Username := name, dataKey := key\<rparr>)) \<and>
    Exists w cfg frm (name @ ''+'' @ tag) =
      Inr (Some (noData\<lparr>Username := name, dataKey := key,
                        Folder := (if CreateFolderSubaddressing cfg then tag else [])\<rparr>))"
proof -
  have "str_cut name (CHR ''+'') = (name, [], False)"
    using assms(4) by (rule cut_none)
  moreover have "str_cut (name @ ''+'' @ tag) (CHR ''+'') = (name, tag, True)"
    using assms(4) by (simp add: cut_append)
  moreover have "name @ ''+'' @ tag \<notin> set AdminEmails"
  proof -
    have "list_all (\<lambda>a. CHR ''+'' \<notin> set a) AdminEmails" by (simp add: AdminEmails_def)
    then show ?thesis by (auto simp: list_all_iff)
  qed
  ultimately show ?thesis
    using assms by (simp add: Exists_def existsStatic_def subaddressOf_def withKey_def noData_def)
qed

theorem subaddress_same_account_witness:
  "Exists emptyWorld demoConfig [] ''bob+news'' = Inr (Some (noData\<lparr>Username := ''bob'', Folder := ''news''\<rparr>))"
  using subaddress_same_account [of demoConfig "the (Static demoConfig)" "''bob''"
      "\<lparr>staticPassword = ''pw'', staticCrypto = noCrypto\<rparr>" emptyWorld None "[]" "''news''"]
  by (simp add: demoConfig_def AdminEmails_def GetKey_def noCrypto_def noData_def)

text \<open>a domain with a catch-all account refuses no address, unless the key file of the
  account cannot be read.\<close>

theorem catch_all_accepts:
  assumes "catchAll cfg = Some ca" and "GetKey w (catchCrypto ca) = Inr key"
  shows "\<exists>data. Exists w cfg frm username = Inr (Some data) \<and>
    (username \<notin> set AdminEmails \<longrightarrow> Username data = catchUser ca \<and> dataKey data = key)"
  using assms by (simp add: Exists_def withKey_def noData_def)

theorem catch_all_accepts_witness:
  "\<exists>data. Exists emptyWorld (demoConfig\<lparr>catchAll := Some \<lparr>catchUser = ''all'', catchPassword = [], catchCrypto = noCrypto\<rparr>\<rparr>)
     [] ''anyone'' = Inr (Some data) \<and> Username data = ''all''"
  using catch_all_accepts [of "demoConfig\<lparr>catchAll := Some \<lparr>catchUser = ''all'', catchPassword = [], catchCrypto = noCrypto\<rparr>\<rparr>"
      "\<lparr>catchUser = ''all'', catchPassword = [], catchCrypto = noCrypto\<rparr>" emptyWorld None "[]" "''anyone''"]
  by (auto simp: GetKey_def noCrypto_def AdminEmails_def)

text \<open>no configuration of scrypt can be loaded: the cost it computes is odd, and scrypt
  takes only powers of two greater than one.\<close>

theorem scrypt_never_loads:
  assumes "\<And>s. scryptHash h s \<Longrightarrow> \<exists>k > 0. scryptN s = 2 ^ k" and "pwScrypt cfg = Some s"
  shows "fst (Load h cfg ds) \<noteq> None"
proof -
  have "\<not> scryptHash h (s\<lparr>scryptN := 2 * 2 ^ n - 1\<rparr>)" for n
  proof
    assume a: "scryptHash h (s\<lparr>scryptN := 2 * 2 ^ n - 1\<rparr>)"
    obtain k where "k > 0" "scryptN (s\<lparr>scryptN := 2 * 2 ^ n - 1\<rparr>) = 2 ^ k" using assms(1) [OF a] by blast
    then have k: "k > 0" "(2 * 2 ^ n - 1 :: int) = 2 ^ k" by simp_all
    have "odd (2 * 2 ^ n - 1 :: int)" by simp
    then have "odd (2 ^ k :: int)" unfolding k(2) .
    with k(1) show False by simp
  qed
  then show ?thesis
    using assms(2) by (auto simp: Load_def loadScrypt_def Let_def split: sum.splits)
qed

theorem scrypt_never_loads_witness:
  "fst (Load \<lparr>argonHash = \<lambda>_. True, scryptHash = \<lambda>s. scryptN s = 2 ^ 16, bcryptHash = \<lambda>_. True\<rparr>
     \<lparr>pwDefault = Some ''scrypt'', pwBcrypt = None, pwArgon2id = None,
      pwScrypt = Some \<lparr>scryptN = 16, scryptP = 1, scryptR = 8\<rparr>\<rparr> passwordDefaults) \<noteq> None"
  by (rule scrypt_never_loads) (auto intro: exI [of _ "16 :: nat"])

end
