(* ===== verification/Relay_Types.thy ===== *)
theory Relay_Types
  imports Filter_Eval Auth_Domain
begin

text \<open>
  The state of the mail server: \<open>Backend\<close> and \<open>Rcpt\<close> of \<open>src/relay/server.go\<close>, \<open>Session\<close> of
  \<open>src/relay/session.go\<close>, and the errors its operations return.

  A mail is the header, as the message library maps it, and the body. What the library does
  to a header is not in the sources: its functions are the fields of \<open>msglib\<close>.
  A duration is a number of nanoseconds, as \<open>time.Duration\<close> is.
\<close>

record RelayRcpt =
  rUser :: string
  rDomain :: string
  rFolder :: string
  rAddress :: string
  rKey :: "string option"
  rLocal :: bool
  rGroup :: "Group option"

text \<open>\<open>Rcpt.Rcpt\<close>: what a filter sees of a recipient.\<close>

definition filterRcpt :: "RelayRcpt \<Rightarrow> Rcpt" where
  "filterRcpt r = \<lparr>rcptUser = rUser r, rcptDomain = rDomain r, rcptFolder = rFolder r,
     rcptAddress = rAddress r\<rparr>"

record Message =
  msgHeader :: header
  msgBody :: string

record msglib =
  hAdd :: "string \<Rightarrow> string \<Rightarrow> header \<Rightarrow> header"
  hSet :: "string \<Rightarrow> string \<Rightarrow> header \<Rightarrow> header"
  hDel :: "string \<Rightarrow> header \<Rightarrow> header"
  hHas :: "string \<Rightarrow> header \<Rightarrow> bool"
  hGet :: "string \<Rightarrow> header \<Rightarrow> string"
  readMessage :: "string \<Rightarrow> Message option"
  renderMessage :: "Message \<Rightarrow> string option"

text \<open>The filters are in the order in which the range over the map of filters visits them.
  \<open>Rspamd\<close> is the client of the spam filter, if there is one; of its fields only the folder
  for the mails to learn from matters here.\<close>

record Backend =
  Domains :: "string \<rightharpoonup> Config"
  Rspamd :: "string option"
  Filters :: "(string \<times> stmt list) list"

record Session =
  username :: string
  sFrom :: RelayRcpt
  sTo :: "RelayRcpt list"

datatype relayPanic = KeyFile | FilterPanic goPanic | NilRspamd | NoRecipient | IndexRange | UnknownAction

datatype relayError =
    SMTPError nat | ErrAuthRequired | ErrAuthFailed | OtherError | Panicked relayPanic

definition errInternal :: relayError where
  "errInternal = SMTPError 451"

definition minutes :: "int \<Rightarrow> int" where
  "minutes n = n * 60 * 10 ^ 9"

definition noRcpt :: RelayRcpt where
  "noRcpt = \<lparr>rUser = [], rDomain = [], rFolder = [], rAddress = [], rKey = None, rLocal = False,
     rGroup = None\<rparr>"

definition newSession :: Session where
  "newSession = \<lparr>username = [], sFrom = noRcpt, sTo = []\<rparr>"

definition ParseAddress :: "string \<Rightarrow> string \<times> string" where
  "ParseAddress address = (case str_cut address (CHR ''@'') of (mailbox, domain, _) \<Rightarrow> (mailbox, domain))"

text \<open>\<open>Backend.NewContext\<close>.\<close>

definition NewContext :: "RelayRcpt \<Rightarrow> RelayRcpt \<Rightarrow> Message \<Rightarrow> EvaluationContext" where
  "NewContext frm to mail =
     InitEvalulationContext [] (filterRcpt frm) (filterRcpt to) (msgHeader mail) (msgBody mail)"

lemma snd_ParseAddress [simp]: "snd (ParseAddress a) = domainOf a"
  by (simp add: ParseAddress_def domainOf_def split: prod.splits)

end
