(* ===== verification/Relay_Rspamd.thy ===== *)
theory Relay_Rspamd
  imports Relay_Types
begin

text \<open>
  The spam filter: \<open>Analyze\<close> and the learning functions of \<open>src/relay/rspamd.go\<close>.

  The exchange with the service is the argument \<open>verify\<close>: it takes the metadata and the
  mail, and gives the response with the mail as \<open>Verify\<close> leaves it, or \<open>None\<close> for an error; the theory \<open>Relay_Verify\<close> defines it.
  \<open>path.Join\<close>, \<open>strings.ReplaceAll\<close> and the formatting of the score are Go's, written out.
\<close>

section \<open>Go's library\<close>

definition ReplaceAll :: "string \<Rightarrow> string \<Rightarrow> string \<Rightarrow> string" where
  "ReplaceAll s old new = joinWith new (Split s old)"

text \<open>\<open>strconv.FormatFloat(f, 'f', 2, 64)\<close>.\<close>

definition formatCents :: "int \<Rightarrow> string" where
  "formatCents c =
     decimal (nat (c div 100)) @ ''.'' @ [char_of (nat (48 + c div 10 mod 10)), char_of (nat (48 + c mod 10))]"

fun FormatFloat2 :: "float64 \<Rightarrow> string" where
  "FormatFloat2 F_NaN = ''NaN''"
| "FormatFloat2 (F_Inf neg) = (if neg then ''-Inf'' else ''+Inf'')"
| "FormatFloat2 (F_Fin m e) =
     (if m < 0 then ''-'' else []) @
     formatCents (if e \<ge> 0 then 100 * \<bar>m\<bar> * 2 ^ nat e else roundHalfEven (100 * \<bar>m\<bar>) (2 ^ nat (- e)))"

text \<open>\<open>path.Clean\<close> on the elements of a path: \<open>stack\<close> holds those kept, the last one first.\<close>

definition slash :: char where
  "slash = CHR ''/''"

fun cleanElems :: "bool \<Rightarrow> string list \<Rightarrow> string list \<Rightarrow> string list" where
  "cleanElems rooted stack [] = rev stack"
| "cleanElems rooted stack (e # es) =
     (if e = [] \<or> e = ''.'' then cleanElems rooted stack es
      else if e = ''..'' then
        (case stack of
           [] \<Rightarrow> cleanElems rooted (if rooted then [] else [''..'']) es
         | tp # rest \<Rightarrow> if tp = ''..'' then cleanElems rooted (''..'' # stack) es
                         else cleanElems rooted rest es)
      else cleanElems rooted (e # stack) es)"

definition pathClean :: "string \<Rightarrow> string" where
  "pathClean p =
     (let rooted = (p \<noteq> [] \<and> hd p = slash);
          es = cleanElems rooted [] (splitOn [slash] [] p)
      in if rooted then slash # joinWith [slash] es
         else if es = [] then ''.'' else joinWith [slash] es)"

definition pathJoin :: "string list \<Rightarrow> string" where
  "pathJoin elems =
     (let es = filter (\<lambda>e. e \<noteq> []) elems in if es = [] then [] else pathClean (joinWith [slash] es))"

section \<open>Analysis\<close>

definition SpamHeader :: string where
  "SpamHeader = ''X-Spam-Score''"

record RspamdMetadata =
  metaIP :: string
  metaFlags :: "string list"
  metaFrom :: string
  metaRcpt :: "string list"
  metaUser :: string

record RspamdResponse =
  Skipped :: bool
  Score :: float64
  respAction :: string
  respSubject :: string
  smtpMessage :: "string option"
  DkimSignature :: "string option"

definition metadataOf :: "string \<Rightarrow> Session \<Rightarrow> RspamdMetadata" where
  "metadataOf ip s =
     \<lparr>metaIP = ip, metaFlags = [''body_block'', ''milter''], metaFrom = rAddress (sFrom s),
      metaRcpt = Map (sTo s) rAddress,
      metaUser = (if rLocal (sFrom s) then username s else [])\<rparr>"

type_synonym verifier = "RspamdMetadata \<Rightarrow> Message \<Rightarrow> (RspamdResponse \<times> Message) option"

text \<open>The switch on the action of the response, after the header of the score was removed.\<close>

definition actOn :: "msglib \<Rightarrow> RspamdResponse \<Rightarrow> Message \<Rightarrow> (relayError + float64 \<times> int) \<times> Message" where
  "actOn lib resp mail =
     (let a = respAction resp
      in if a = ''reject'' then (Inl (SMTPError 550), mail)
         else if a = ''soft reject'' then (Inl (SMTPError 450), mail)
         else if a = ''add header'' then
           (Inr (Score resp, 0), mail\<lparr>msgHeader := hAdd lib SpamHeader (FormatFloat2 (Score resp)) (msgHeader mail)\<rparr>)
         else if a = ''rewrite subject'' then
           (Inr (Score resp, 0), mail\<lparr>msgHeader := hSet lib ''Subject'' (respSubject resp) (msgHeader mail)\<rparr>)
         else if a = ''greylist'' then (Inr (Score resp, minutes 15), mail)
         else if a = ''no action'' then (Inr (Score resp, 0), mail)
         else (Inl (Panicked UnknownAction), mail))"

definition addDkim :: "msglib \<Rightarrow> string option \<Rightarrow> Message \<Rightarrow> Message" where
  "addDkim lib sig mail =
     (case sig of
        None \<Rightarrow> mail
      | Some v \<Rightarrow> mail\<lparr>msgHeader :=
          hAdd lib ''DKIM-Signature'' (ReplaceAll v [CHR 0x0A, CHR 0x09] '' '') (msgHeader mail)\<rparr>)"

definition Analyze :: "msglib \<Rightarrow> verifier \<Rightarrow> string \<Rightarrow> Session \<Rightarrow> Message \<Rightarrow> (relayError + float64 \<times> int) \<times> Message" where
  "Analyze lib verify ip s email =
     (case verify (metadataOf ip s) email of
        None \<Rightarrow> (Inl errInternal, email)
      | Some (resp, mail) \<Rightarrow>
          if Skipped resp then (Inr (F_Fin 0 0, 0), mail)
          else let mail1 = addDkim lib (DkimSignature resp) mail
               in case smtpMessage resp of
                    Some _ \<Rightarrow> (Inl (SMTPError 550), mail1)
                  | None \<Rightarrow> actOn lib resp (mail1\<lparr>msgHeader := hDel lib SpamHeader (msgHeader mail1)\<rparr>))"

section \<open>Learning\<close>

text \<open>What \<open>learn\<close> uses of the system: the decoding of the subject, the time as a decimal
  number, and whether a file can be written.\<close>

record learnEnv =
  decodeHeader :: "string \<Rightarrow> string option"
  nowUnix :: string
  writeFile :: "string \<Rightarrow> string \<Rightarrow> bool"

definition learnPath :: "string \<Rightarrow> string \<Rightarrow> string \<Rightarrow> string \<Rightarrow> string \<Rightarrow> string" where
  "learnPath learnFolder folder address sub now = pathJoin [learnFolder, folder, address @ sub @ now]"

text \<open>The error, or the file that is written and what it holds. The client may be nil, which is
  found out last.\<close>

definition learn ::
  "msglib \<Rightarrow> learnEnv \<Rightarrow> string option \<Rightarrow> string \<Rightarrow> Session \<Rightarrow> Message \<Rightarrow> relayError + string \<times> string" where
  "learn lib env client folder s email =
     (case renderMessage lib email of
        None \<Rightarrow> Inl OtherError
      | Some buf \<Rightarrow>
          (case decodeHeader env (hGet lib ''Subject'' (msgHeader email)) of
             None \<Rightarrow> Inl OtherError
           | Some sub \<Rightarrow>
               (case sTo s of
                  [] \<Rightarrow> Inl (Panicked NoRecipient)
                | r # _ \<Rightarrow>
                    (case client of
                       None \<Rightarrow> Inl (Panicked NilRspamd)
                     | Some learnFolder \<Rightarrow>
                         let p = learnPath learnFolder folder (rAddress r) sub (nowUnix env)
                         in if writeFile env p buf then Inr (p, buf) else Inl OtherError))))"

definition LearnSpam :: "msglib \<Rightarrow> learnEnv \<Rightarrow> string option \<Rightarrow> Session \<Rightarrow> Message \<Rightarrow> relayError + string \<times> string" where
  "LearnSpam lib env client s email = learn lib env client ''spam'' s email"

definition LearnHam :: "msglib \<Rightarrow> learnEnv \<Rightarrow> string option \<Rightarrow> Session \<Rightarrow> Message \<Rightarrow> relayError + string \<times> string" where
  "LearnHam lib env client s email = learn lib env client ''ham'' s email"

section \<open>Paths\<close>

lemma splitOn_char_hit [simp]: "splitOn [c] cur (c # s) = cur # splitOn [c] [] s"
  using splitOn_hit [of "[c]" cur s] by simp

lemma splitOn_char_miss: "c \<noteq> d \<Longrightarrow> splitOn [c] cur (d # s) = splitOn [c] (cur @ [d]) s"
  by (subst splitOn.simps) simp

lemma splitOn_elem: "c \<notin> set a \<Longrightarrow> splitOn [c] cur (a @ c # b) = (cur @ a) # splitOn [c] [] b"
  by (induction a arbitrary: cur) (simp_all add: splitOn_char_miss)

lemma splitOn_last: "c \<notin> set a \<Longrightarrow> splitOn [c] cur a = [cur @ a]"
  by (induction a arbitrary: cur) (simp_all add: splitOn_char_miss)

text \<open>An element that \<open>path.Clean\<close> keeps as it is.\<close>

definition plainElem :: "string \<Rightarrow> bool" where
  "plainElem e \<longleftrightarrow> e \<noteq> [] \<and> e \<noteq> ''.'' \<and> e \<noteq> ''..'' \<and> slash \<notin> set e"

lemma cleanElems_plain [simp]:
  "plainElem e \<Longrightarrow> cleanElems rooted stack (e # es) = cleanElems rooted (e # stack) es"
  by (simp add: plainElem_def)

lemma hd_plainElem: "plainElem e \<Longrightarrow> hd e \<noteq> slash"
  by (cases e) (auto simp: plainElem_def)

lemma pathClean_relative:
  assumes "plainElem f"
  shows "pathClean (f @ slash # rest) =
    (let es = cleanElems False [f] (splitOn [slash] [] rest)
     in if es = [] then ''.'' else joinWith [slash] es)"
proof -
  have "f \<noteq> []" "slash \<notin> set f" using assms by (auto simp: plainElem_def)
  then show ?thesis
    using hd_plainElem [OF assms] cleanElems_plain [OF assms, of False "[]"]
    by (simp add: pathClean_def splitOn_elem [of slash f "[]"] del: cleanElems.simps(2))
qed

lemma learnPath_relative:
  assumes "plainElem folder" and "name \<noteq> []"
  shows "learnPath [] folder address sub now =
    (if address @ sub @ now = [] then pathClean folder else pathClean (folder @ slash # address @ sub @ now))"
  using assms by (simp add: learnPath_def pathJoin_def plainElem_def Let_def)

section \<open>Properties\<close>

text \<open>the score header of a mail is the server's own: once the spam filter has analysed a
  mail, it has the header exactly when the filter asked for it, whatever the sender put
  there. The laws are those of a header: \<open>Del\<close> removes a field, \<open>Add\<close> adds one, \<open>Set\<close> of
  another field leaves it alone.\<close>

theorem spam_header_is_ours:
  assumes "\<And>h. \<not> hHas lib SpamHeader (hDel lib SpamHeader h)"
    and "\<And>v h. hHas lib SpamHeader (hAdd lib SpamHeader v h)"
    and "\<And>v h. hHas lib SpamHeader (hSet lib ''Subject'' v h) = hHas lib SpamHeader h"
    and "verify (metadataOf ip s) email = Some (resp, mail)" and "\<not> Skipped resp"
    and "Analyze lib verify ip s email = (Inr res, mail')"
  shows "hHas lib SpamHeader (msgHeader mail') \<longleftrightarrow> respAction resp = ''add header''"
  using assms(4-6) assms(1-3)
  by (auto simp: Analyze_def actOn_def Let_def split: option.splits if_splits)

definition demoLib :: msglib where
  "demoLib = \<lparr>hAdd = \<lambda>k v h. (k, [v]) # h, hSet = \<lambda>k v h. (k, [v]) # filter (\<lambda>e. fst e \<noteq> k) h,
     hDel = \<lambda>k h. filter (\<lambda>e. fst e \<noteq> k) h, hHas = \<lambda>k h. k \<in> fst ` set h,
     hGet = \<lambda>k h. case map_of h k of Some (v # _) \<Rightarrow> v | _ \<Rightarrow> [],
     readMessage = \<lambda>r. Some \<lparr>msgHeader = [], msgBody = r\<rparr>, renderMessage = \<lambda>m. Some (msgBody m)\<rparr>"

lemma demoLib_laws:
  "\<not> hHas demoLib k (hDel demoLib k h)" "hHas demoLib k (hAdd demoLib k v h)"
  "k \<noteq> k' \<Longrightarrow> hHas demoLib k (hSet demoLib k' v h) = hHas demoLib k h"
  by (force simp: demoLib_def)+

definition demoResponse :: RspamdResponse where
  "demoResponse = \<lparr>Skipped = False, Score = F_Fin 7 0, respAction = ''no action'', respSubject = [],
     smtpMessage = None, DkimSignature = None\<rparr>"

theorem spam_header_is_ours_witness:
  "\<not> hHas demoLib SpamHeader (msgHeader (snd (Analyze demoLib (\<lambda>_ m. Some (demoResponse, m)) [] newSession
     \<lparr>msgHeader = [(SpamHeader, [''0''])], msgBody = []\<rparr>)))"
proof -
  let ?mail = "\<lparr>msgHeader = [(SpamHeader, [''0''])], msgBody = []\<rparr>"
  have a: "Analyze demoLib (\<lambda>_ m. Some (demoResponse, m)) [] newSession ?mail =
      (Inr (F_Fin 7 0, 0), snd (Analyze demoLib (\<lambda>_ m. Some (demoResponse, m)) [] newSession ?mail))"
    by (simp add: Analyze_def actOn_def addDkim_def demoResponse_def)
  have "hHas demoLib SpamHeader (msgHeader (snd (Analyze demoLib (\<lambda>_ m. Some (demoResponse, m)) [] newSession ?mail)))
      \<longleftrightarrow> respAction demoResponse = ''add header''"
    by (rule spam_header_is_ours [OF demoLib_laws(1,2) demoLib_laws(3) _ _ a])
      (simp_all add: SpamHeader_def demoResponse_def)
  then show ?thesis by (simp add: demoResponse_def)
qed

text \<open>what the analysis of a mail can end in: the error of the service, a temporary or a
  permanent refusal, or a score with a wait of a quarter of an hour for a mail that is
  greylisted and none for any other; it panics exactly on an action it does not know.\<close>

theorem analyze_outcomes:
  "case fst (Analyze lib verify ip s email) of
     Inl e \<Rightarrow> e \<in> {SMTPError 451, SMTPError 450, SMTPError 550} \<or>
       (e = Panicked UnknownAction \<and>
        (\<exists>resp mail. verify (metadataOf ip s) email = Some (resp, mail) \<and>
           respAction resp \<notin> {''reject'', ''soft reject'', ''add header'', ''rewrite subject'', ''greylist'', ''no action''}))
   | Inr (score, wait) \<Rightarrow>
       \<exists>resp mail. verify (metadataOf ip s) email = Some (resp, mail) \<and>
         wait = (if \<not> Skipped resp \<and> respAction resp = ''greylist'' then minutes 15 else 0)"
  by (auto simp: Analyze_def actOn_def errInternal_def Let_def split: option.splits)

text \<open>where a learned mail is written. With a recipient and a subject that hold no slash, in
  the folder of the spam or of the ham; but the decoded subject is part of the path, and one
  that climbs three levels leaves the folder.\<close>

theorem learn_path:
  assumes "folder \<in> {''spam'', ''ham''}" and "slash \<notin> set address" and "plainElem (sub @ now)" and "address \<noteq> []"
    and "plainElem (address @ sub @ now)" and "plainElem address"
  shows "learnPath [] folder address sub now = folder @ ''/'' @ address @ sub @ now \<and>
    learnPath [] folder address (''/../../../'' @ sub) now = ''../'' @ sub @ now"
proof -
  have f: "plainElem folder" using assms(1) by (auto simp: plainElem_def slash_def)
  have s: "CHR ''/'' = slash" by (simp add: slash_def)
  have 1: "splitOn [slash] [] (address @ sub @ now) = [address @ sub @ now]"
    using assms(5) by (simp add: splitOn_last plainElem_def)
  have dd: "slash \<notin> set ''..''" by (simp add: slash_def)
  have sn: "slash \<notin> set (sub @ now)" using assms(3) by (simp add: plainElem_def)
  have 2: "splitOn [slash] [] (address @ (''/../../../'' @ sub) @ now) =
      [address, ''..'', ''..'', ''..'', sub @ now]"
    using splitOn_elem [OF assms(2), of "[]" "''../../../'' @ sub @ now"]
      splitOn_elem [OF dd, of "[]" "''../../'' @ sub @ now"] splitOn_elem [OF dd, of "[]" "''../'' @ sub @ now"]
      splitOn_elem [OF dd, of "[]" "sub @ now"] splitOn_last [OF sn, of "[]"]
    by (simp add: s)
  have "learnPath [] folder address sub now = folder @ ''/'' @ address @ sub @ now"
    using learnPath_relative [OF f, of "[slash]" address sub now] pathClean_relative [OF f] 1 assms(4,5)
    by (simp add: s) (simp add: plainElem_def)
  moreover have "learnPath [] folder address (''/../../../'' @ sub) now = ''../'' @ sub @ now"
    using learnPath_relative [OF f, of "[slash]" address "''/../../../'' @ sub" now]
      pathClean_relative [OF f, of "address @ (''/../../../'' @ sub) @ now"] 2 assms(3,4,6) f
    by (simp add: s) (simp add: plainElem_def)
  ultimately show ?thesis by blast
qed

theorem learn_path_witness:
  "learnPath [] ''spam'' ''bob@a.org'' ''/../../../evil'' ''17'' = ''../evil17''"
  using learn_path [of "''spam''" "''bob@a.org''" "''evil''" "''17''"]
  by (simp add: plainElem_def slash_def)

end
