(* ===== verification/Relay_Session.thy ===== *)
theory Relay_Session
  imports Relay_Types
begin

text \<open>
  The commands of an SMTP session that decide who may send what to whom:
  \<open>src/relay/session.go\<close> without \<open>Data\<close>, which is in the theory \<open>Relay_Data\<close>.

  The SMTP library calls the methods of a session as the commands of the client come. No order
  is assumed of them here: \<open>smtpRun\<close> takes any list of commands, so that a second \<open>MAIL\<close>, an
  \<open>AUTH\<close> or a \<open>RSET\<close> may come at any time. It also keeps whether the last \<open>MAIL\<close> was refused,
  which the session itself forgets.
\<close>

section \<open>Commands\<close>

text \<open>\<open>Session.Auth\<close>: the domains are tried in the order \<open>ds\<close>, until one accepts. \<open>limited\<close> is what
  the rate limiter answers to a failed login.\<close>

fun tryDomains :: "world \<Rightarrow> Backend \<Rightarrow> string \<Rightarrow> string \<Rightarrow> string \<Rightarrow> string list \<Rightarrow> bool" where
  "tryDomains w b local user password [] = False"
| "tryDomains w b local user password (d # ds) =
     (case Domains b d of
        None \<Rightarrow> tryDomains w b local user password ds
      | Some cfg \<Rightarrow> VerifyUser w cfg local d user password \<or> tryDomains w b local user password ds)"

datatype authReply = Accepted | Rejected | Refused

definition Auth ::
  "world \<Rightarrow> Backend \<Rightarrow> string \<Rightarrow> bool \<Rightarrow> string list \<Rightarrow> string \<Rightarrow> string \<Rightarrow> Session \<Rightarrow> authReply \<times> Session" where
  "Auth w b local limited ds user password s =
     (let s' = (if tryDomains w b local user password ds then s\<lparr>username := user\<rparr> else s)
      in if username s' = [] then ((if limited then Rejected else Refused), s')
         else (Accepted, s'))"

definition Mail :: "Backend \<Rightarrow> string \<Rightarrow> Session \<Rightarrow> relayError option \<times> Session" where
  "Mail b frm s =
     (let local = Domains b (snd (ParseAddress frm)) \<noteq> None;
          s' = s\<lparr>sFrom := noRcpt\<lparr>rUser := fst (ParseAddress frm), rDomain := snd (ParseAddress frm),
                 rAddress := frm, rLocal := local\<rparr>\<rparr>
      in if local \<and> username s \<noteq> frm then (Some ErrAuthRequired, s') else (None, s'))"

definition localRcpt :: "world \<Rightarrow> Config \<Rightarrow> UserData \<Rightarrow> RelayRcpt \<Rightarrow> relayError + RelayRcpt" where
  "localRcpt w cfg data r =
     (if Username data \<in> set AdminEmails then
        (case GetKey w (adminCrypto (cfgAdmin cfg)) of
           Inl _ \<Rightarrow> Inl (Panicked KeyFile)
         | Inr key \<Rightarrow> Inr (r\<lparr>rUser := adminUser (cfgAdmin cfg), rFolder := adminFolder (cfgAdmin cfg),
             rKey := key, rAddress := adminUser (cfgAdmin cfg) @ ''@'' @ rDomain r\<rparr>))
      else case dataGroup data of
             Some g \<Rightarrow> Inr (r\<lparr>rGroup := Some g\<rparr>)
           | None \<Rightarrow> Inr (r\<lparr>rUser := Username data, rFolder := Folder data, rKey := dataKey data,
               rAddress := Username data @ ''@'' @ rDomain r\<rparr>))"

definition rcpt :: "world \<Rightarrow> Backend \<Rightarrow> Session \<Rightarrow> string \<Rightarrow> relayError + RelayRcpt" where
  "rcpt w b s to =
     (let r = noRcpt\<lparr>rUser := fst (ParseAddress to), rDomain := snd (ParseAddress to), rAddress := to\<rparr>
      in case Domains b (rDomain r) of
           None \<Rightarrow> if rLocal (sFrom s) then Inr r else Inl (SMTPError 551)
         | Some cfg \<Rightarrow>
             (case Exists w cfg (rAddress (sFrom s)) (rUser r) of
                Inl _ \<Rightarrow> Inl (Panicked KeyFile)
              | Inr None \<Rightarrow> Inl (SMTPError 550)
              | Inr (Some data) \<Rightarrow> localRcpt w cfg data (r\<lparr>rLocal := True\<rparr>)))"

definition RcptCmd :: "world \<Rightarrow> Backend \<Rightarrow> string \<Rightarrow> Session \<Rightarrow> relayError option \<times> Session" where
  "RcptCmd w b to s =
     (case rcpt w b s to of
        Inl e \<Rightarrow> (Some e, s)
      | Inr r \<Rightarrow> (None, s\<lparr>sTo := sTo s @ [r]\<rparr>))"

definition Reset :: "Session \<Rightarrow> Session" where
  "Reset s = s\<lparr>sTo := []\<rparr>"

section \<open>Sessions\<close>

text \<open>The commands of a client, with what the network, the rate limiter and the order of the map
  of domains add to them. \<open>DATA\<close> is in the theory \<open>Relay_Data\<close>, where \<open>Data_is_command\<close> shows
  that all it does to the session is to change the recipients.\<close>

datatype smtpCommand =
    AuthCommand string bool "string list" string string
  | MailCommand string
  | RcptCommand string
  | DataCommand "RelayRcpt list"
  | ResetCommand

fun smtp_step :: "world \<Rightarrow> Backend \<Rightarrow> smtpCommand \<Rightarrow> bool \<times> Session \<Rightarrow> bool \<times> Session" where
  "smtp_step w b (AuthCommand local limited ds user password) (refused, s) =
     (refused, snd (Auth w b local limited ds user password s))"
| "smtp_step w b (MailCommand frm) (refused, s) =
     (case Mail b frm s of (err, s') \<Rightarrow> (err \<noteq> None, s'))"
| "smtp_step w b (RcptCommand to) (refused, s) = (refused, snd (RcptCmd w b to s))"
| "smtp_step w b (DataCommand to) (refused, s) = (refused, s\<lparr>sTo := to\<rparr>)"
| "smtp_step w b ResetCommand (refused, s) = (refused, Reset s)"

definition smtpRun :: "world \<Rightarrow> Backend \<Rightarrow> smtpCommand list \<Rightarrow> bool \<times> Session" where
  "smtpRun w b cmds = foldl (\<lambda>st c. smtp_step w b c st) (False, newSession) cmds"

text \<open>What stands behind a user name: one of the commands is an \<open>AUTH\<close> with exactly that name and
  a password that the configuration of a domain, one of those that were tried, accepted. When
  that configuration is one the program parses, the domain is the one of the user name.\<close>

definition authenticated :: "world \<Rightarrow> Backend \<Rightarrow> smtpCommand list \<Rightarrow> string \<Rightarrow> bool" where
  "authenticated w b cmds user \<longleftrightarrow>
     (\<exists>local limited ds password d cfg.
        AuthCommand local limited ds user password \<in> set cmds \<and> d \<in> set ds \<and> Domains b d = Some cfg \<and>
        VerifyUser w cfg local d user password \<and> (configOk cfg \<longrightarrow> d = domainOf user))"

definition senderOk :: "world \<Rightarrow> Backend \<Rightarrow> smtpCommand list \<Rightarrow> RelayRcpt \<Rightarrow> bool" where
  "senderOk w b cmds frm \<longleftrightarrow>
     (rLocal frm \<longrightarrow> Domains b (domainOf (rAddress frm)) \<noteq> None \<and>
        (rAddress frm \<noteq> [] \<longrightarrow> authenticated w b cmds (rAddress frm)))"

definition rcptOk :: "Backend \<Rightarrow> Session \<Rightarrow> RelayRcpt \<Rightarrow> bool" where
  "rcptOk b s r \<longleftrightarrow>
     rLocal r = (Domains b (rDomain r) \<noteq> None) \<and> (rLocal r \<or> rLocal (sFrom s))"

definition sessionOk :: "world \<Rightarrow> Backend \<Rightarrow> smtpCommand list \<Rightarrow> bool \<times> Session \<Rightarrow> bool" where
  "sessionOk w b cmds st \<longleftrightarrow>
     (case st of (refused, s) \<Rightarrow>
        (username s \<noteq> [] \<longrightarrow> authenticated w b cmds (username s)) \<and>
        (\<not> refused \<longrightarrow> senderOk w b cmds (sFrom s)))"

lemma tryDomains_verified:
  "tryDomains w b local user password ds \<Longrightarrow>
   \<exists>d \<in> set ds. \<exists>cfg. Domains b d = Some cfg \<and> VerifyUser w cfg local d user password"
  by (induction ds) (auto split: option.splits)

lemma authenticated_mono: "authenticated w b cmds u \<Longrightarrow> authenticated w b (cmds @ [c]) u"
  unfolding authenticated_def set_append by blast

lemma senderOk_mono: "senderOk w b cmds frm \<Longrightarrow> senderOk w b (cmds @ [c]) frm"
  by (auto simp: senderOk_def authenticated_mono)

lemma tryDomains_authenticated:
  assumes "tryDomains w b local user password ds"
  shows "authenticated w b (cmds @ [AuthCommand local limited ds user password]) user"
proof -
  obtain d cfg where v: "d \<in> set ds" "Domains b d = Some cfg" "VerifyUser w cfg local d user password"
    using tryDomains_verified [OF assms] by auto
  then have "configOk cfg \<longrightarrow> d = domainOf user" using au.verify_domain by blast
  with v show ?thesis unfolding authenticated_def set_append list.set by blast
qed

lemma Auth_keeps:
  "sFrom (snd (Auth w b local limited ds user password s)) = sFrom s"
  "sTo (snd (Auth w b local limited ds user password s)) = sTo s"
  "username (snd (Auth w b local limited ds user password s)) =
     (if tryDomains w b local user password ds then user else username s)"
  by (auto simp: Auth_def Let_def)

lemma Mail_keeps:
  assumes "Mail b frm s = (err, s')"
  shows "username s' = username s" "sTo s' = sTo s"
    "err = None \<Longrightarrow> rLocal (sFrom s') \<Longrightarrow>
       rAddress (sFrom s') = username s \<and> Domains b (domainOf (username s)) \<noteq> None"
  using assms by (auto simp: Mail_def Let_def split: if_splits)

lemma localRcpt_keeps:
  "localRcpt w cfg data r = Inr r' \<Longrightarrow> rLocal r' = rLocal r \<and> rDomain r' = rDomain r"
  by (auto simp: localRcpt_def split: if_splits sum.splits option.splits)

lemma rcpt_ok:
  assumes "rcpt w b s to = Inr r"
  shows "rcptOk b s r" "rDomain r = domainOf to"
  using assms
  by (auto simp: rcpt_def Let_def rcptOk_def noRcpt_def dest!: localRcpt_keeps
      split: option.splits sum.splits if_splits)

lemma RcptCmd_keeps:
  "username (snd (RcptCmd w b to s)) = username s" "sFrom (snd (RcptCmd w b to s)) = sFrom s"
  by (auto simp: RcptCmd_def split: sum.splits)

lemma RcptCmd_sender:
  "RcptCmd w b to s = (None, s') \<Longrightarrow> Domains b (domainOf to) = None \<Longrightarrow> rLocal (sFrom s)"
  by (auto simp: RcptCmd_def rcpt_def Let_def split: if_splits)

lemma sessionOk_step:
  assumes "sessionOk w b cmds st"
  shows "sessionOk w b (cmds @ [c]) (smtp_step w b c st)"
proof (cases st)
  case st: (Pair refused s)
  have u: "username s \<noteq> [] \<longrightarrow> authenticated w b (cmds @ [c]) (username s)"
    and f: "\<not> refused \<longrightarrow> senderOk w b (cmds @ [c]) (sFrom s)"
    using assms authenticated_mono senderOk_mono by (auto simp: st sessionOk_def)
  show ?thesis
  proof (cases c)
    case (AuthCommand local limited ds user password)
    then show ?thesis using u f tryDomains_authenticated
      by (auto simp: st sessionOk_def Auth_keeps)
  next
    case (MailCommand frm)
    obtain err s' where m: "Mail b frm s = (err, s')" by fastforce
    show ?thesis using u Mail_keeps [OF m] by (auto simp: st MailCommand m sessionOk_def senderOk_def)
  qed (use u f in \<open>auto simp: st sessionOk_def RcptCmd_keeps Reset_def\<close>)
qed

lemma sessionOk_run: "sessionOk w b cmds (smtpRun w b cmds)"
proof (induction cmds rule: rev_induct)
  case Nil
  show ?case by (simp add: smtpRun_def sessionOk_def newSession_def senderOk_def noRcpt_def)
next
  case (snoc c cmds)
  then show ?case using sessionOk_step by (simp add: smtpRun_def)
qed

section \<open>Properties\<close>

text \<open>C1: the server is no open relay. Whatever commands a client has sent and in whatever order,
  \<open>RCPT\<close> accepts a recipient of another server only in three cases: the last \<open>MAIL\<close> was refused
  (the theorem \<open>refused_mail_opens_relay\<close>); or the sender is an address of this server for which
  the client gave, in this session, an \<open>AUTH\<close> with exactly that address and a password that a
  domain of this server verified; or the sender is empty and a domain without a name is
  configured (the theorem \<open>nameless_domain_opens_relay\<close> of \<open>Atmail_Config\<close>).\<close>

theorem no_open_relay:
  assumes "smtpRun w b cmds = (refused, s)" and "RcptCmd w b to s = (None, s')"
    and "Domains b (domainOf to) = None"
  shows "refused \<or>
    (rLocal (sFrom s) \<and> Domains b (domainOf (rAddress (sFrom s))) \<noteq> None \<and>
     authenticated w b cmds (rAddress (sFrom s))) \<or>
    (rAddress (sFrom s) = [] \<and> Domains b [] \<noteq> None)"
  using sessionOk_run [of w b cmds] RcptCmd_sender [OF assms(2,3)]
  by (auto simp: assms(1) sessionOk_def senderOk_def domainOf_def)

definition demoBackend :: Backend where
  "demoBackend = \<lparr>Domains = [''a.org'' \<mapsto> demoConfig], Rspamd = None, Filters = []\<rparr>"

definition demoCommands :: "smtpCommand list" where
  "demoCommands =
     [AuthCommand [] False [''a.org''] ''bob@a.org'' ''pw'', MailCommand ''bob@a.org'']"

theorem no_open_relay_witness:
  "RcptCmd emptyWorld demoBackend ''x@b.org'' (snd (smtpRun emptyWorld demoBackend demoCommands)) =
     (None, snd (smtpRun emptyWorld demoBackend (demoCommands @ [RcptCommand ''x@b.org'']))) \<and>
   authenticated emptyWorld demoBackend demoCommands ''bob@a.org''"
proof -
  let ?s = "newSession\<lparr>username := ''bob@a.org'', sFrom := noRcpt\<lparr>rUser := ''bob'', rDomain := ''a.org'',
    rAddress := ''bob@a.org'', rLocal := True\<rparr>\<rparr>"
  have run: "smtpRun emptyWorld demoBackend demoCommands = (False, ?s)"
    by (simp add: smtpRun_def demoCommands_def Auth_def Mail_def newSession_def demoBackend_def VerifyUser_def
        demoConfig_def emptyWorld_def ParseAddress_def domainOf_def)
  have r: "RcptCmd emptyWorld demoBackend ''x@b.org'' ?s =
    (None, snd (smtpRun emptyWorld demoBackend (demoCommands @ [RcptCommand ''x@b.org''])))"
    using run by (simp add: smtpRun_def RcptCmd_def rcpt_def ParseAddress_def demoBackend_def domainOf_def)
  have "authenticated emptyWorld demoBackend demoCommands ''bob@a.org''"
    using no_open_relay [OF run r] by (simp add: demoBackend_def domainOf_def)
  with run r show ?thesis by simp
qed

text \<open>C39: \<open>Mail\<close> records the sender before it checks the login, and keeps it when the check
  fails: a session nobody logged in to, in which \<open>MAIL\<close> was refused for an address of this
  server, accepts recipients of other servers as soon as \<open>RCPT\<close> is let through.\<close>

theorem refused_mail_opens_relay:
  assumes "username s \<noteq> frm" and "Domains b (domainOf frm) \<noteq> None" and "Domains b (domainOf to) = None"
  shows "fst (Mail b frm s) = Some ErrAuthRequired \<and>
    fst (RcptCmd w b to (snd (Mail b frm s))) = None"
  using assms by (auto simp: Mail_def RcptCmd_def rcpt_def Let_def)

theorem refused_mail_opens_relay_witness:
  "fst (Mail demoBackend ''bob@a.org'' newSession) = Some ErrAuthRequired \<and>
   fst (RcptCmd emptyWorld demoBackend ''x@b.org'' (snd (Mail demoBackend ''bob@a.org'' newSession))) = None"
  by (rule refused_mail_opens_relay) (simp_all add: newSession_def demoBackend_def domainOf_def)

end
