(* ===== verification/Relay_Data.thy ===== *)
theory Relay_Data
  imports Relay_Rspamd Relay_Session
begin

text \<open>
  The \<open>DATA\<close> command: \<open>Session.Data\<close> of \<open>src/relay/session.go\<close> with \<open>checkFilters\<close> and
  \<open>applyResult\<close> of \<open>src/relay/filter.go\<close>. It composes the spam filter (\<open>Relay_Rspamd\<close>), the
  user's filters (\<open>Filter_Eval\<close>) and the recipients (\<open>Relay_Session\<close>), and ends in an error or
  in the mail it hands to \<open>send\<close>.

  What the commands run on is the record \<open>env\<close>; \<open>eRange\<close> is the order in which a range over
  a map of headers visits its keys.
\<close>

record env =
  eSame :: "evalue \<Rightarrow> evalue \<Rightarrow> bool"
  eLib :: msglib
  eLearn :: learnEnv
  eVerify :: verifier
  eIP :: string
  eRange :: "(string \<rightharpoonup> string) \<Rightarrow> string list"

section \<open>Filters\<close>

text \<open>The filters are tried on clones of one context; the clones share the map of headers, so
  that a filter that fails leaves in it the headers it set.\<close>

fun checkFilters :: "(evalue \<Rightarrow> evalue \<Rightarrow> bool) \<Rightarrow> EvaluationContext \<Rightarrow> (string \<times> stmt list) list \<Rightarrow> goPanic + Result" where
  "checkFilters same ctx [] = Inr emptyResult"
| "checkFilters same ctx ((name, f) # fs) =
     (let ctx1 = ctx\<lparr>LoggerKey := name\<rparr>
      in case treeEval same ctx1 f of
           Inl p \<Rightarrow> Inl p
         | Inr (Some res, _) \<Rightarrow> Inr res
         | Inr (None, sub) \<Rightarrow>
             checkFilters same
               (ctx1\<lparr>ctxResult := (ctxResult ctx1)\<lparr>ModifyHeader := ModifyHeader (ctxResult sub)\<rparr>\<rparr>) fs)"

text \<open>What \<open>Data\<close> works on: the session, the mail, the time to wait, and the files written for
  the spam filter to learn from.\<close>

record dataState =
  dSession :: Session
  dMail :: Message
  dWait :: int
  dLearned :: "(string \<times> string) list"

definition keepLearned :: "relayError + string \<times> string \<Rightarrow> dataState \<Rightarrow> relayError option \<times> dataState" where
  "keepLearned r d =
     (case r of Inl e \<Rightarrow> (Some e, d) | Inr f \<Rightarrow> (None, d\<lparr>dLearned := dLearned d @ [f]\<rparr>))"

text \<open>The switch on the action: the error, if any, the state, and whether \<open>applyResult\<close> goes on.\<close>

definition applyAction :: "env \<Rightarrow> Backend \<Rightarrow> Result \<Rightarrow> dataState \<Rightarrow> relayError option \<times> dataState \<times> bool" where
  "applyAction e b res d =
     (case resAction res of
        ActionAccept \<Rightarrow>
          (case keepLearned (LearnHam (eLib e) (eLearn e) (Rspamd b) (dSession d) (dMail d)) d of
             (err, d') \<Rightarrow> (err, d', err = None))
      | ActionContinue \<Rightarrow> (None, d, True)
      | ActionDiscard \<Rightarrow> (None, d, False)
      | ActionQuarantine \<Rightarrow> (None, d\<lparr>dWait := max (dWait d) (minutes 15)\<rparr>, True)
      | ActionReject \<Rightarrow> (Some (SMTPError 550), d, False)
      | ActionTempFail \<Rightarrow> (Some (SMTPError 450), d, False)
      | ActionConnectionFail \<Rightarrow> (Some (Panicked UnknownAction), d, False))"

definition forwardTo :: "string \<Rightarrow> RelayRcpt" where
  "forwardTo to = noRcpt\<lparr>rUser := fst (ParseAddress to), rDomain := snd (ParseAddress to), rAddress := to\<rparr>"

text \<open>The recipients after a result: those it removes taken out, those it adds appended, and all
  of them moved to the mailbox it names.\<close>

definition changeRcpts :: "Result \<Rightarrow> RelayRcpt list \<Rightarrow> RelayRcpt list" where
  "changeRcpts res tos =
     (let kept = filter (\<lambda>to. rAddress to \<notin> set (RemoveRecipient res)) tos;
          all = kept @ map forwardTo (AddRecipient res)
      in case Mailbox res of None \<Rightarrow> all | Some m \<Rightarrow> map (\<lambda>to. to\<lparr>rFolder := m\<rparr>) all)"

definition changeMail :: "env \<Rightarrow> Result \<Rightarrow> Message \<Rightarrow> Message" where
  "changeMail e res mail =
     (let mail1 = mail\<lparr>msgHeader :=
            fold (\<lambda>k h. hSet (eLib e) k (the (ModifyHeader res k)) h) (eRange e (ModifyHeader res)) (msgHeader mail)\<rparr>
      in case Body res of None \<Rightarrow> mail1 | Some body \<Rightarrow> mail1\<lparr>msgBody := body\<rparr>)"

definition applyResult :: "env \<Rightarrow> Backend \<Rightarrow> Result \<Rightarrow> dataState \<Rightarrow> relayError option \<times> dataState" where
  "applyResult e b res d =
     (case applyAction e b res d of
        (err, d1, go) \<Rightarrow>
          if \<not> go then (err, d1)
          else (case (if Spam res
                      then keepLearned (LearnSpam (eLib e) (eLearn e) (Rspamd b) (dSession d1) (dMail d1)) d1
                      else (None, d1)) of
                  (Some err', d2) \<Rightarrow> (Some err', d2)
                | (None, d2) \<Rightarrow>
                    (None, d2\<lparr>dSession := (dSession d2)\<lparr>sTo := changeRcpts res (sTo (dSession d2))\<rparr>,
                              dMail := changeMail e res (dMail d2)\<rparr>)))"

section \<open>Data\<close>

text \<open>The folder of a subaddress is a folder of the inbox.\<close>

definition inboxFolder :: "RelayRcpt \<Rightarrow> RelayRcpt" where
  "inboxFolder to = (if rFolder to \<noteq> [] then to\<lparr>rFolder := ''INBOX/'' @ rFolder to\<rparr> else to)"

definition setRcpt :: "nat \<Rightarrow> RelayRcpt \<Rightarrow> dataState \<Rightarrow> (relayError + dataState)" where
  "setRcpt i to d =
     (if rFolder to = [] then Inr d
      else if i \<ge> length (sTo (dSession d)) then Inl (Panicked IndexRange)
      else Inr (d\<lparr>dSession := (dSession d)\<lparr>sTo := (sTo (dSession d))[i := inboxFolder to]\<rparr>\<rparr>))"

fun dataLoop :: "env \<Rightarrow> Backend \<Rightarrow> nat \<Rightarrow> RelayRcpt list \<Rightarrow> dataState \<Rightarrow> relayError option \<times> dataState" where
  "dataLoop e b i [] d = (None, d)"
| "dataLoop e b i (to # tos) d =
     (case setRcpt i to d of
        Inl err \<Rightarrow> (Some err, d)
      | Inr d1 \<Rightarrow>
          (case checkFilters (eSame e) (NewContext (sFrom (dSession d1)) (inboxFolder to) (dMail d1)) (Filters b) of
             Inl p \<Rightarrow> (Some (Panicked (FilterPanic p)), d1)
           | Inr res \<Rightarrow>
               (case applyResult e b res d1 of
                  (Some err, d2) \<Rightarrow> (Some err, d2)
                | (None, d2) \<Rightarrow> dataLoop e b (Suc i) tos d2)))"

text \<open>The call of \<open>send\<close> that the command leaves behind.\<close>

record Outgoing =
  outWait :: int
  outFrom :: string
  outTo :: "RelayRcpt list"
  outMail :: Message
  outScore :: "float64 option"

definition analyzed :: "env \<Rightarrow> Backend \<Rightarrow> Session \<Rightarrow> Message \<Rightarrow> (relayError + float64 option \<times> int) \<times> Message" where
  "analyzed e b s mail =
     (case Rspamd b of
        None \<Rightarrow> (Inr (None, 0), mail)
      | Some _ \<Rightarrow>
          (case Analyze (eLib e) (eVerify e) (eIP e) s mail of
             (Inr (score, wait), mail') \<Rightarrow> (Inr (Some score, wait), mail')
           | (Inl err, mail') \<Rightarrow> (Inl (case err of OtherError \<Rightarrow> errInternal | _ \<Rightarrow> err), mail')))"

definition Data :: "env \<Rightarrow> Backend \<Rightarrow> string \<Rightarrow> Session \<Rightarrow> (relayError + Outgoing) \<times> Session" where
  "Data e b raw s =
     (case readMessage (eLib e) raw of
        None \<Rightarrow> (Inl errInternal, s)
      | Some mail \<Rightarrow>
          (case analyzed e b s mail of
             (Inl err, _) \<Rightarrow> (Inl err, s)
           | (Inr (score, wait), mail1) \<Rightarrow>
               (case dataLoop e b 0 (sTo s) \<lparr>dSession = s, dMail = mail1, dWait = wait, dLearned = []\<rparr> of
                  (Some err, d) \<Rightarrow> (Inl err, dSession d)
                | (None, d) \<Rightarrow>
                    (Inr \<lparr>outWait = dWait d, outFrom = rAddress (sFrom (dSession d)),
                          outTo = sTo (dSession d), outMail = dMail d, outScore = score\<rparr>,
                     dSession d))))"

section \<open>What filters may do to a mail\<close>

definition resultClean :: "Result \<Rightarrow> bool" where
  "resultClean r \<longleftrightarrow>
     RemoveRecipient r = [] \<and> SenderAddress r = None \<and> Body r = None \<and>
     (Spam r \<longrightarrow> resAction r \<noteq> ActionContinue)"

lemma resultClean_grows: "resultClean r \<Longrightarrow> resultGrows r r' \<Longrightarrow> resultClean r'"
  by (auto simp: resultClean_def resultGrows_def)

lemma resultClean_empty: "resultClean emptyResult"
  by (simp add: resultClean_def emptyResult_def)

definition filtersOk :: "Backend \<Rightarrow> bool" where
  "filtersOk b \<longleftrightarrow> (\<forall>f \<in> set (Filters b). \<forall>st \<in> set (snd f). stmtOk st)"

lemma checkFilters_clean:
  assumes "ctxOk False ctx" and "actionsOk ctx" and "resultClean (ctxResult ctx)"
    and "\<forall>f \<in> set fs. \<forall>st \<in> set (snd f). stmtOk st" and "checkFilters same ctx fs = Inr res"
  shows "resultClean res"
  using assms
proof (induction same ctx fs rule: checkFilters.induct)
  case (1 same ctx)
  then show ?case using resultClean_empty by simp
next
  case (2 same ctx name f fs)
  let ?ctx = "ctx\<lparr>LoggerKey := name\<rparr>"
  have ok: "ctxOk False ?ctx" "actionsOk ?ctx" "resultClean (ctxResult ?ctx)" "\<forall>st \<in> set f. stmtOk st"
    using 2(2-5) by (auto simp: ctxOk_def actionsOk_def)
  note fine = treeEval_fine [where strict = False, OF ok(1,2,4), of same, simplified]
  show ?case
  proof (cases "treeEval same ?ctx f")
    case (Inl p)
    with 2(6) show ?thesis by simp
  next
    case (Inr r)
    obtain o' sub where r: "r = (o', sub)" by (cases r)
    then have g: "resultGrows (ctxResult ?ctx) (ctxResult sub)" and o: "o' = None \<or> o' = Some (ctxResult sub)"
      using fine Inr by (auto simp: ctxGrows_def)
    show ?thesis
    proof (cases o')
      case (Some r')
      then have "r' = ctxResult sub" using o by simp
      with Some Inr r 2(6) show ?thesis using resultClean_grows [OF ok(3) g] by simp
    next
      case None
      let ?ctx' = "?ctx\<lparr>ctxResult := (ctxResult ?ctx)\<lparr>ModifyHeader := ModifyHeader (ctxResult sub)\<rparr>\<rparr>"
      have "checkFilters same ?ctx' fs = Inr res" using 2(6) None Inr r by simp
      moreover have "ctxOk False ?ctx'" "actionsOk ?ctx'" "resultClean (ctxResult ?ctx')"
        using ok by (auto simp: ctxOk_def actionsOk_def resultClean_def)
      ultimately show ?thesis using 2(1) [OF refl Inr r [symmetric] None] 2(5) by simp
    qed
  qed
qed

lemma checkFilters_Init_clean:
  assumes "filtersOk b" and "checkFilters same (NewContext frm to mail) (Filters b) = Inr res"
  shows "resultClean res"
  by (rule checkFilters_clean [OF _ _ _ _ assms(2)])
    (use assms(1) Init_ok in \<open>auto simp: NewContext_def filtersOk_def InitEvalulationContext_def
      resultClean_empty\<close>)

text \<open>A recipient up to its folder.\<close>

abbreviation core :: "RelayRcpt \<Rightarrow> RelayRcpt" where
  "core r \<equiv> r\<lparr>rFolder := []\<rparr>"

lemma core_forwardTo [simp]: "core (forwardTo to) = forwardTo to"
  by (simp add: forwardTo_def noRcpt_def)

lemma core_inboxFolder [simp]: "core (inboxFolder to) = core to"
  by (simp add: inboxFolder_def)

lemma changeRcpts_core:
  assumes "RemoveRecipient res = []"
  shows "map core (changeRcpts res tos) = map core tos @ map forwardTo (AddRecipient res)"
  using assms by (simp add: changeRcpts_def Let_def comp_def split: option.splits)

text \<open>What \<open>applyResult\<close> and the loop leave of the session: the sender and the login as they
  were, the recipients up to their folders, and after them the ones that were added.\<close>

definition keepsRcpts :: "dataState \<Rightarrow> dataState \<Rightarrow> bool" where
  "keepsRcpts d d' \<longleftrightarrow>
     sFrom (dSession d') = sFrom (dSession d) \<and> username (dSession d') = username (dSession d) \<and>
     dWait d \<le> dWait d' \<and>
     (\<exists>adds. map core (sTo (dSession d')) = map core (sTo (dSession d)) @ map forwardTo adds)"

lemma keepsRcpts_refl [simp]: "keepsRcpts d d"
  unfolding keepsRcpts_def by (metis append_Nil2 list.map_disc_iff order_refl)

lemma keepsRcpts_trans: "keepsRcpts d1 d2 \<Longrightarrow> keepsRcpts d2 d3 \<Longrightarrow> keepsRcpts d1 d3"
  unfolding keepsRcpts_def by (metis append.assoc map_append order_trans)

lemma keepsRcpts_length: "keepsRcpts d d' \<Longrightarrow> length (sTo (dSession d)) \<le> length (sTo (dSession d'))"
  unfolding keepsRcpts_def by (metis length_append length_map le_add1)

lemma learn_no_IndexRange: "learn lib env client folder s email \<noteq> Inl (Panicked IndexRange)"
  by (auto simp: learn_def Let_def split: option.splits list.splits)

lemma keepLearned_keeps:
  assumes "keepLearned (learn lib env client folder s email) d = (err, d')"
  shows "keepsRcpts d d'" "sTo (dSession d') = sTo (dSession d)" "err \<noteq> Some (Panicked IndexRange)"
  using assms learn_no_IndexRange [of lib env client folder s email]
  by (auto simp: keepLearned_def keepsRcpts_def split: sum.splits)

lemma applyAction_keeps:
  assumes "applyAction e b res d = (err, d', go)"
  shows "keepsRcpts d d'" "err \<noteq> Some (Panicked IndexRange)" "go \<Longrightarrow> err = None"
  using assms keepLearned_keeps
  by (auto simp: applyAction_def LearnHam_def keepsRcpts_def split: ResultAction.splits prod.splits)

lemma applyResult_keeps:
  assumes "resultClean res" and "applyResult e b res d = (err, d')"
  shows "keepsRcpts d d' \<and> err \<noteq> Some (Panicked IndexRange)"
proof -
  obtain err1 d1 go where a: "applyAction e b res d = (err1, d1, go)" by (cases "applyAction e b res d")
  note k1 = applyAction_keeps [OF a]
  show ?thesis
  proof (cases go)
    case False
    with a k1 assms(2) show ?thesis by (simp add: applyResult_def)
  next
    case True
    obtain err2 d2 where l: "(if Spam res
        then keepLearned (LearnSpam (eLib e) (eLearn e) (Rspamd b) (dSession d1) (dMail d1)) d1
        else (None, d1)) = (err2, d2)"
      by (cases "if Spam res
        then keepLearned (LearnSpam (eLib e) (eLearn e) (Rspamd b) (dSession d1) (dMail d1)) d1
        else (None, d1)")
    have k2: "keepsRcpts d1 d2 \<and> err2 \<noteq> Some (Panicked IndexRange)"
    proof (cases "Spam res")
      case _: True
      with l keepLearned_keeps(1,3) show ?thesis by (auto simp: LearnSpam_def)
    qed (use l in auto)
    let ?d3 = "d2\<lparr>dSession := (dSession d2)\<lparr>sTo := changeRcpts res (sTo (dSession d2))\<rparr>,
      dMail := changeMail e res (dMail d2)\<rparr>"
    have "keepsRcpts d2 ?d3"
      using changeRcpts_core [of res] assms(1) by (auto simp: keepsRcpts_def resultClean_def)
    moreover have "(err, d') = (case err2 of None \<Rightarrow> (None, ?d3) | Some e \<Rightarrow> (Some e, d2))"
      using assms(2) a True l by (auto simp: applyResult_def split: option.splits)
    moreover have "keepsRcpts d d2" using keepsRcpts_trans [OF k1(1)] k2 by blast
    ultimately show ?thesis
      using k2 keepsRcpts_trans [of d d2 ?d3] by (cases err2) auto
  qed
qed

lemma setRcpt_keeps:
  assumes "setRcpt i to d = Inr d'" and "i < length (sTo (dSession d))"
    and "core (sTo (dSession d) ! i) = core to"
  shows "keepsRcpts d d'"
proof -
  have "map core ((sTo (dSession d))[i := inboxFolder to]) = map core (sTo (dSession d))"
    using assms(2,3) by (simp add: map_update list_update_same_conv)
  then have "map core ((sTo (dSession d))[i := inboxFolder to]) = map core (sTo (dSession d)) @ map forwardTo []"
    by simp
  then show ?thesis
    using assms(1) keepsRcpts_refl by (auto simp: setRcpt_def keepsRcpts_def split: if_splits)
qed

definition aligned :: "nat \<Rightarrow> RelayRcpt list \<Rightarrow> dataState \<Rightarrow> bool" where
  "aligned i tos d \<longleftrightarrow>
     (\<exists>pre post. map core (sTo (dSession d)) = pre @ map core tos @ post \<and> length pre = i)"

lemma aligned_keeps: "aligned i tos d \<Longrightarrow> keepsRcpts d d' \<Longrightarrow> aligned i tos d'"
  unfolding aligned_def keepsRcpts_def by (metis append.assoc)

lemma aligned_Cons:
  assumes "aligned i (to # tos) d"
  shows "i < length (sTo (dSession d))" "core (sTo (dSession d) ! i) = core to" "aligned (Suc i) tos d"
proof -
  obtain pre post where m: "map core (sTo (dSession d)) = pre @ core to # map core tos @ post" and l: "length pre = i"
    using assms by (auto simp: aligned_def)
  have "length (map core (sTo (dSession d))) = length (pre @ core to # map core tos @ post)" by (simp only: m)
  with l show i: "i < length (sTo (dSession d))" by simp
  have "map core (sTo (dSession d)) ! i = core to" unfolding m using l by (simp add: nth_append)
  with i show "core (sTo (dSession d) ! i) = core to" by simp
  show "aligned (Suc i) tos d"
    unfolding aligned_def using m l by (intro exI [of _ "pre @ [core to]"] exI [of _ post]) simp
qed

lemma dataLoop_keeps:
  "filtersOk b \<Longrightarrow> aligned i tos d \<Longrightarrow> dataLoop e b i tos d = (err, d') \<Longrightarrow>
    keepsRcpts d d' \<and> err \<noteq> Some (Panicked IndexRange)"
proof (induction e b i tos d rule: dataLoop.induct)
  case (1 e b i d)
  then show ?case by simp
next
  case (2 e b i to tos d)
  note al = aligned_Cons [OF 2(3)]
  obtain d1 where s: "setRcpt i to d = Inr d1" 
    using al(1) that by (cases "rFolder to = []") (auto simp: setRcpt_def)
  note k1 = setRcpt_keeps [OF s al(1,2)]
  let ?ctx = "NewContext (sFrom (dSession d1)) (inboxFolder to) (dMail d1)"
  show ?case
  proof (cases "checkFilters (eSame e) ?ctx (Filters b)")
    case (Inl p)
    with 2(4) s k1 show ?thesis by auto
  next
    case (Inr res)
    obtain err2 d2 where a: "applyResult e b res d1 = (err2, d2)" by (cases "applyResult e b res d1")
    have "resultClean res" by (rule checkFilters_Init_clean [OF 2(2) Inr])
    then have k2: "keepsRcpts d1 d2 \<and> err2 \<noteq> Some (Panicked IndexRange)" using applyResult_keeps a by blast
    with k1 have k: "keepsRcpts d d2" using keepsRcpts_trans by blast
    show ?thesis
    proof (cases err2)
      case (Some x)
      with 2(4) s Inr a k k2 show ?thesis by auto
    next
      case None
      then have "dataLoop e b (Suc i) tos d2 = (err, d')" using 2(4) s Inr a by simp
      then show ?thesis
        using 2(1) [OF s Inr a [symmetric] None 2(2) aligned_keeps [OF al(3) k]] keepsRcpts_trans [OF k] by blast
    qed
  qed
qed

lemma Data_cases:
  assumes "filtersOk b"
  shows "case Data e b raw s of
      (Inl err, s') \<Rightarrow> err \<noteq> Panicked IndexRange
    | (Inr out, s') \<Rightarrow> 0 \<le> outWait out \<and> outFrom out = rAddress (sFrom s) \<and>
        (\<exists>adds. map core (outTo out) = map core (sTo s) @ map forwardTo adds)"
proof (cases "readMessage (eLib e) raw")
  case None
  then show ?thesis by (simp add: Data_def errInternal_def)
next
  case (Some mail)
  obtain r mail1 where a: "analyzed e b s mail = (r, mail1)" by (cases "analyzed e b s mail")
  show ?thesis
  proof (cases r)
    case (Inl err)
    have "err \<noteq> Panicked IndexRange"
      using a Inl analyze_outcomes [where lib = "eLib e" and verify = "eVerify e" and ip = "eIP e" and s = s and email = mail]
      by (auto simp: analyzed_def errInternal_def split: option.splits prod.splits sum.splits relayError.splits)
    with Some a Inl show ?thesis by (simp add: Data_def)
  next
    case (Inr sw)
    obtain score wait where sw: "sw = (score, wait)" by (cases sw)
    let ?d = "\<lparr>dSession = s, dMail = mail1, dWait = wait, dLearned = []\<rparr>"
    have w: "0 \<le> wait"
      using a Inr sw analyze_outcomes [where lib = "eLib e" and verify = "eVerify e" and ip = "eIP e" and s = s and email = mail]
      by (auto simp: analyzed_def minutes_def split: option.splits prod.splits sum.splits if_splits)
    obtain err d' where l: "dataLoop e b 0 (sTo s) ?d = (err, d')" by (cases "dataLoop e b 0 (sTo s) ?d")
    have "aligned 0 (sTo s) ?d" by (simp add: aligned_def)
    then have k: "keepsRcpts ?d d' \<and> err \<noteq> Some (Panicked IndexRange)" using dataLoop_keeps [OF assms _ l] by blast
    have "Data e b raw s = (case err of
        Some x \<Rightarrow> (Inl x, dSession d')
      | None \<Rightarrow> (Inr \<lparr>outWait = dWait d', outFrom = rAddress (sFrom (dSession d')),
            outTo = sTo (dSession d'), outMail = dMail d', outScore = score\<rparr>, dSession d'))"
      using Some a Inr sw l by (simp add: Data_def split: option.splits)
    with k w show ?thesis by (cases err) (auto simp: keepsRcpts_def)
  qed
qed

text \<open>To the session \<open>DATA\<close> is the command \<open>DataCommand\<close> of \<open>smtp_step\<close>: the sender and the
  login stay.\<close>

lemma Data_is_command:
  assumes "filtersOk b"
  shows "\<exists>to. smtp_step w b (DataCommand to) (refused, s) = (refused, snd (Data e b raw s))"
proof (cases "readMessage (eLib e) raw")
  case None
  then show ?thesis by (auto simp: Data_def intro: exI [of _ "sTo s"])
next
  case (Some mail)
  obtain r mail1 where a: "analyzed e b s mail = (r, mail1)" by (cases "analyzed e b s mail")
  show ?thesis
  proof (cases r)
    case (Inl err)
    with Some a show ?thesis by (auto simp: Data_def intro: exI [of _ "sTo s"])
  next
    case (Inr sw)
    obtain score wait where sw: "sw = (score, wait)" by (cases sw)
    let ?d = "\<lparr>dSession = s, dMail = mail1, dWait = wait, dLearned = []\<rparr>"
    obtain err d' where l: "dataLoop e b 0 (sTo s) ?d = (err, d')" by (cases "dataLoop e b 0 (sTo s) ?d")
    have "aligned 0 (sTo s) ?d" by (simp add: aligned_def)
    then have "keepsRcpts ?d d'" using dataLoop_keeps [OF assms _ l] by blast
    then have "dSession d' = s\<lparr>sTo := sTo (dSession d')\<rparr>" by (simp add: keepsRcpts_def)
    moreover have "snd (Data e b raw s) = dSession d'"
      using Some a Inr sw l by (cases err) (simp_all add: Data_def)
    ultimately show ?thesis unfolding smtp_step.simps by metis
  qed
qed

section \<open>Properties\<close>

text \<open>C4: whatever the filters and the spam filter do, \<open>DATA\<close> loses no recipient: the mail it
  hands on goes to every recipient the client named, each with its account and key and only
  its folder changed, in their order, and after them to the addresses the filters forward to.
  It is sent in the name of the sender, and the indexing of the recipients never panics.\<close>

theorem data_keeps_recipients:
  assumes "filtersOk b"
  shows "(\<forall>out s'. Data e b raw s = (Inr out, s') \<longrightarrow>
      outFrom out = rAddress (sFrom s) \<and>
      (\<exists>adds. map core (outTo out) = map core (sTo s) @ map forwardTo adds)) \<and>
    (\<forall>s'. Data e b raw s \<noteq> (Inl (Panicked IndexRange), s'))"
  using Data_cases [OF assms, where e = e and raw = raw and s = s] by (auto split: prod.splits sum.splits)

definition demoEnv :: env where
  "demoEnv = \<lparr>eSame = \<lambda>_ _. False, eLib = demoLib,
     eLearn = \<lparr>decodeHeader = Some, nowUnix = ''0'', writeFile = \<lambda>_ _. True\<rparr>,
     eVerify = \<lambda>_ m. Some (demoResponse, m), eIP = [], eRange = \<lambda>_. []\<rparr>"

definition bobRcpt :: RelayRcpt where
  "bobRcpt = noRcpt\<lparr>rUser := ''bob'', rDomain := ''a.org'', rAddress := ''bob@a.org'', rLocal := True\<rparr>"

theorem data_keeps_recipients_witness:
  "\<exists>out s'. Data demoEnv (demoBackend\<lparr>Filters := [(''f'', [ActionStatement ''forward'' [LiteralString ''x@b.org'']])]\<rparr>)
       ''hi'' (newSession\<lparr>sTo := [bobRcpt]\<rparr>) = (Inr out, s') \<and>
     map rAddress (outTo out) = [''bob@a.org'', ''x@b.org'']"
proof -
  let ?b = "demoBackend\<lparr>Filters := [(''f'', [ActionStatement ''forward'' [LiteralString ''x@b.org'']])]\<rparr>"
  have f: "filtersOk ?b" by (simp add: filtersOk_def)
  have d: "\<exists>out s'. Data demoEnv ?b ''hi'' (newSession\<lparr>sTo := [bobRcpt]\<rparr>) = (Inr out, s') \<and>
      map rAddress (outTo out) = [''bob@a.org'', ''x@b.org'']"
    by (simp add: Data_def demoEnv_def demoLib_def demoBackend_def analyzed_def newSession_def bobRcpt_def noRcpt_def
        setRcpt_def NewContext_def InitEvalulationContext_def actionStatementEval_def orFalse_def actions_def
        newString_def applyResult_def applyAction_def emptyResult_def changeRcpts_def forwardTo_def changeMail_def)
  show ?thesis using data_keeps_recipients [OF f, where e = demoEnv and raw = "''hi''"] d by blast
qed

text \<open>the verdict of the filters on a mail to one recipient, on a server without spam filter:
  a reject and a temporary reject refuse the mail with their code; continue sends it at once;
  quarantine sends it after a quarter of an hour; discard sends it all the same; and accept
  ends in a panic (or an error before it), because it reports the mail to a spam filter that is
  not there.\<close>

theorem data_verdicts:
  assumes "Rspamd b = None" and "sTo s = [to]" and "rFolder to = []"
    and "readMessage (eLib e) raw = Some mail"
    and "checkFilters (eSame e) (NewContext (sFrom s) to mail) (Filters b) = Inr res" and "\<not> Spam res"
  shows "case resAction res of
      ActionReject \<Rightarrow> Data e b raw s = (Inl (SMTPError 550), s)
    | ActionTempFail \<Rightarrow> Data e b raw s = (Inl (SMTPError 450), s)
    | ActionContinue \<Rightarrow> \<exists>out s'. Data e b raw s = (Inr out, s') \<and> outWait out = 0 \<and> outTo out = changeRcpts res [to]
    | ActionQuarantine \<Rightarrow> \<exists>out s'. Data e b raw s = (Inr out, s') \<and> outWait out = minutes 15
    | ActionDiscard \<Rightarrow> \<exists>out s'. Data e b raw s = (Inr out, s') \<and> outWait out = 0 \<and> outTo out = [to]
    | ActionAccept \<Rightarrow> fst (Data e b raw s) \<in> {Inl (Panicked NilRspamd), Inl OtherError}
    | ActionConnectionFail \<Rightarrow> Data e b raw s = (Inl (Panicked UnknownAction), s)"
  using assms
  by (auto simp: Data_def analyzed_def setRcpt_def inboxFolder_def applyResult_def applyAction_def minutes_def
      keepLearned_def LearnHam_def learn_def split: ResultAction.splits option.splits)

theorem data_verdicts_witness:
  "\<exists>out s'. Data demoEnv (demoBackend\<lparr>Filters := [(''f'', [ActionStatement ''discard'' []])]\<rparr>) ''hi''
     (newSession\<lparr>sTo := [bobRcpt]\<rparr>) = (Inr out, s') \<and> outTo out = [bobRcpt]"
proof -
  let ?b = "demoBackend\<lparr>Filters := [(''f'', [ActionStatement ''discard'' []])]\<rparr>"
  let ?s = "newSession\<lparr>sTo := [bobRcpt]\<rparr>"
  let ?mail = "\<lparr>msgHeader = [], msgBody = ''hi''\<rparr>"
  have c: "checkFilters (eSame demoEnv) (NewContext (sFrom ?s) bobRcpt ?mail) (Filters ?b) =
      Inr (emptyResult\<lparr>resAction := ActionDiscard\<rparr>)"
    by (simp add: NewContext_def InitEvalulationContext_def actionStatementEval_def orFalse_def actions_def
        setResultAction_def emptyResult_def)
  show ?thesis
    using data_verdicts [OF _ _ _ _ c, of "''hi''"]
    by (auto simp: demoBackend_def demoEnv_def demoLib_def bobRcpt_def noRcpt_def emptyResult_def)
qed

text \<open>the filters are asked one after the other until one runs to its end, and that one
  decides alone, even when it asks for nothing; a filter that fails before it changes nothing
  but the map of headers, which the filters share.\<close>

theorem first_filter_decides:
  assumes "treeEval same (ctx\<lparr>LoggerKey := name\<rparr>) f = Inr (verdict, sub)"
  shows "checkFilters same ctx ((name, f) # fs) =
    (case verdict of
       Some res \<Rightarrow> Inr res
     | None \<Rightarrow> checkFilters same (ctx\<lparr>LoggerKey := name,
         ctxResult := (ctxResult ctx)\<lparr>ModifyHeader := ModifyHeader (ctxResult sub)\<rparr>\<rparr>) fs)"
  using assms by (simp split: option.splits)

theorem first_filter_decides_witness:
  "checkFilters (\<lambda>_ _. False) (InitEvalulationContext [] nobody nobody [] [])
     [(''a'', []), (''b'', [ActionStatement ''reject'' []])] = Inr emptyResult"
  using first_filter_decides [where same = "\<lambda>_ _. False" and ctx = "InitEvalulationContext [] nobody nobody [] []"
      and name = "''a''" and f = "[]" and verdict = "Some emptyResult" and fs = "[(''b'', [ActionStatement ''reject'' []])]"]
  by (simp add: InitEvalulationContext_def)

end
