(* ===== verification/Auth_Crypto.thy ===== *)
theory Auth_Crypto
  imports Relay_Types
begin

text \<open>
  The encryption of a mail to the key of its recipient: \<open>src/auth/crypto.go\<close>.

  OpenPGP is an argument: \<open>isPGPMessage\<close>, and \<open>encryptFor\<close>, which gives the armored message
  or \<open>None\<close> when the key cannot be read or the encryption fails. So is the random boundary
  of \<open>mime/multipart\<close>, whose format is written out. The mail is mutated in place: its body is a
  reader that \<open>io.ReadAll\<close> leaves empty.
\<close>

record pgp =
  isPGPMessage :: "string \<Rightarrow> bool"
  encryptFor :: "string \<Rightarrow> string \<Rightarrow> string option"
  boundary :: string

definition crlf :: string where
  "crlf = [CHR 0x0D, CHR 0x0A]"

definition lf :: string where
  "lf = [CHR 0x0A]"

text \<open>The text that is encrypted: the headers that describe the body, and the body.\<close>

definition plainText :: "msglib \<Rightarrow> Message \<Rightarrow> string" where
  "plainText lib mail =
     ''Content-Type: '' @ hGet lib ''Content-Type'' (msgHeader mail) @ lf @
     (if hHas lib ''Content-Transfer-Encoding'' (msgHeader mail)
      then ''Content-Transfer-Encoding: '' @ hGet lib ''Content-Transfer-Encoding'' (msgHeader mail) @ lf
      else []) @
     lf @ msgBody mail"

definition multipartPart :: "string \<Rightarrow> string \<Rightarrow> string \<Rightarrow> string" where
  "multipartPart bnd ctype inner =
     ''--'' @ bnd @ crlf @ ''Content-Type: '' @ ctype @ crlf @ crlf @ inner"

definition pgpMime :: "string \<Rightarrow> string \<Rightarrow> string" where
  "pgpMime bnd bodyEnc =
     multipartPart bnd ''application/pgp-encrypted'' (''Version: 1'' @ lf) @ crlf @
     multipartPart bnd ''application/octet-stream'' bodyEnc @ crlf @ ''--'' @ bnd @ ''--'' @ crlf"

definition encryptedHeader :: "msglib \<Rightarrow> string \<Rightarrow> header \<Rightarrow> header" where
  "encryptedHeader lib bnd h =
     hSet lib ''Content-Transfer-Encoding'' ''7bit''
       (hSet lib ''Content-Type''
         (''multipart/encrypted; boundary='' @ bnd @ ''; protocol='' @ [CHR 0x22] @ ''application/pgp-encrypted'' @ [CHR 0x22]) h)"

text \<open>Whether there was no error, and the mail it leaves. The deferred function restores the body
  only when there was one.\<close>

definition EncryptEmail :: "msglib \<Rightarrow> pgp \<Rightarrow> string \<Rightarrow> Message \<Rightarrow> bool \<times> Message" where
  "EncryptEmail lib pg rawKey mail =
     (let body = msgBody mail
      in if isPGPMessage pg body then (True, mail\<lparr>msgBody := []\<rparr>)
         else case encryptFor pg rawKey (plainText lib mail) of
                None \<Rightarrow> (False, mail\<lparr>msgBody := body\<rparr>)
              | Some bodyEnc \<Rightarrow>
                  (True, \<lparr>msgHeader = encryptedHeader lib (boundary pg) (msgHeader mail),
                          msgBody = pgpMime (boundary pg) bodyEnc\<rparr>))"

lemma EncryptEmail_failed: "EncryptEmail lib pg key mail = (False, mail') \<Longrightarrow> mail' = mail"
  by (auto simp: EncryptEmail_def Let_def split: if_splits option.splits)

lemma EncryptEmail_pgp:
  "isPGPMessage pg (msgBody mail) \<Longrightarrow> EncryptEmail lib pg key mail = (True, mail\<lparr>msgBody := []\<rparr>)"
  by (simp add: EncryptEmail_def)

end
