(* ===== verification/Relay_Send.thy ===== *)
theory Relay_Send
  imports Relay_Data Auth_Crypto
begin

text \<open>
  Delivery: \<open>src/relay/relay.go\<close>. \<open>send\<close> splits the recipients by domain, queues the mail for
  the other servers and stores it for the accounts of this one; a group is sent to its
  members, which may be groups again, so that \<open>send\<close> calls itself. The recursion is bounded
  by a number, \<open>None\<close> when it is used up.

  The queue is given a pointer to the mail, and so is every account: there is one mail, which
  \<open>send\<close> threads through the deliveries and returns as they leave it. What happens outside is a list of events, and \<open>sendEnv\<close> holds what answers: the storage,
  the encryption, and the order of the range over the map of groups.
\<close>

section \<open>Delivery to the accounts\<close>

datatype event =
    Enqueued string "RelayRcpt list" string
  | Stored bool RelayRcpt string bool
  | NotRendered RelayRcpt
  | NotStored RelayRcpt
  | MemberRefused string
  | Notified string string int

text \<open>\<open>storeMail\<close> is \<open>StoreSpam\<close> or \<open>StoreEmailInbox\<close>, by the flag: the id of the mail, unless it
  fails. \<open>Stored\<close> tells whether it is stored as spam, for whom, its bytes, and whether it is
  encrypted. \<open>MemberRefused\<close> is the warning for a member of a group that is not accepted as a
  recipient. \<open>Enqueued\<close> has no copy of the mail: what the queue sends is what it finds in the mail
  when it gets to it.\<close>

record sendEnv =
  nWorld :: world
  nBackend :: Backend
  nSession :: Session
  nLib :: msglib
  nPgp :: pgp
  storeMail :: "bool \<Rightarrow> RelayRcpt \<Rightarrow> string \<Rightarrow> bool \<Rightarrow> int option"
  rangeOrder :: "(string \<times> RelayRcpt list) list \<Rightarrow> (string \<times> RelayRcpt list) list"

type_synonym sent = "(relayPanic + Message \<times> event list) option"

definition bindS :: "sent \<Rightarrow> (Message \<Rightarrow> sent) \<Rightarrow> sent" where
  "bindS r f =
     (case r of
        None \<Rightarrow> None
      | Some (Inl p) \<Rightarrow> Some (Inl p)
      | Some (Inr (m, evs)) \<Rightarrow>
          (case f m of
             Some (Inr (m', evs')) \<Rightarrow> Some (Inr (m', evs @ evs'))
           | r' \<Rightarrow> r'))"

definition storeFor :: "sendEnv \<Rightarrow> RelayRcpt \<Rightarrow> bool \<Rightarrow> Message \<Rightarrow> event list" where
  "storeFor n r encrypted mail =
     (case renderMessage (nLib n) mail of
        None \<Rightarrow> [NotRendered r]
      | Some buf \<Rightarrow>
          let spam = hHas (nLib n) SpamHeader (msgHeader mail)
          in case storeMail n spam r buf encrypted of
               None \<Rightarrow> [NotStored r]
             | Some i \<Rightarrow> [Stored spam r buf encrypted, Notified (rAddress r) (rFolder r) i])"

definition logged :: "event list \<Rightarrow> sent \<Rightarrow> sent" where
  "logged evs r = (case r of Some (Inr (m, evs')) \<Rightarrow> Some (Inr (m, evs @ evs')) | _ \<Rightarrow> r)"

text \<open>The members of a group that are recipients, with the warnings for the others; the panic of
  an unreadable key is not caught.\<close>

fun memberRcpts :: "sendEnv \<Rightarrow> string list \<Rightarrow> relayPanic + event list \<times> RelayRcpt list" where
  "memberRcpts n [] = Inr ([], [])"
| "memberRcpts n (m # ms) =
     (case rcpt (nWorld n) (nBackend n) (nSession n) m of
        Inl (Panicked p) \<Rightarrow> Inl p
      | Inl _ \<Rightarrow>
          (case memberRcpts n ms of Inl p \<Rightarrow> Inl p | Inr (evs, rs) \<Rightarrow> Inr (MemberRefused m # evs, rs))
      | Inr r \<Rightarrow> (case memberRcpts n ms of Inl p \<Rightarrow> Inl p | Inr (evs, rs) \<Rightarrow> Inr (evs, r # rs)))"

definition relayInside ::
  "(string \<Rightarrow> RelayRcpt list \<Rightarrow> Message \<Rightarrow> sent) \<Rightarrow> sendEnv \<Rightarrow> RelayRcpt \<Rightarrow> Message \<Rightarrow> sent" where
  "relayInside again n r mail =
     (case rGroup r of
        Some g \<Rightarrow>
          (case memberRcpts n (Members g) of
             Inl p \<Rightarrow> Some (Inl p)
           | Inr (evs, rs) \<Rightarrow> logged evs (again (rAddress r) rs mail))
      | None \<Rightarrow>
          (case (case rKey r of
                   None \<Rightarrow> (False, mail)
                 | Some key \<Rightarrow> EncryptEmail (nLib n) (nPgp n) key mail) of
             (encrypted, mail1) \<Rightarrow>
               Some (Inr (mail1\<lparr>msgBody := []\<rparr>, storeFor n r encrypted mail1))))"

fun relayMembers ::
  "(RelayRcpt \<Rightarrow> Message \<Rightarrow> sent) \<Rightarrow> string \<Rightarrow> RelayRcpt list \<Rightarrow> Message \<Rightarrow> sent" where
  "relayMembers inside body [] mail = Some (Inr (mail, []))"
| "relayMembers inside body (r # rs) mail =
     bindS (inside r (mail\<lparr>msgBody := body\<rparr>)) (\<lambda>mail'. relayMembers inside body rs mail')"

fun sendGroups ::
  "(RelayRcpt \<Rightarrow> Message \<Rightarrow> sent) \<Rightarrow> string \<Rightarrow> string \<Rightarrow> (string \<times> RelayRcpt list) list \<Rightarrow> Message \<Rightarrow> sent" where
  "sendGroups inside frm body [] mail = Some (Inr (mail, []))"
| "sendGroups inside frm body ((d, members) # gs) mail =
     (if \<not> rLocal (members ! 0) then
        bindS (Some (Inr (mail\<lparr>msgBody := body\<rparr>, [Enqueued frm members d])))
          (\<lambda>mail'. sendGroups inside frm body gs mail')
      else bindS (relayMembers inside body members mail) (\<lambda>mail'. sendGroups inside frm body gs mail'))"

fun send :: "nat \<Rightarrow> sendEnv \<Rightarrow> string \<Rightarrow> RelayRcpt list \<Rightarrow> Message \<Rightarrow> sent" where
  "send 0 n frm tos mail = None"
| "send (Suc k) n frm tos mail =
     sendGroups (relayInside (send k n) n) frm (msgBody mail) (rangeOrder n (GroupBy tos rDomain))
       (mail\<lparr>msgBody := []\<rparr>)"

section \<open>Every recipient is served\<close>

text \<open>Whom an event is about: a recipient that is queued, stored or whose failure is logged, or
  the address of a member that was refused.\<close>

fun served :: "event \<Rightarrow> (RelayRcpt + string) list" where
  "served (Enqueued frm members d) = map Inl members"
| "served (Stored spam r buf encrypted) = [Inl r]"
| "served (NotRendered r) = [Inl r]"
| "served (NotStored r) = [Inl r]"
| "served (MemberRefused m) = [Inr m]"
| "served (Notified a f i) = []"

abbreviation servedAll :: "event list \<Rightarrow> (RelayRcpt + string) list" where
  "servedAll evs \<equiv> concat (map served evs)"

lemma served_storeFor [simp]: "servedAll (storeFor n r encrypted mail) = [Inl r]"
  by (simp add: storeFor_def Let_def split: option.splits)

text \<open>What a step of the delivery promises for the recipients it is given: it returns, and
  serves them, in whatever order.\<close>

definition serves :: "sent \<Rightarrow> (RelayRcpt + string) multiset \<Rightarrow> bool" where
  "serves r rs \<longleftrightarrow> (\<exists>mail evs. r = Some (Inr (mail, evs)) \<and> mset (servedAll evs) = rs)"

lemma serves_bindS: "serves r rs \<Longrightarrow> (\<And>m. serves (f m) rs') \<Longrightarrow> serves (bindS r f) (rs + rs')"
proof -
  assume "serves r rs" and f: "\<And>m. serves (f m) rs'"
  then obtain m evs where r: "r = Some (Inr (m, evs))" "mset (servedAll evs) = rs" by (auto simp: serves_def)
  obtain m' evs' where "f m = Some (Inr (m', evs'))" "mset (servedAll evs') = rs'" using f [of m] by (auto simp: serves_def)
  with r show "serves (bindS r f) (rs + rs')" by (auto simp: serves_def bindS_def)
qed

lemma serves_logged:
  "serves r rs \<Longrightarrow> serves (logged evs r) (mset (servedAll evs) + rs)"
  by (auto simp: serves_def logged_def)

lemma serves_inside: "rGroup r = None \<Longrightarrow> serves (relayInside again n r mail) {#Inl r#}"
  by (auto simp: serves_def relayInside_def split: prod.splits option.splits)

text \<open>The interface of \<open>relayInside\<close> to the loops that call it: a recipient that is \<open>ok\<close> is served as those it
  stands for, its leaves.\<close>

locale insider =
  fixes inside :: "RelayRcpt \<Rightarrow> Message \<Rightarrow> sent" and ok :: "RelayRcpt \<Rightarrow> bool" 
    and leaf :: "RelayRcpt \<Rightarrow> (RelayRcpt + string) multiset"
  assumes inside_serves: "ok r \<Longrightarrow> serves (inside r mail) (leaf r)"
begin

lemma members_served: "\<forall>r \<in> set rs. ok r \<Longrightarrow> serves (relayMembers inside body rs mail) (\<Sum>r \<in># mset rs. leaf r)"
proof (induction rs arbitrary: mail)
  case Nil
  show ?case by (simp add: serves_def)
next
  case (Cons r rs)
  have "serves (relayMembers inside body (r # rs) mail) (leaf r + (\<Sum>r \<in># mset rs. leaf r))"
    unfolding relayMembers.simps using Cons by (intro serves_bindS inside_serves) auto
  then show ?case by simp
qed

lemma groups_served:
  assumes "\<forall>g \<in> set gs. \<forall>r \<in> set (snd g). ok r"
  shows "serves (sendGroups inside frm body gs mail)
    (\<Sum>g \<in># mset gs. \<Sum>r \<in># mset (snd g). if rLocal (snd g ! 0) then leaf r else {#Inl r#})"
  using assms
proof (induction gs arbitrary: mail)
  case Nil
  show ?case by (simp add: serves_def)
next
  case (Cons g gs)
  obtain d members where g: "g = (d, members)" by (cases g)
  have out: "serves (Some (Inr (mail\<lparr>msgBody := body\<rparr>, [Enqueued frm members d])))
      (\<Sum>r \<in># mset members. {#Inl r#})"
    by (simp add: serves_def image_mset.compositionality comp_def)
  have inn: "serves (relayMembers inside body members mail) (\<Sum>r \<in># mset members. leaf r)"
    using Cons.prems g by (intro members_served) auto
  have rest: "serves (sendGroups inside frm body gs m)
      (\<Sum>g \<in># mset gs. \<Sum>r \<in># mset (snd g). if rLocal (snd g ! 0) then leaf r else {#Inl r#})" for m
    using Cons by simp
  show ?case using serves_bindS [OF out rest] serves_bindS [OF inn rest] g by simp
qed

end

interpretation acc: insider "relayInside again n" "\<lambda>r. rGroup r = None" "\<lambda>r. {#Inl r#}" for again n
  by unfold_locales (rule serves_inside)

lemma mset_concat_snd: "mset (concat (map snd gs)) = (\<Sum>g \<in># mset gs. mset (snd g))"
  by (induction gs) auto

lemma sum_over_groups:
  "(\<Sum>g \<in># mset gs. \<Sum>r \<in># mset (snd g). f r) = (\<Sum>r \<in># mset (concat (map snd gs)). f r)"
  by (induction gs) auto

text \<open>What the configuration says of a recipient, by the command \<open>RCPT\<close> on every address and
  nothing else of the delivery: groups that are nested no deeper than a depth and need no key
  that cannot be read, and whom they stand for, the addresses that are refused included.\<close>

definition memberOf :: "sendEnv \<Rightarrow> string \<Rightarrow> relayError + RelayRcpt" where
  "memberOf n = rcpt (nWorld n) (nBackend n) (nSession n)"

fun nested :: "nat \<Rightarrow> sendEnv \<Rightarrow> RelayRcpt \<Rightarrow> bool" where
  "nested 0 n r \<longleftrightarrow> rGroup r = None"
| "nested (Suc k) n r \<longleftrightarrow>
     (case rGroup r of
        None \<Rightarrow> True
      | Some g \<Rightarrow>
          list_all (\<lambda>m. case memberOf n m of
                          Inl (Panicked p) \<Rightarrow> False | Inl _ \<Rightarrow> True | Inr r' \<Rightarrow> nested k n r') (Members g))"

fun leaves :: "nat \<Rightarrow> sendEnv \<Rightarrow> RelayRcpt \<Rightarrow> (RelayRcpt + string) multiset" where
  "leaves 0 n r = {#Inl r#}"
| "leaves (Suc k) n r =
     (case rGroup r of
        None \<Rightarrow> {#Inl r#}
      | Some g \<Rightarrow>
          (\<Sum>m \<in># mset (Members g). case memberOf n m of Inl _ \<Rightarrow> {#Inr m#} | Inr r' \<Rightarrow> leaves k n r'))"

lemma leaves_single: "rGroup r = None \<Longrightarrow> leaves k n r = {#Inl r#}"
  by (cases k) simp_all

text \<open>Whom the recipients of one call of \<open>send\<close> stand for. A domain is one of this server when its
  first recipient is: the others go through the queue as they are, groups too.\<close>

definition demand :: "nat \<Rightarrow> sendEnv \<Rightarrow> RelayRcpt list \<Rightarrow> (RelayRcpt + string) multiset" where
  "demand k n tos =
     (\<Sum>r \<in># mset tos.
        if rLocal (hd (filter (\<lambda>t. rDomain t = rDomain r) tos)) then leaves k n r else {#Inl r#})"

lemma demand_alike:
  assumes "\<And>r. r \<in> set tos \<Longrightarrow> rcptOk b s r" and "\<And>r. r \<in> set tos \<Longrightarrow> \<not> rLocal r \<Longrightarrow> rGroup r = None"
  shows "demand k n tos = (\<Sum>r \<in># mset tos. leaves k n r)"
proof -
  have "rLocal (hd (filter (\<lambda>t. rDomain t = rDomain r) tos)) = rLocal r" if r: "r \<in> set tos" for r
  proof -
    let ?h = "hd (filter (\<lambda>t. rDomain t = rDomain r) tos)"
    have "?h \<in> set (filter (\<lambda>t. rDomain t = rDomain r) tos)"
      using r by (intro hd_in_set) (auto simp: filter_empty_conv)
    then show ?thesis using assms(1) [of ?h] assms(1) [OF r] by (simp add: rcptOk_def)
  qed
  then show ?thesis using assms(2) leaves_single
    unfolding demand_def by (intro arg_cong [of _ _ sum_mset] image_mset_cong) auto
qed

lemma send_groups:
  assumes "insider (relayInside (send k n) n) ok (leaves k n)" and "\<forall>r \<in> set tos. ok r"
    and "mset (rangeOrder n (GroupBy tos rDomain)) = mset (GroupBy tos rDomain)"
  shows "serves (send (Suc k) n frm tos mail) (demand k n tos)"
proof -
  let ?gs = "rangeOrder n (GroupBy tos rDomain)"
  let ?f = "\<lambda>r. if rLocal (hd (filter (\<lambda>t. rDomain t = rDomain r) tos)) then leaves k n r else {#Inl r#}"
  have grp: "groupsOf tos rDomain (GroupBy tos rDomain)" by (rule GroupBy_groups)
  have same: "set ?gs = set (GroupBy tos rDomain)" using assms(3) by (metis set_mset_mset)
  have m: "mset (concat (map snd ?gs)) = mset tos"
    unfolding mset_concat_snd assms(3) by (simp add: groupsOf_mset [OF GroupBy_groups] flip: mset_concat_snd)
  then have tos: "set (concat (map snd ?gs)) = set tos" by (metis set_mset_mset)
  have "(\<Sum>r \<in># mset (snd g). if rLocal (snd g ! 0) then leaves k n r else {#Inl r#}) = (\<Sum>r \<in># mset (snd g). ?f r)"
    if g: "g \<in> set ?gs" for g
  proof -
    have arr: "snd g = filter (\<lambda>t. rDomain t = fst g) tos" using g same grp by (auto simp: groupsOf_def)
    have "(if rLocal (snd g ! 0) then leaves k n r else {#Inl r#}) = ?f r" if "r \<in> set (snd g)" for r
    proof -
      have "snd g \<noteq> []" using that by auto
      moreover have "rDomain r = fst g" using that arr by auto
      ultimately show ?thesis using arr by (metis hd_conv_nth)
    qed
    then show ?thesis by (intro arg_cong [of _ _ sum_mset] image_mset_cong) simp
  qed
  then have "(\<Sum>g \<in># mset ?gs. \<Sum>r \<in># mset (snd g). if rLocal (snd g ! 0) then leaves k n r else {#Inl r#}) =
      (\<Sum>g \<in># mset ?gs. \<Sum>r \<in># mset (snd g). ?f r)"
    by - (rule arg_cong [of _ _ sum_mset], rule image_mset_cong, simp)
  also have "\<dots> = demand k n tos" by (simp add: sum_over_groups m demand_def)
  finally have d: "(\<Sum>g \<in># mset ?gs. \<Sum>r \<in># mset (snd g). if rLocal (snd g ! 0) then leaves k n r else {#Inl r#}) =
      demand k n tos" .
  have "\<forall>g \<in> set ?gs. \<forall>r \<in> set (snd g). ok r" using assms(2) tos by fastforce
  then show ?thesis using insider.groups_served [OF assms(1), of ?gs frm "msgBody mail" "mail\<lparr>msgBody := []\<rparr>"] d by simp
qed

section \<open>Groups within groups\<close>

lemma bindS_Inr:
  assumes "bindS r f = Some (Inr x)"
  obtains m evs y where "r = Some (Inr (m, evs))" "f m = Some (Inr y)"
proof -
  obtain m evs where r: "r = Some (Inr (m, evs))"
    using assms by (auto simp: bindS_def split: option.splits sum.splits)
  with assms have "\<exists>y. f m = Some (Inr y)" by (auto simp: bindS_def split: option.splits sum.splits)
  with r that show thesis by blast
qed

text \<open>A delivery that completes has completed for every local recipient.\<close>

lemma relayMembers_Inr:
  "relayMembers inside body rs mail = Some (Inr x) \<Longrightarrow> r \<in> set rs \<Longrightarrow> \<exists>m y. inside r m = Some (Inr y)"
proof (induction rs arbitrary: mail x)
  case (Cons a rs)
  from Cons.prems(1) obtain m evs y where "inside a (mail\<lparr>msgBody := body\<rparr>) = Some (Inr (m, evs))"
    "relayMembers inside body rs m = Some (Inr y)"
    unfolding relayMembers.simps by (rule bindS_Inr)
  with Cons.IH [of m y] Cons.prems(2) show ?case by (cases "r = a") auto
qed simp

lemma sendGroups_Inr:
  "sendGroups inside frm body gs mail = Some (Inr x) \<Longrightarrow> (d, ms) \<in> set gs \<Longrightarrow> rLocal (ms ! 0) \<Longrightarrow> r \<in> set ms \<Longrightarrow>
   \<exists>m y. inside r m = Some (Inr y)"
proof (induction gs arbitrary: mail x)
  case (Cons g gs)
  obtain d' ms' where g: "g = (d', ms')" by (cases g)
  obtain p where p: "bindS p (\<lambda>mail'. sendGroups inside frm body gs mail') = Some (Inr x)"
    "rLocal (ms' ! 0) \<Longrightarrow> p = relayMembers inside body ms' mail"
    using Cons.prems(1) g by (cases "rLocal (ms' ! 0)") auto
  from p(1) obtain m evs y where q: "p = Some (Inr (m, evs))" "sendGroups inside frm body gs m = Some (Inr y)"
    by (rule bindS_Inr)
  show ?case
  proof (cases "(d, ms) = g")
    case True
    then have "relayMembers inside body ms mail = Some (Inr (m, evs))" using g Cons.prems(3) p(2) q(1) by simp
    then show ?thesis using relayMembers_Inr Cons.prems(4) by blast
  next
    case False
    then have "(d, ms) \<in> set gs" using Cons.prems(2) by auto
    then show ?thesis using Cons.IH [OF q(2)] Cons.prems(3,4) by blast
  qed
qed simp

lemma memberRcpts_mem:
  "memberRcpts n ms = Inr (evs, rs) \<Longrightarrow> m \<in> set ms \<Longrightarrow> memberOf n m = Inr r \<Longrightarrow> r \<in> set rs"
  by (induction ms arbitrary: evs rs) (auto simp: memberOf_def split: sum.splits relayError.splits)

lemma memberRcpts_from:
  "memberRcpts n ms = Inr (evs, rs) \<Longrightarrow> r \<in> set rs \<Longrightarrow> \<exists>m \<in> set ms. memberOf n m = Inr r"
  by (induction ms arbitrary: evs rs) (auto simp: memberOf_def split: sum.splits relayError.splits)

lemma memberRcpts_ok: "memberRcpts n ms = Inr (evs, rs) \<Longrightarrow> r \<in> set rs \<Longrightarrow> rcptOk (nBackend n) (nSession n) r"
  using memberRcpts_from rcpt_ok(1) by (metis memberOf_def)

text \<open>The members and the warnings account for every address of the group.\<close>

lemma memberRcpts_all:
  assumes "\<forall>m \<in> set ms. \<forall>p. memberOf n m \<noteq> Inl (Panicked p)"
  shows "\<exists>evs rs. memberRcpts n ms = Inr (evs, rs) \<and>
    mset (servedAll evs) + (\<Sum>r \<in># mset rs. f r) = (\<Sum>m \<in># mset ms. case memberOf n m of Inl _ \<Rightarrow> {#Inr m#} | Inr r \<Rightarrow> f r)"
  using assms
proof (induction ms)
  case (Cons m ms)
  then obtain evs rs where ih: "memberRcpts n ms = Inr (evs, rs)"
    "mset (servedAll evs) + (\<Sum>r \<in># mset rs. f r) = (\<Sum>m \<in># mset ms. case memberOf n m of Inl _ \<Rightarrow> {#Inr m#} | Inr r \<Rightarrow> f r)"
    by auto
  show ?case
  proof (cases "memberOf n m")
    case (Inl e)
    with Cons.prems ih(1) have "memberRcpts n (m # ms) = Inr (MemberRefused m # evs, rs)"
      by (cases e) (auto simp: memberOf_def)
    with Inl show ?thesis by (simp flip: ih(2))
  next
    case (Inr r)
    then have "memberRcpts n (m # ms) = Inr (evs, r # rs)" using ih(1) by (simp add: memberOf_def)
    with Inr show ?thesis by (simp add: ac_simps flip: ih(2))
  qed
qed simp

lemma rcpt_group_local: "rcpt w b s to = Inr r \<Longrightarrow> rGroup r = Some g \<Longrightarrow> rLocal r"
  by (auto simp: rcpt_def Let_def noRcpt_def dest!: localRcpt_keeps split: option.splits sum.splits if_splits)

lemma memberRcpts_demand:
  assumes "memberRcpts n ms = Inr (evs, rs)"
  shows "demand k n rs = (\<Sum>r \<in># mset rs. leaves k n r)"
proof (rule demand_alike)
  show "rcptOk (nBackend n) (nSession n) r" if "r \<in> set rs" for r using memberRcpts_ok [OF assms that] .
  show "rGroup r = None" if "r \<in> set rs" "\<not> rLocal r" for r
    using memberRcpts_from [OF assms that(1)] that(2) rcpt_group_local by (fastforce simp: memberOf_def)
qed

text \<open>By induction on the depth, \<open>relayInside\<close> keeps its promise for nested groups.\<close>

lemma insider_nested:
  assumes "\<And>gs. mset (rangeOrder n gs) = mset gs"
  shows "insider (relayInside (send k n) n) (nested k n) (leaves k n)"
proof (induction k)
  case 0
  show ?case by unfold_locales (simp add: acc.inside_serves)
next
  case (Suc k)
  show ?case
  proof
    fix r mail
    assume ok: "nested (Suc k) n r"
    show "serves (relayInside (send (Suc k) n) n r mail) (leaves (Suc k) n r)"
    proof (cases "rGroup r")
      case None
      then show ?thesis using acc.inside_serves by (simp add: leaves_single)
    next
      case (Some g)
      then have np: "\<forall>m \<in> set (Members g). \<forall>p. memberOf n m \<noteq> Inl (Panicked p)"
        and nst: "\<forall>m \<in> set (Members g). \<forall>r'. memberOf n m = Inr r' \<longrightarrow> nested k n r'"
        using ok by (auto simp: list_all_iff)
      obtain evs rs where rs: "memberRcpts n (Members g) = Inr (evs, rs)"
        "mset (servedAll evs) + (\<Sum>r \<in># mset rs. leaves k n r) = leaves (Suc k) n r"
        using memberRcpts_all [OF np, of "leaves k n"] Some by auto
      have "\<forall>r' \<in> set rs. nested k n r'" using memberRcpts_from [OF rs(1)] nst by blast
      then have "serves (send (Suc k) n (rAddress r) rs mail) (\<Sum>r \<in># mset rs. leaves k n r)"
        using send_groups [OF Suc _ assms] memberRcpts_demand [OF rs(1)] by metis
      from serves_logged [OF this, of evs] show ?thesis
        using Some rs by (simp add: relayInside_def del: send.simps leaves.simps)
    qed
  qed
qed

lemma self_group_stuck:
  assumes "rGroup r = Some g" and "m \<in> set (Members g)" and "memberOf n m = Inr r"
    and "rLocal r" and "\<And>gs. mset (rangeOrder n gs) = mset gs"
  shows "r \<in> set tos \<Longrightarrow> \<forall>t \<in> set tos. rDomain t = rDomain r \<longrightarrow> rLocal t \<Longrightarrow> send k n frm tos mail \<noteq> Some (Inr x)"
proof (induction k arbitrary: frm tos mail x)
  case (Suc k)
  let ?ms = "filter (\<lambda>t. rDomain t = rDomain r) tos"
  have grp: "groupsOf tos rDomain (GroupBy tos rDomain)" by (rule GroupBy_groups)
  have "rDomain r \<in> fst ` set (GroupBy tos rDomain)" using grp Suc.prems(1) by (auto simp: groupsOf_def)
  then obtain arr where arr: "(rDomain r, arr) \<in> set (GroupBy tos rDomain)" by auto
  then have "arr = ?ms" using grp by (auto simp: groupsOf_def)
  with arr have "(rDomain r, ?ms) \<in> set (GroupBy tos rDomain)" by simp
  then have gs: "(rDomain r, ?ms) \<in> set (rangeOrder n (GroupBy tos rDomain))" by (metis assms(5) set_mset_mset)
  have r: "r \<in> set ?ms" using Suc.prems(1) by simp
  then have "?ms ! 0 \<in> set ?ms" by (metis length_pos_if_in_set nth_mem)
  then have l: "rLocal (?ms ! 0)" using Suc.prems(2) by auto
  show ?case
  proof
    assume "send (Suc k) n frm tos mail = Some (Inr x)"
    then have "sendGroups (relayInside (send k n) n) frm (msgBody mail) (rangeOrder n (GroupBy tos rDomain))
        (mail\<lparr>msgBody := []\<rparr>) = Some (Inr x)" by simp
    from sendGroups_Inr [OF this gs l r] obtain m' y where i: "relayInside (send k n) n r m' = Some (Inr y)" by blast
    then obtain evs rs z where rs: "memberRcpts n (Members g) = Inr (evs, rs)" "send k n (rAddress r) rs m' = Some (Inr z)"
      using assms(1) by (auto simp: relayInside_def logged_def split: sum.splits option.splits)
    have "r \<in> set rs" by (rule memberRcpts_mem [OF rs(1) assms(2,3)])
    moreover have "\<forall>t \<in> set rs. rDomain t = rDomain r \<longrightarrow> rLocal t"
      using memberRcpts_ok [OF rs(1)] rcpt_ok(1) [OF assms(3) [unfolded memberOf_def]] assms(4) by (auto simp: rcptOk_def)
    ultimately show False using Suc.IH rs(2) by blast
  qed
qed simp

text \<open>Only the command \<open>RCPT\<close> panics.\<close>

lemma bindS_Inl: "bindS r f = Some (Inl p) \<Longrightarrow> r = Some (Inl p) \<or> (\<exists>m. f m = Some (Inl p))"
  by (auto simp: bindS_def split: option.splits sum.splits)

lemma relayMembers_Inl:
  "relayMembers inside body rs mail = Some (Inl p) \<Longrightarrow> \<exists>r m. inside r m = Some (Inl p)"
  by (induction rs arbitrary: mail) (auto dest!: bindS_Inl)

lemma sendGroups_Inl:
  "sendGroups inside frm body gs mail = Some (Inl p) \<Longrightarrow> \<exists>r m. inside r m = Some (Inl p)"
  by (induction inside frm body gs mail rule: sendGroups.induct)
    (auto dest!: bindS_Inl relayMembers_Inl split: if_splits)

lemma memberRcpts_Inl: "memberRcpts n ms = Inl p \<Longrightarrow> \<exists>m. memberOf n m = Inl (Panicked p)"
  by (induction ms) (auto simp: memberOf_def split: sum.splits relayError.splits)

lemma send_Inl: "send k n frm tos mail = Some (Inl p) \<Longrightarrow> \<exists>m. memberOf n m = Inl (Panicked p)"
proof (induction k arbitrary: frm tos mail)
  case (Suc k)
  from Suc.prems obtain r m where "relayInside (send k n) n r m = Some (Inl p)"
    by (auto dest: sendGroups_Inl)
  then show ?case using Suc.IH memberRcpts_Inl
    by (auto simp: relayInside_def logged_def split: option.splits sum.splits prod.splits)
qed simp

section \<open>Properties\<close>

text \<open>C8: a mail reaches everyone it is for exactly once, through groups of groups. When the groups
  are nested no deeper than \<open>k\<close> and no key of a member is unreadable, \<open>send\<close> returns, in whatever
  order the domains are visited. The recipients it queued the mail for, stored it for or logged a
  failure for, and the members it logged as refused, are then together those the mail was for: of
  a domain whose first recipient is one of this server, every recipient that is no group, and in
  the place of every group each of its members, as the command \<open>RCPT\<close> takes or refuses them; of
  another domain all recipients as they are.\<close>

theorem send_serves_all:
  assumes "list_all (nested k n) tos" and "\<And>gs. mset (rangeOrder n gs) = mset gs"
  shows "\<exists>mail' evs. send (Suc k) n frm tos mail = Some (Inr (mail', evs)) \<and>
    mset (servedAll evs) = demand k n tos"
  using send_groups [OF insider_nested [OF assms(2)] _ assms(2), of tos k frm mail] assms(1)
  by (auto simp: serves_def list_all_iff simp del: send.simps)

definition demoSend :: sendEnv where
  "demoSend = \<lparr>nWorld = emptyWorld, nBackend = demoBackend, nSession = newSession, nLib = demoLib,
     nPgp = \<lparr>isPGPMessage = \<lambda>b. b = ''PGP'', encryptFor = \<lambda>k t. Some (''ENC'' @ t), boundary = ''xx''\<rparr>,
     storeMail = \<lambda>_ _ _ _. Some 1, rangeOrder = \<lambda>gs. gs\<rparr>"

text \<open>A group, and an address of another domain.\<close>

definition teamRcpt :: RelayRcpt where
  "teamRcpt = noRcpt\<lparr>rUser := ''team'', rDomain := ''a.org'', rAddress := ''team@a.org'', rLocal := True,
     rGroup := Some \<lparr>Members = [''bob@a.org'', ''y@b.org''], AuthorizedSenders = []\<rparr>\<rparr>"

lemma demo_member: "memberOf demoSend ''bob@a.org'' = Inr bobRcpt" "memberOf demoSend ''y@b.org'' = Inl (SMTPError 551)"
  by (simp_all add: memberOf_def rcpt_def demoSend_def demoBackend_def demoConfig_def ParseAddress_def domainOf_def Exists_def existsStatic_def
      subaddressOf_def AdminEmails_def localRcpt_def noData_def bobRcpt_def noRcpt_def newSession_def withKey_def GetKey_def noCrypto_def)

theorem send_serves_all_witness:
  "\<exists>mail' evs. send 2 demoSend ''a'' [teamRcpt, forwardTo ''x@b.org''] \<lparr>msgHeader = [], msgBody = ''hi''\<rparr> =
     Some (Inr (mail', evs)) \<and> mset (servedAll evs) = {#Inl bobRcpt, Inr ''y@b.org'', Inl (forwardTo ''x@b.org'')#}"
proof -
  let ?tos = "[teamRcpt, forwardTo ''x@b.org'']"
  have g: "rGroup teamRcpt = Some \<lparr>Members = [''bob@a.org'', ''y@b.org''], AuthorizedSenders = []\<rparr>" "rLocal teamRcpt"
    "rGroup (forwardTo ''x@b.org'') = None" "rGroup bobRcpt = None" "rDomain (forwardTo ''x@b.org'') \<noteq> rDomain teamRcpt"
    "\<not> rLocal (forwardTo ''x@b.org'')"
    by (simp_all add: teamRcpt_def forwardTo_def bobRcpt_def noRcpt_def ParseAddress_def domainOf_def)
  have "\<exists>mail' evs. send (Suc (Suc 0)) demoSend ''a'' ?tos \<lparr>msgHeader = [], msgBody = ''hi''\<rparr> = Some (Inr (mail', evs)) \<and>
      mset (servedAll evs) = demand (Suc 0) demoSend ?tos"
    by (rule send_serves_all) (use g demo_member in \<open>simp_all add: demoSend_def [THEN arg_cong [of _ _ rangeOrder]]\<close>)
  then show ?thesis using g demo_member by (simp add: numeral_2_eq_2 demand_def add_mset_commute del: send.simps)
qed

text \<open>C40: the delivery to a group one of whose members is the group itself does not end: \<open>send\<close>
  calls itself for the group again and again. However deep the calls may go, it does not return,
  and when every key that is needed can be read it does not panic either, so that nothing stops
  it but the end of the stack.\<close>

theorem self_group_never_returns:
  assumes "rGroup r = Some g" and "m \<in> set (Members g)" and "memberOf n m = Inr r"
    and "rLocal r" and "\<And>gs. mset (rangeOrder n gs) = mset gs" and "\<And>a p. memberOf n a \<noteq> Inl (Panicked p)"
  shows "send k n frm [r] mail = None"
proof (cases "send k n frm [r] mail")
  case (Some res)
  then show ?thesis
    using self_group_stuck [OF assms(1-5), of "[r]" k frm mail] send_Inl [of k n frm "[r]" mail] assms(4,6)
    by (cases res) auto
qed simp

definition loopGroup :: Group where
  "loopGroup = \<lparr>Members = [''team@a.org''], AuthorizedSenders = []\<rparr>"

definition loopConfig :: Config where
  "loopConfig = demoConfig\<lparr>Static := Some \<lparr>Users = Map.empty, SystemUsers = Map.empty, staticGroups = [''team'' \<mapsto> loopGroup]\<rparr>\<rparr>"

definition loopRcpt :: RelayRcpt where
  "loopRcpt = noRcpt\<lparr>rUser := ''team'', rDomain := ''a.org'', rAddress := ''team@a.org'', rLocal := True, rGroup := Some loopGroup\<rparr>"

definition loopSend :: sendEnv where
  "loopSend = demoSend\<lparr>nBackend := demoBackend\<lparr>Domains := [''a.org'' \<mapsto> loopConfig]\<rparr>\<rparr>"

theorem self_group_never_returns_witness:
  "\<forall>k. send k loopSend ''bob@a.org'' [loopRcpt] \<lparr>msgHeader = [], msgBody = ''hi''\<rparr> = None"
proof -
  have g: "rGroup loopRcpt = Some loopGroup" "rLocal loopRcpt" by (simp_all add: loopRcpt_def)
  have m: "''team@a.org'' \<in> set (Members loopGroup)" by (simp add: loopGroup_def)
  have r: "memberOf loopSend ''team@a.org'' = Inr loopRcpt"
    by (simp add: memberOf_def rcpt_def loopSend_def demoSend_def demoBackend_def loopConfig_def demoConfig_def ParseAddress_def domainOf_def
        Exists_def existsStatic_def subaddressOf_def AdminEmails_def localRcpt_def noData_def loopRcpt_def noRcpt_def
        loopGroup_def Verify_def newSession_def)
  have o: "mset (rangeOrder loopSend gs) = mset gs" for gs by (simp add: loopSend_def demoSend_def)
  have key: "GetKey w noCrypto = Inr None" for w by (simp add: GetKey_def noCrypto_def)
  have np: "memberOf loopSend a \<noteq> Inl (Panicked p)" for a p
    by (auto simp: memberOf_def rcpt_def loopSend_def demoSend_def demoBackend_def loopConfig_def demoConfig_def Let_def
        Exists_def existsStatic_def localRcpt_def withKey_def key split: option.splits sum.splits if_splits prod.splits)
  show ?thesis using self_group_never_returns [OF g(1) m r g(2) o np] by blast
qed

text \<open>a mail that is a PGP message already reaches an account that has a key with an empty
  body, and is marked as encrypted.\<close>

theorem pgp_body_lost:
  assumes "rGroup r = None" and "rKey r = Some key" and "isPGPMessage (nPgp n) (msgBody mail)"
  shows "\<exists>mail'. relayInside again n r mail = Some (Inr (mail', storeFor n r True (mail\<lparr>msgBody := []\<rparr>)))"
  using assms by (simp add: relayInside_def EncryptEmail_pgp)

theorem pgp_body_lost_witness:
  "\<exists>mail'. relayInside (\<lambda>_ _ _. None) demoSend (bobRcpt\<lparr>rKey := Some ''k''\<rparr>) \<lparr>msgHeader = [], msgBody = ''PGP''\<rparr> =
     Some (Inr (mail', storeFor demoSend (bobRcpt\<lparr>rKey := Some ''k''\<rparr>) True \<lparr>msgHeader = [], msgBody = []\<rparr>))"
  using pgp_body_lost [where r = "bobRcpt\<lparr>rKey := Some ''k''\<rparr>" and n = demoSend and mail = "\<lparr>msgHeader = [], msgBody = ''PGP''\<rparr>"]
  by (simp add: bobRcpt_def noRcpt_def demoSend_def)

text \<open>the encryption for one account changes the mail of the next one: after an account with
  a key, an account without one gets the plain body under the headers of the encrypted one.\<close>

theorem encryption_headers_leak:
  assumes "rGroup ra = None" and "rKey ra = Some key" and "\<not> isPGPMessage (nPgp n) body"
    and "encryptFor (nPgp n) key (plainText (nLib n) (mail\<lparr>msgBody := body\<rparr>)) = Some enc"
    and "rGroup rb = None" and "rKey rb = None"
  shows "\<exists>mail' evs. relayMembers (relayInside again n) body [ra, rb] mail =
    Some (Inr (mail', evs @ storeFor n rb False
      \<lparr>msgHeader = encryptedHeader (nLib n) (boundary (nPgp n)) (msgHeader mail), msgBody = body\<rparr>))"
  using assms by (simp add: relayInside_def EncryptEmail_def bindS_def)

theorem encryption_headers_leak_witness:
  "\<exists>mail' evs. relayMembers (relayInside (\<lambda>_ _ _. None) demoSend) ''hi'' [bobRcpt\<lparr>rKey := Some ''k''\<rparr>, bobRcpt]
     \<lparr>msgHeader = [], msgBody = []\<rparr> = Some (Inr (mail', evs @ storeFor demoSend bobRcpt False
       \<lparr>msgHeader = encryptedHeader demoLib ''xx'' [], msgBody = ''hi''\<rparr>))"
  using encryption_headers_leak [where n = demoSend and ra = "bobRcpt\<lparr>rKey := Some ''k''\<rparr>" and rb = bobRcpt and body = "''hi''"
      and mail = "\<lparr>msgHeader = [], msgBody = []\<rparr>" and key = "''k''"]
  by (simp add: bobRcpt_def noRcpt_def demoSend_def)

text \<open>an address a filter forwards to is queued for another server, even when its domain is
  one of this server.\<close>

theorem forward_leaves_server:
  assumes "\<And>gs. mset (rangeOrder n gs) = mset gs"
  shows "send (Suc k) n frm [forwardTo a] mail =
    Some (Inr (mail, [Enqueued frm [forwardTo a] (domainOf a)]))"
proof -
  have "GroupBy [forwardTo a] rDomain = [(domainOf a, [forwardTo a])]"
    by (simp add: GroupBy_def forwardTo_def)
  moreover have "rangeOrder n [g] = [g]" for g using assms [of "[g]"] by simp
  ultimately show ?thesis by (simp add: bindS_def forwardTo_def noRcpt_def)
qed

theorem forward_leaves_server_witness:
  "send 1 demoSend ''x@b.org'' [forwardTo ''bob@a.org''] \<lparr>msgHeader = [], msgBody = ''hi''\<rparr> =
     Some (Inr (\<lparr>msgHeader = [], msgBody = ''hi''\<rparr>,
       [Enqueued ''x@b.org'' [forwardTo ''bob@a.org''] ''a.org'']))
   \<and> ''a.org'' \<in> dom (Domains (nBackend demoSend))"
  using forward_leaves_server [where n = demoSend and k = 0 and frm = "''x@b.org''" and a = "''bob@a.org''"
      and mail = "\<lparr>msgHeader = [], msgBody = ''hi''\<rparr>"]
  by (simp add: demoSend_def demoBackend_def domainOf_def del: send.simps)

text \<open>the queue and the accounts share the mail: when the domain of an account is visited after one
  that is queued, what the queue has a pointer to is left without a body as soon as the account
  is served.\<close>

theorem queued_mail_drained:
  assumes "\<not> rLocal (hd outs)" and "outs \<noteq> []" and "rLocal r" and "rGroup r = None"
  shows "\<exists>mail' evs. sendGroups (relayInside again n) frm body [(d, outs), (d', [r])] mail =
    Some (Inr (mail', Enqueued frm outs d # evs)) \<and> msgBody mail' = []"
  using assms by (auto simp: bindS_def relayInside_def hd_conv_nth split: option.splits prod.splits)

theorem queued_mail_drained_witness:
  "\<exists>mail' evs. sendGroups (relayInside (\<lambda>_ _ _. None) demoSend) ''a'' ''hi'' [(''b.org'', [forwardTo ''x@b.org'']), (''a.org'', [bobRcpt])]
     \<lparr>msgHeader = [], msgBody = []\<rparr> = Some (Inr (mail', Enqueued ''a'' [forwardTo ''x@b.org''] ''b.org'' # evs)) \<and> msgBody mail' = []"
  by (rule queued_mail_drained) (simp_all add: bobRcpt_def forwardTo_def noRcpt_def)

end
