(* ===== verification/Relay_Verify.thy ===== *)
theory Relay_Verify
  imports Relay_Data
begin

text \<open>
  The exchange with the spam filter: \<open>do\<close> and \<open>Verify\<close> of \<open>src/relay/rspamd.go\<close>, which Relay_Rspamd and
  Relay_Data take as an argument.

  The client of HTTP, the encoder and the decoder of JSON, the check of an address, and the parsers of a media type and of a
  body in parts are arguments. The body of a request is the list of its parts. A reader of
  parts has what is left to read of each part, the place of the next one, and whether the end of the last one is there. A part is a
  reader, its place: who keeps it reads what is left when he gets to it. \<open>NextPart\<close> of \<open>mime/multipart\<close> first closes the part it
  gave before, which reads the rest of it. The response of a failed request is not closed, which is left out.
\<close>

section \<open>Requests and parts\<close>

record httpRequest =
  reqURL :: string
  reqHeader :: "(string \<times> string) list"
  reqParts :: "((string \<times> string) list \<times> string) list"

record httpResponse =
  StatusCode :: int
  contentType :: string
  rawBody :: string

record multipartReader =
  mrParts :: "string list"
  mrNext :: nat
  mrEnds :: bool

record httpLib =
  goodURL :: "string \<Rightarrow> bool"
  clientDo :: "httpRequest \<Rightarrow> httpResponse option"
  encodeJSON :: "RspamdMetadata \<Rightarrow> string option"
  decodeJSON :: "string \<Rightarrow> RspamdResponse option"
  boundaryOf :: "string \<Rightarrow> string option"
  partsOf :: "string \<Rightarrow> string \<Rightarrow> string list \<times> bool"
  wBoundary :: string

datatype verifyError =
    ErrEncode | ErrRender | ErrURL | ErrHTTP | ErrStatus int | FatalExit | ErrPart | PartEOF | ErrDecodeJSON | ErrInvalidResponse

definition closePart :: "multipartReader \<Rightarrow> multipartReader" where
  "closePart r = (case mrNext r of 0 \<Rightarrow> r | Suc i \<Rightarrow> r\<lparr>mrParts := (mrParts r)[i := []]\<rparr>)"

definition NextPart :: "multipartReader \<Rightarrow> (verifyError + nat) \<times> multipartReader" where
  "NextPart r =
     (let r' = closePart r
      in if mrNext r < length (mrParts r) then (Inr (mrNext r), r'\<lparr>mrNext := Suc (mrNext r)\<rparr>)
         else (Inl (if mrEnds r then PartEOF else ErrPart), r'))"

section \<open>The client\<close>

text \<open>\<open>strings.TrimSuffix\<close> and \<open>strings.TrimPrefix\<close> of a slash, and the address of a request.\<close>

definition rspamdURL :: "string \<Rightarrow> string \<Rightarrow> string" where
  "rspamdURL url uri =
     (if has_prefix (rev url) ''/'' then butlast url else url) @ ''/'' @ (if has_prefix uri ''/'' then tl uri else uri)"

definition formPart :: "string \<Rightarrow> string \<Rightarrow> string \<Rightarrow> (string \<times> string) list \<times> string" where
  "formPart name kind c =
     ([(''Content-Disposition'', ''form-data; name='' @ CHR 0x22 # name @ [CHR 0x22]), (''Content-Type'', kind)], c)"

definition rspamdDo ::
  "msglib \<Rightarrow> httpLib \<Rightarrow> string \<Rightarrow> RspamdMetadata option \<Rightarrow> Message \<Rightarrow> string \<Rightarrow> verifyError + multipartReader" where
  "rspamdDo lib http url metadata email uri =
     (case (case metadata of
              None \<Rightarrow> Some []
            | Some m \<Rightarrow> (case encodeJSON http m of None \<Rightarrow> None | Some j \<Rightarrow> Some [formPart ''metadata'' ''application/json'' j])) of
        None \<Rightarrow> Inl ErrEncode
      | Some ps \<Rightarrow>
          (case renderMessage lib email of
             None \<Rightarrow> Inl ErrRender
           | Some cp \<Rightarrow>
               let addr = rspamdURL url uri;
                   req = \<lparr>reqURL = addr,
                          reqHeader = [(''Content-Type'', ''multipart/form-data; boundary='' @ wBoundary http), (''PerformDkimSign'', ''Yes'')],
                          reqParts = ps @ [formPart ''message'' ''application/octet-stream'' cp]\<rparr>
               in if \<not> goodURL http addr then Inl ErrURL
                  else case clientDo http req of
                         None \<Rightarrow> Inl ErrHTTP
                       | Some resp \<Rightarrow>
                           if StatusCode resp > 299 then Inl (ErrStatus (StatusCode resp))
                           else (case boundaryOf http (contentType resp) of
                                   None \<Rightarrow> Inl FatalExit
                                 | Some boundary \<Rightarrow>
                                     (case partsOf http boundary (rawBody resp) of
                                        (parts, ends) \<Rightarrow> Inr \<lparr>mrParts = parts, mrNext = 0, mrEnds = ends\<rparr>))))"

text \<open>\<open>Verify\<close>: the response, and the mail. When there is a second part the body of the mail is that
  part, read by whoever sends the mail, after the last call of \<open>NextPart\<close>.\<close>

definition VerifyMail ::
  "msglib \<Rightarrow> httpLib \<Rightarrow> string \<Rightarrow> RspamdMetadata \<Rightarrow> Message \<Rightarrow> verifyError + RspamdResponse \<times> Message" where
  "VerifyMail lib http url metadata email =
     (case rspamdDo lib http url (Some metadata) email ''checkv3'' of
        Inl err \<Rightarrow> Inl err
      | Inr r \<Rightarrow>
          (case NextPart r of
             (Inl err, _) \<Rightarrow> Inl err
           | (Inr p, r1) \<Rightarrow>
               (case decodeJSON http (mrParts r1 ! p) of
                  None \<Rightarrow> Inl ErrDecodeJSON
                | Some resp \<Rightarrow>
                    (case NextPart r1 of
                       (Inl err, _) \<Rightarrow> if err \<noteq> PartEOF then Inl err else Inr (resp, email)
                     | (Inr body, r2) \<Rightarrow>
                         (case NextPart r2 of
                            (Inr _, _) \<Rightarrow> Inl ErrInvalidResponse
                          | (Inl err, r3) \<Rightarrow>
                              if err \<noteq> PartEOF then Inl err
                              else Inr (resp, email\<lparr>msgBody := mrParts r3 ! body\<rparr>))))))"

text \<open>What \<open>Analyze\<close> sees of it.\<close>

definition verifierOf :: "msglib \<Rightarrow> httpLib \<Rightarrow> string \<Rightarrow> verifier" where
  "verifierOf lib http url metadata email =
     (case VerifyMail lib http url metadata email of Inl _ \<Rightarrow> None | Inr r \<Rightarrow> Some r)"

section \<open>Properties\<close>

lemma rspamdURL_slash: "\<not> has_prefix (rev url) ''/'' \<Longrightarrow> rspamdURL (url @ ''/'') uri = rspamdURL url uri"
  by (simp add: rspamdURL_def)

text \<open>A new reader is at its first part, and \<open>NextPart\<close> keeps the parts it did not give yet.\<close>

lemma rspamdDo_new:
  "rspamdDo lib http url metadata email uri = Inr r \<Longrightarrow> mrNext r = 0"
  by (auto simp: rspamdDo_def Let_def split: option.splits if_splits prod.splits)

lemma NextPart_first:
  "mrNext r = 0 \<Longrightarrow> NextPart r = (if mrParts r = [] then (Inl (if mrEnds r then PartEOF else ErrPart), r) else (Inr 0, r\<lparr>mrNext := 1\<rparr>))"
  by (simp add: NextPart_def closePart_def)

lemma NextPart_next:
  "mrNext r = Suc i \<Longrightarrow> NextPart r =
     (if Suc i < length (mrParts r) then (Inr (Suc i), r\<lparr>mrParts := (mrParts r)[i := []], mrNext := Suc (Suc i)\<rparr>)
      else (Inl (if mrEnds r then PartEOF else ErrPart), r\<lparr>mrParts := (mrParts r)[i := []]\<rparr>))"
  by (simp add: NextPart_def closePart_def)

text \<open>The outcome by the parts of the answer.\<close>

lemma VerifyMail_parts:
  assumes "rspamdDo lib http url (Some metadata) email ''checkv3'' = Inr r"
  shows "VerifyMail lib http url metadata email =
    (case mrParts r of
       [] \<Rightarrow> Inl (if mrEnds r then PartEOF else ErrPart)
     | p # ps \<Rightarrow>
         (case decodeJSON http p of
            None \<Rightarrow> Inl ErrDecodeJSON
          | Some resp \<Rightarrow>
              if length ps > 1 then Inl ErrInvalidResponse
              else if \<not> mrEnds r then Inl ErrPart
              else Inr (resp, if ps = [] then email else email\<lparr>msgBody := []\<rparr>)))"
proof (cases "mrParts r")
  case (Cons p ps)
  then show ?thesis
    using assms rspamdDo_new [OF assms]
    by (cases ps) (auto simp: VerifyMail_def NextPart_first NextPart_next split: option.split)
qed (use assms rspamdDo_new [OF assms] in \<open>simp add: VerifyMail_def NextPart_first\<close>)

lemma analyzed_body:
  assumes "Analyze lib verify ip s email = (Inr x, mail)"
  shows "\<exists>resp mail0. verify (metadataOf ip s) email = Some (resp, mail0) \<and> msgBody mail = msgBody mail0"
  using assms
  by (auto simp: Analyze_def actOn_def addDkim_def Let_def split: option.splits prod.splits if_splits)

lemma applyResult_body: "resultClean res \<Longrightarrow> applyResult e b res d = (err, d') \<Longrightarrow> msgBody (dMail d') = msgBody (dMail d)"
  by (auto simp: applyResult_def applyAction_def keepLearned_def changeMail_def resultClean_def
      split: prod.splits if_splits option.splits sum.splits ResultAction.splits)

lemma dataLoop_body:
  "filtersOk b \<Longrightarrow> dataLoop e b i tos d = (err, d') \<Longrightarrow> msgBody (dMail d') = msgBody (dMail d)"
proof (induction e b i tos d rule: dataLoop.induct)
  case (2 e b i to tos d)
  show ?case
  proof (cases "setRcpt i to d")
    case (Inr d1)
    have d1: "dMail d1 = dMail d" using Inr by (auto simp: setRcpt_def split: if_splits)
    show ?thesis
    proof (cases "checkFilters (eSame e) (NewContext (sFrom (dSession d1)) (inboxFolder to) (dMail d1)) (Filters b)")
      case res: (Inr res)
      obtain err2 d2 where a: "applyResult e b res d1 = (err2, d2)" by (cases "applyResult e b res d1")
      have b: "msgBody (dMail d2) = msgBody (dMail d1)" by (rule applyResult_body [OF checkFilters_Init_clean [OF 2(2) res] a])
      show ?thesis using 2(1) [OF Inr res a [symmetric] _ 2(2)] 2(3) Inr res a b d1 by (cases err2) auto
    qed (use 2(3) Inr d1 in auto)
  qed (use 2(3) in auto)
qed simp

text \<open>C7: a mail the spam filter changes is delivered without a text: when it answers with a new body, whatever that is, a mail that is
  accepted goes out with an empty one; when it does not, the mail keeps its own.\<close>

theorem rewritten_mail_is_empty:
  assumes "filtersOk b" and "Rspamd b \<noteq> None" and "eVerify e = verifierOf (eLib e) http url"
    and "readMessage (eLib e) raw = Some mail"
    and "rspamdDo (eLib e) http url (Some (metadataOf (eIP e) s)) mail ''checkv3'' = Inr r" and "Data e b raw s = (Inr out, s')"
  shows "length (mrParts r) \<in> {1, 2} \<and> msgBody (outMail out) = (if length (mrParts r) = 2 then [] else msgBody mail)"
proof -
  obtain score wait mail1 where an: "analyzed e b s mail = (Inr (score, wait), mail1)"
    and body: "msgBody (outMail out) = msgBody mail1"
    using assms(4,6) dataLoop_body [OF assms(1)]
    by (fastforce simp: Data_def split: sum.splits prod.splits option.splits)
  obtain x where "Analyze (eLib e) (verifierOf (eLib e) http url) (eIP e) s mail = (Inr x, mail1)"
    using an assms(2,3) by (auto simp: analyzed_def split: option.splits sum.splits prod.splits)
  then obtain resp mail0 where v: "VerifyMail (eLib e) http url (metadataOf (eIP e) s) mail = Inr (resp, mail0)"
    and "msgBody mail1 = msgBody mail0"
    using analyzed_body by (fastforce simp: verifierOf_def split: sum.splits)
  then show ?thesis
    using body v unfolding VerifyMail_parts [OF assms(5)] by (auto simp: not_less le_Suc_eq split: list.splits option.splits if_splits)
qed

text \<open>An answer with a new body.\<close>

definition demoHTTP :: httpLib where
  "demoHTTP = \<lparr>goodURL = \<lambda>_. True, clientDo = \<lambda>_. Some \<lparr>StatusCode = 200, contentType = ''multipart/form-data'', rawBody = []\<rparr>,
     encodeJSON = \<lambda>_. Some [], decodeJSON = \<lambda>_. Some demoResponse, boundaryOf = Some, partsOf = \<lambda>_ _. ([''{}'', ''new''], True),
     wBoundary = []\<rparr>"

theorem rewritten_mail_is_empty_witness:
  "\<exists>out s'. Data (demoEnv\<lparr>eVerify := verifierOf demoLib demoHTTP []\<rparr>) (demoBackend\<lparr>Rspamd := Some []\<rparr>) ''hi'' newSession = (Inr out, s') \<and>
     msgBody (outMail out) = []"
proof -
  let ?e = "demoEnv\<lparr>eVerify := verifierOf demoLib demoHTTP []\<rparr>" and ?b = "demoBackend\<lparr>Rspamd := Some []\<rparr>"
  let ?mail = "\<lparr>msgHeader = [], msgBody = ''hi''\<rparr>" and ?r = "\<lparr>mrParts = [''{}'', ''new''], mrNext = 0, mrEnds = True\<rparr>"
  have e: "eLib demoEnv = demoLib" "readMessage demoLib ''hi'' = Some ?mail" by (simp_all add: demoEnv_def demoLib_def)
  have r: "rspamdDo demoLib demoHTTP [] (Some m) ?mail ''checkv3'' = Inr ?r" for m
    by (simp add: rspamdDo_def demoHTTP_def demoLib_def Let_def)
  have v: "verifierOf demoLib demoHTTP [] m ?mail = Some (demoResponse, ?mail\<lparr>msgBody := []\<rparr>)" for m
    unfolding verifierOf_def VerifyMail_parts [OF r] by (simp add: demoHTTP_def)
  have "\<exists>x m. analyzed ?e ?b newSession ?mail = (Inr x, m)"
    using v by (simp add: analyzed_def e Analyze_def demoResponse_def addDkim_def actOn_def)
  then have "\<exists>out s'. Data ?e ?b ''hi'' newSession = (Inr out, s')"
    by (force simp: Data_def e newSession_def)
  then show ?thesis
    using rewritten_mail_is_empty [of ?b ?e demoHTTP "[]" "''hi''" ?mail newSession ?r] e r
    by (auto simp: filtersOk_def demoBackend_def)
qed

text \<open>The process ends when the service answers with a type of content that is none.\<close>

lemma bad_content_type_ends_server:
  assumes "encodeJSON http metadata = Some j" and "renderMessage lib email = Some cp" and "goodURL http (rspamdURL url ''checkv3'')"
    and "\<forall>req. \<exists>resp. clientDo http req = Some resp \<and> StatusCode resp \<le> 299 \<and> boundaryOf http (contentType resp) = None"
  shows "VerifyMail lib http url metadata email = Inl FatalExit"
proof -
  have "rspamdDo lib http url (Some metadata) email ''checkv3'' = Inl FatalExit"
    using assms by (fastforce simp: rspamdDo_def Let_def split: option.split)
  then show ?thesis by (simp add: VerifyMail_def)
qed

end
