(* ===== verification/Store_Format.thy ===== *)
theory Store_Format
  imports Atmail_Prelude
begin

text \<open>
  The files mails are stored in: \<open>src/storage/store/format.go\<close>.

  A file is its bytes. A record of a file is a byte of flags, the length of the content in four
  bytes, most significant first, and the content. Compression is a pair of arguments, \<open>gzip\<close> and
  \<open>gunzip\<close>; what the code relies on, that the second undoes the first, is a hypothesis of the
  theorems that need it. The contents are read to their end, so an error of \<open>gunzip\<close> is that of
  \<open>gzip.NewReader\<close> or of a later read. Errors of the disk are not modelled.
\<close>

unbundle bit_operations_syntax

section \<open>Numbers and files\<close>

text \<open>\<open>binary.BigEndian\<close>.\<close>

definition AppendUint32 :: "bytes \<Rightarrow> u32 \<Rightarrow> bytes" where
  "AppendUint32 b v = b @ [ucast (drop_bit 24 v), ucast (drop_bit 16 v), ucast (drop_bit 8 v), ucast v]"

fun Uint32 :: "bytes \<Rightarrow> u32" where
  "Uint32 (a # b # c # d # _) =
     ucast d OR push_bit 8 (ucast c) OR push_bit 16 (ucast b) OR push_bit 24 (ucast a)"
| "Uint32 _ = 0"

text \<open>\<open>File.Write\<close> at a position, which may be past the end of the file.\<close>

definition writeAt :: "bytes \<Rightarrow> nat \<Rightarrow> bytes \<Rightarrow> bytes" where
  "writeAt f pos d =
     (let g = f @ replicate (pos - length f) 0 in take pos g @ d @ drop (pos + length d) g)"

section \<open>Reader, WriteEmail and DeleteEmailAt\<close>

definition MaxFileSize :: nat where
  "MaxFileSize = 20 * 1024 * 1024"

definition MaxEmailSizeInFile :: nat where
  "MaxEmailSizeInFile = 5 * 1024 * 1024"

definition CompressEmailBiggerThan :: nat where
  "CompressEmailBiggerThan = 1024"

definition EmailDeleted :: u8 where
  "EmailDeleted = 1"

definition EmailCompressed :: u8 where
  "EmailCompressed = 2"

definition EmailEncrypted :: u8 where
  "EmailEncrypted = 4"

datatype fileError = EOF | ErrUnexpectedEOF | ErrFileIsFull | ErrGzip | ErrNotExist

text \<open>The content of a record that is not deleted, and its flags.\<close>

definition Reader :: "(bytes \<Rightarrow> bytes option) \<Rightarrow> bytes \<Rightarrow> nat \<Rightarrow> fileError + (bytes \<times> u8) option" where
  "Reader gunzip f offset =
     (let rest = drop offset f; header = take 5 rest in
      if header = [] then Inl EOF
      else if length header < 5 then Inl ErrUnexpectedEOF
      else if header ! 0 AND EmailDeleted \<noteq> 0 then Inr None
      else
        let ln = Uint32 (drop 1 header); rc = take (unat ln) (drop 5 rest) in
        if header ! 0 AND EmailCompressed \<noteq> 0 then
          (case gunzip rc of None \<Rightarrow> Inl ErrGzip | Some b \<Rightarrow> Inr (Some (b, header ! 0)))
        else Inr (Some (rc, header ! 0)))"

definition WriteEmail :: "(bytes \<Rightarrow> bytes) \<Rightarrow> bytes \<Rightarrow> nat \<Rightarrow> bool \<Rightarrow> bytes \<Rightarrow> fileError + u32 \<times> bytes" where
  "WriteEmail gzip f pos encrypted b =
     (if length f \<ge> MaxFileSize then Inl ErrFileIsFull
      else
        let big = length b \<ge> CompressEmailBiggerThan;
            h = (if big then EmailCompressed else 0);
            b' = (if big then gzip b else b);
            h' = (if encrypted then h OR EmailEncrypted else h);
            header = AppendUint32 [h'] (of_nat (length b'));
            f1 = writeAt f pos header;
            f2 = writeAt f1 (pos + length header) b'
        in Inr (of_nat (length header) + of_nat (length b'), f2))"

definition DeleteEmailAt :: "bytes \<Rightarrow> nat \<Rightarrow> fileError + bytes" where
  "DeleteEmailAt f offset =
     (if offset \<ge> length f then Inl EOF else Inr (writeAt f offset [f ! offset OR EmailDeleted]))"

section \<open>Records\<close>

text \<open>The record at a position of a file, all of which is there, and how one is written.\<close>

definition recordAt :: "bytes \<Rightarrow> nat \<Rightarrow> (u8 \<times> bytes) option" where
  "recordAt f p =
     (let ln = unat (Uint32 (take 4 (drop (Suc p) f))) in
      if p + 5 + ln \<le> length f then Some (f ! p, take ln (drop (p + 5) f)) else None)"

definition encodeRecord :: "u8 \<times> bytes \<Rightarrow> bytes" where
  "encodeRecord r = AppendUint32 [fst r] (of_nat (length (snd r))) @ snd r"

definition putRecord :: "bytes \<Rightarrow> nat \<Rightarrow> u8 \<times> bytes \<Rightarrow> bytes" where
  "putRecord f p r = writeAt f p (encodeRecord r)"

definition recordSize :: "u8 \<times> bytes \<Rightarrow> nat" where
  "recordSize r = 5 + length (snd r)"

definition recordFits :: "u8 \<times> bytes \<Rightarrow> bool" where
  "recordFits r \<longleftrightarrow> length (snd r) < 2 ^ 32"

definition killRecord :: "bytes \<Rightarrow> nat \<Rightarrow> bytes" where
  "killRecord f p = writeAt f p [f ! p OR EmailDeleted]"

definition markDeleted :: "u8 \<times> bytes \<Rightarrow> u8 \<times> bytes" where
  "markDeleted r = (fst r OR EmailDeleted, snd r)"

definition contentOf :: "(bytes \<Rightarrow> bytes option) \<Rightarrow> u8 \<times> bytes \<Rightarrow> fileError + (bytes \<times> u8) option" where
  "contentOf gunzip r =
     (if fst r AND EmailDeleted \<noteq> 0 then Inr None
      else if fst r AND EmailCompressed \<noteq> 0 then
        (case gunzip (snd r) of None \<Rightarrow> Inl ErrGzip | Some b \<Rightarrow> Inr (Some (b, fst r)))
      else Inr (Some (snd r, fst r)))"

definition recordOf :: "(bytes \<Rightarrow> bytes) \<Rightarrow> bool \<Rightarrow> bytes \<Rightarrow> u8 \<times> bytes" where
  "recordOf gzip encrypted b =
     ((if length b \<ge> CompressEmailBiggerThan then EmailCompressed else 0)
        OR (if encrypted then EmailEncrypted else 0),
      if length b \<ge> CompressEmailBiggerThan then gzip b else b)"

section \<open>Lemmas on bytes and files\<close>

lemma length_AppendUint32 [simp]: "length (AppendUint32 b v) = length b + 4"
  by (simp add: AppendUint32_def)

lemma Uint32_AppendUint32: "Uint32 (AppendUint32 [] v) = v"
proof -
  have "ucast (ucast v :: u8) OR push_bit 8 (ucast (ucast (drop_bit 8 v) :: u8))
      OR push_bit 16 (ucast (ucast (drop_bit 16 v) :: u8)) OR push_bit 24 (ucast (ucast (drop_bit 24 v) :: u8)) = v"
    (is "?w = v")
  proof (rule bit_word_eqI)
    fix n
    assume "n < LENGTH(32)"
    then consider "n < 8" | "8 \<le> n" "n < 16" | "16 \<le> n" "n < 24" | "24 \<le> n" "n < 32" by fastforce
    then show "bit ?w n = bit v n" by cases (auto simp: bit_simps)
  qed
  then show ?thesis by (simp add: AppendUint32_def)
qed

lemma u8_high: "8 \<le> n \<Longrightarrow> \<not> bit (x :: u8) n"
  using bit_imp_le_length [of x n] by auto

lemma AppendUint32_Uint32: "length b = 4 \<Longrightarrow> AppendUint32 [] (Uint32 b) = b"
proof -
  assume "length b = 4"
  then obtain w x y z where b: "b = [w, x, y, z]"
    by (auto simp: numeral_eq_Suc length_Suc_conv)
  show ?thesis unfolding b AppendUint32_def
    by (auto intro!: bit_word_eqI simp: bit_simps u8_high)
qed

lemma AppendUint32_Cons: "AppendUint32 (h # b) v = h # AppendUint32 b v"
  by (simp add: AppendUint32_def)

lemma writeAt_append: "writeAt (writeAt f p a) (p + length a) b = writeAt f p (a @ b)"
  by (auto simp: writeAt_def Let_def min_def) (simp_all add: drop_take ac_simps)

lemma slice_writeAt_same: "take (length d) (drop p (writeAt f p d)) = d"
  by (simp add: writeAt_def Let_def)

lemma slice_writeAt_before:
  assumes "q + k \<le> p" "q + k \<le> length f"
  shows "take k (drop q (writeAt f p d)) = take k (drop q f)"
  using assms by (simp add: writeAt_def Let_def take_drop min_def)

lemma slice_writeAt_after: "p + length d \<le> q \<Longrightarrow> drop q (writeAt f p d) = drop q f"
  by (cases "p \<le> length f") (simp_all add: writeAt_def Let_def)

lemma length_writeAt: "length (writeAt f p d) = max (length f) (p + length d)"
  by (auto simp: writeAt_def Let_def)

lemma length_encodeRecord [simp]: "length (encodeRecord r) = recordSize r"
  by (simp add: encodeRecord_def recordSize_def)

lemma recordAt_parts:
  assumes "drop p f = h # b @ rest" "length b = 4"
  shows "recordAt f p =
    (if unat (Uint32 b) \<le> length rest then Some (h, take (unat (Uint32 b)) rest) else None)"
proof -
  have "length f - p = 5 + length rest" using arg_cong [OF assms(1), of length] assms(2) by simp
  then have "length f = p + 5 + length rest" by linarith
  moreover have "drop (Suc p) f = b @ rest"
    using arg_cong [OF assms(1), of "drop 1"] by (simp add: ac_simps)
  moreover have "drop (p + 5) f = rest"
    using arg_cong [OF assms(1), of "drop 5"] assms(2) by (simp add: ac_simps drop_Cons')
  moreover have "f ! p = h" using arg_cong [OF assms(1), of "\<lambda>l. l ! 0"] calculation(1) by simp
  ultimately show ?thesis using assms(2) by (simp add: recordAt_def)
qed

lemma recordAt_short: "length (drop p f) < 5 \<Longrightarrow> recordAt f p = None"
  by (auto simp: recordAt_def Let_def)

lemma five_bytes: "\<not> length l < 5 \<Longrightarrow> \<exists>h b rest. l = h # b @ rest \<and> length b = 4"
proof -
  assume "\<not> length l < 5"
  then obtain h t where "l = h # t" "4 \<le> length t" by (cases l) auto
  then have "l = h # take 4 t @ drop 4 t \<and> length (take 4 t) = 4" by simp
  then show ?thesis by blast
qed

lemma unat_of_length: "n < 2 ^ 32 \<Longrightarrow> unat (of_nat n :: u32) = n"
  by (simp add: unat_of_nat take_bit_nat_eq_self)

text \<open>A record is at a position exactly when its bytes are.\<close>

lemma recordAt_iff:
  "recordAt f p = Some r \<longleftrightarrow> recordFits r \<and> take (recordSize r) (drop p f) = encodeRecord r"
proof
  assume r: "recordAt f p = Some r"
  then have "\<not> length (drop p f) < 5" using recordAt_short by fastforce
  then obtain h b rest where f: "drop p f = h # b @ rest" "length b = 4" using five_bytes by blast
  have *: "unat (Uint32 b) \<le> length rest" "r = (h, take (unat (Uint32 b)) rest)"
    using r unfolding recordAt_parts [OF f] by (auto split: if_splits)
  have "unat (Uint32 b) < 2 ^ 32" using unsigned_less [of "Uint32 b", where ?'a = nat] by simp
  moreover have "encodeRecord r = h # b @ take (unat (Uint32 b)) rest"
    using * AppendUint32_Uint32 [OF f(2)] by (simp add: encodeRecord_def AppendUint32_Cons)
  moreover have "take (recordSize r) (drop p f) = h # b @ take (unat (Uint32 b)) rest"
    using * f by (simp add: recordSize_def take_Cons')
  ultimately show "recordFits r \<and> take (recordSize r) (drop p f) = encodeRecord r"
    using * by (simp add: recordFits_def)
next
  assume r: "recordFits r \<and> take (recordSize r) (drop p f) = encodeRecord r"
  let ?b = "AppendUint32 [] (of_nat (length (snd r)))"
  obtain t where "drop p f = encodeRecord r @ t"
    using r by (metis append_take_drop_id)
  then have "drop p f = fst r # ?b @ (snd r @ t)"
    by (simp add: encodeRecord_def AppendUint32_Cons)
  from recordAt_parts [OF this] r show "recordAt f p = Some r"
    by (simp add: Uint32_AppendUint32 recordFits_def unat_of_length)
qed

text \<open>What a client of the files relies on, and what the code's records give.\<close>

locale record_file =
  fixes put :: "'f \<Rightarrow> nat \<Rightarrow> 'r \<Rightarrow> 'f" and rec :: "'f \<Rightarrow> nat \<Rightarrow> 'r option"
    and size :: "'r \<Rightarrow> nat" and fits :: "'r \<Rightarrow> bool"
    and kill :: "'f \<Rightarrow> nat \<Rightarrow> 'f" and mark :: "'r \<Rightarrow> 'r"
  assumes rec_put: "fits r \<Longrightarrow> rec (put f p r) p = Some r"
    and rec_put_before: "rec f q = Some s \<Longrightarrow> q + size s \<le> p \<Longrightarrow> rec (put f p r) q = Some s"
    and rec_kill: "rec f p = Some r \<Longrightarrow> rec (kill f p) p = Some (mark r)"
    and rec_kill_other: "rec f q = Some s \<Longrightarrow> rec f p = Some r \<Longrightarrow> q + size s \<le> p \<or> p + size r \<le> q \<Longrightarrow>
      rec (kill f p) q = Some s"
begin

text \<open>An index of records in files: each is where the index says.\<close>

definition indexed :: "('n \<Rightarrow> 'f option) \<Rightarrow> ('n \<times> nat \<times> 'r) set \<Rightarrow> bool" where
  "indexed files ix \<longleftrightarrow> (\<forall>(n, p, r) \<in> ix. \<exists>f. files n = Some f \<and> rec f p = Some r)"

lemma indexed_mono: "indexed files ix \<Longrightarrow> jx \<subseteq> ix \<Longrightarrow> indexed files jx"
  unfolding indexed_def by blast

text \<open>A record written after all those of its file joins the index.\<close>

lemma indexed_put:
  assumes "indexed files ix" "fits r"
    and "\<And>f. files name = Some f \<Longrightarrow> f = f0"
    and "\<forall>(n, q, s) \<in> ix. n = name \<longrightarrow> q + size s \<le> p"
  shows "indexed (files(name := Some (put f0 p r))) (insert (name, p, r) ix)"
  using assms rec_put rec_put_before unfolding indexed_def by fastforce

text \<open>The records of an index do not overlap.\<close>

definition disjoint :: "('n \<times> nat \<times> 'r) set \<Rightarrow> bool" where
  "disjoint ix \<longleftrightarrow>
     (\<forall>n p r q s. (n, p, r) \<in> ix \<longrightarrow> (n, q, s) \<in> ix \<longrightarrow> p = q \<and> r = s \<or> p + size r \<le> q \<or> q + size s \<le> p)"

lemma disjointD:
  "disjoint ix \<Longrightarrow> (n, p, r) \<in> ix \<Longrightarrow> (n, q, s) \<in> ix \<Longrightarrow> (p, r) \<noteq> (q, s) \<Longrightarrow> p + size r \<le> q \<or> q + size s \<le> p"
  unfolding disjoint_def by blast

lemma disjoint_mono: "disjoint ix \<Longrightarrow> jx \<subseteq> ix \<Longrightarrow> disjoint jx"
  unfolding disjoint_def by (meson subsetD)

lemma disjoint_insert:
  assumes "disjoint ix" "\<forall>(n, q, s) \<in> ix. n = name \<longrightarrow> q + size s \<le> p"
  shows "disjoint (insert (name, p, r) ix)"
proof -
  have new: "q + size s \<le> p" if "(name, q, s) \<in> ix" for q s using assms(2) that by blast
  show ?thesis
    unfolding disjoint_def
  proof (intro allI impI)
    fix n q s q' s'
    assume "(n, q, s) \<in> insert (name, p, r) ix" "(n, q', s') \<in> insert (name, p, r) ix"
    then consider "(n, q, s) \<in> ix" "(n, q', s') \<in> ix" | "(n, q, s) = (name, p, r)" "(n, q', s') \<in> ix"
      | "(n, q, s) \<in> ix" "(n, q', s') = (name, p, r)" | "(n, q, s) = (name, p, r)" "(n, q', s') = (name, p, r)"
      by blast
    then show "q = q' \<and> s = s' \<or> q + size s \<le> q' \<or> q' + size s' \<le> q"
    proof cases
      case 1
      then show ?thesis using disjointD [OF assms(1)] by blast
    next
      case 2
      then show ?thesis using new by simp
    next
      case 3
      then show ?thesis using new by simp
    qed simp
  qed
qed

lemma indexed_kill:
  assumes "indexed files ix" "disjoint ix" "(name, p, r) \<in> ix" "files name = Some f"
  shows "indexed (files(name := Some (kill f p))) (ix - {(name, p, r)})"
proof -
  have "\<exists>g. (files(name := Some (kill f p))) n = Some g \<and> rec g q = Some s"
    if in_ix: "(n, q, s) \<in> ix" and other: "(n, q, s) \<noteq> (name, p, r)" for n q s
  proof -
    obtain g where g: "files n = Some g" "rec g q = Some s" using assms(1) in_ix unfolding indexed_def by blast
    have fp: "rec f p = Some r" using assms(1,3,4) unfolding indexed_def by fastforce
    show ?thesis
    proof (cases "n = name")
      case True
      then have "q + size s \<le> p \<or> p + size r \<le> q"
        using disjointD [OF assms(2), of name q s p r] assms(3) in_ix other by simp
      then show ?thesis using True g fp assms(4) rec_kill_other by auto
    qed (use g in auto)
  qed
  then show ?thesis unfolding indexed_def by fast
qed

end

lemma recordAt_inside: "recordAt f p = Some r \<Longrightarrow> p + recordSize r \<le> length f"
proof -
  assume "recordAt f p = Some r"
  then have "take (recordSize r) (drop p f) = encodeRecord r" by (simp add: recordAt_iff)
  from arg_cong [OF this, of length] show ?thesis by (simp add: recordSize_def)
qed

lemma recordAt_killRecord:
  assumes "recordAt f p = Some r"
  shows "recordAt (killRecord f p) p = Some (markDeleted r)"
proof -
  have r: "recordFits r" "take (recordSize r) (drop p f) = encodeRecord r"
    using assms by (simp_all add: recordAt_iff)
  obtain t where f: "drop p f = encodeRecord r @ t" using r(2) by (metis append_take_drop_id)
  have "p < length f" using recordAt_inside [OF assms] by (simp add: recordSize_def)
  then have "drop p (killRecord f p) = (f ! p OR EmailDeleted) # drop (Suc p) f"
    by (simp add: killRecord_def writeAt_def)
  moreover have "f ! p # drop (Suc p) f = encodeRecord r @ t"
    using f \<open>p < length f\<close> by (simp add: Cons_nth_drop_Suc)
  then have "f ! p = fst r" "drop (Suc p) f = tl (encodeRecord r) @ t"
    by (simp_all add: encodeRecord_def AppendUint32_Cons)
  ultimately have "drop p (killRecord f p) = encodeRecord (markDeleted r) @ t"
    by (simp add: encodeRecord_def AppendUint32_Cons markDeleted_def)
  moreover have "recordSize (markDeleted r) = recordSize r" "recordFits (markDeleted r)"
    using r(1) by (simp_all add: recordSize_def markDeleted_def recordFits_def)
  ultimately show ?thesis by (simp add: recordAt_iff)
qed

lemma recordAt_other:
  assumes "recordAt f q = Some s" "q + recordSize s \<le> p \<or> p + length d \<le> q"
  shows "recordAt (writeAt f p d) q = Some s"
  using assms slice_writeAt_before [of q "recordSize s" p f d] slice_writeAt_after [of p d q f]
    recordAt_inside [OF assms(1)] by (auto simp: recordAt_iff)

interpretation rf: record_file putRecord recordAt recordSize recordFits killRecord markDeleted
proof
  show "recordAt (putRecord f p r) p = Some r" if "recordFits r" for r f p
    using that slice_writeAt_same [of "encodeRecord r" p f] by (simp add: recordAt_iff putRecord_def)
  show "recordAt (putRecord f p r) q = Some s" if "recordAt f q = Some s" "q + recordSize s \<le> p" for f q s p r
    unfolding putRecord_def using that by (simp add: recordAt_other)
  show "recordAt (killRecord f p) p = Some (markDeleted r)" if "recordAt f p = Some r" for f p r
    using that by (rule recordAt_killRecord)
  show "recordAt (killRecord f p) q = Some s"
    if "recordAt f q = Some s" "recordAt f p = Some r" "q + recordSize s \<le> p \<or> p + recordSize r \<le> q" for f q s p r
    unfolding killRecord_def using that by (intro recordAt_other) (auto simp: recordSize_def)
qed

section \<open>The operations on records\<close>

lemma Reader_record: "recordAt f p = Some r \<Longrightarrow> Reader gunzip f p = contentOf gunzip r"
proof -
  assume "recordAt f p = Some r"
  then have r: "recordFits r" "take (recordSize r) (drop p f) = encodeRecord r" by (simp_all add: recordAt_iff)
  obtain t where f: "drop p f = encodeRecord r @ t" using r(2) by (metis append_take_drop_id)
  have "take 5 (drop p f) = fst r # AppendUint32 [] (of_nat (length (snd r)))" "drop 5 (drop p f) = snd r @ t"
    unfolding f by (simp_all add: encodeRecord_def AppendUint32_Cons)
  moreover from r(1) have "unat (of_nat (length (snd r)) :: u32) = length (snd r)"
    by (simp add: recordFits_def unat_of_length)
  ultimately show ?thesis
    unfolding Reader_def Let_def contentOf_def 
    by (simp only: Uint32_AppendUint32) (simp add: Uint32_AppendUint32 split: option.split)
qed

lemma WriteEmail_record:
  "WriteEmail gzip f pos encrypted b =
     (if length f \<ge> MaxFileSize then Inl ErrFileIsFull
      else Inr (of_nat (recordSize (recordOf gzip encrypted b)), putRecord f pos (recordOf gzip encrypted b)))"
  by (simp add: WriteEmail_def Let_def recordOf_def putRecord_def encodeRecord_def recordSize_def writeAt_append
      flip: length_AppendUint32 [of "[_]"])

lemma DeleteEmailAt_record:
  "recordAt f p = Some r \<Longrightarrow> DeleteEmailAt f p = Inr (killRecord f p)"
  using recordAt_inside [of f p r] by (simp add: DeleteEmailAt_def killRecord_def recordSize_def)

lemma recordOf_flags:
  "fst (recordOf gzip encrypted b) AND EmailDeleted = 0"
  "fst (recordOf gzip encrypted b) AND EmailCompressed \<noteq> 0 \<longleftrightarrow> length b \<ge> CompressEmailBiggerThan"
  "fst (recordOf gzip encrypted b) AND EmailEncrypted \<noteq> 0 \<longleftrightarrow> encrypted"
  by (simp_all add: recordOf_def EmailDeleted_def EmailCompressed_def EmailEncrypted_def)

lemma contentOf_recordOf:
  "gunzip (gzip b) = Some b \<Longrightarrow>
   contentOf gunzip (recordOf gzip encrypted b) = Inr (Some (b, fst (recordOf gzip encrypted b)))"
  by (auto simp: contentOf_def recordOf_flags) (auto simp: recordOf_def)

section \<open>Properties\<close>

text \<open>C17: a mail that was written is read back: whatever was in the file, as long as the length
  of what is written fits its field, the reader gives the mail at the position where it was
  written, and its flags tell whether it is encrypted.\<close>

theorem email_roundtrip:
  assumes "gunzip (gzip b) = Some b" and "length b < 2 ^ 32" and "length (gzip b) < 2 ^ 32"
    and "WriteEmail gzip f pos encrypted b = Inr (n, f')"
  shows "\<exists>h. Reader gunzip f' pos = Inr (Some (b, h)) \<and> (h AND EmailEncrypted \<noteq> 0 \<longleftrightarrow> encrypted)"
proof -
  let ?r = "recordOf gzip encrypted b"
  have "f' = putRecord f pos ?r" using assms(4) by (simp add: WriteEmail_record split: if_splits)
  moreover have "recordFits ?r" using assms(2,3) by (simp add: recordFits_def recordOf_def)
  ultimately have "recordAt f' pos = Some ?r" using rf.rec_put by simp
  then have "Reader gunzip f' pos = Inr (Some (b, fst ?r))"
    using Reader_record contentOf_recordOf [of gunzip gzip b encrypted] assms(1) by simp
  then show ?thesis using recordOf_flags(3) by blast
qed

theorem email_roundtrip_witness:
  "\<exists>h. Reader Some (writeAt (writeAt [] 3 [4, 0, 0, 0, 2]) 8 [65, 66]) 3 = Inr (Some ([65, 66], h)) \<and>
     (h AND EmailEncrypted \<noteq> 0 \<longleftrightarrow> True)"
  by (rule email_roundtrip [where gzip = "\<lambda>b. b" and f = "[]" and n = 7])
    (simp_all add: WriteEmail_def MaxFileSize_def CompressEmailBiggerThan_def AppendUint32_def EmailEncrypted_def)

text \<open>deleting a mail hides it and only it: a record that is all in the file is no longer
  given by the reader after \<open>DeleteEmailAt\<close>, which reports no error, and every record that does
  not overlap it is read as before.\<close>

theorem delete_hides_one:
  assumes "recordAt f p = Some r"
  shows "\<exists>f'. DeleteEmailAt f p = Inr f' \<and> Reader gunzip f' p = Inr None \<and>
    (\<forall>q s. recordAt f q = Some s \<and> (q + recordSize s \<le> p \<or> p + recordSize r \<le> q) \<longrightarrow>
       Reader gunzip f' q = Reader gunzip f q)"
proof (intro exI conjI allI impI)
  show "DeleteEmailAt f p = Inr (killRecord f p)" using DeleteEmailAt_record [OF assms] .
  have "contentOf gunzip (markDeleted r) = Inr None"
    by (simp add: contentOf_def markDeleted_def EmailDeleted_def bit.conj_disj_distrib)
  then show "Reader gunzip (killRecord f p) p = Inr None"
    using Reader_record [OF rf.rec_kill [OF assms]] by simp
  fix q s
  assume "recordAt f q = Some s \<and> (q + recordSize s \<le> p \<or> p + recordSize r \<le> q)"
  then show "Reader gunzip (killRecord f p) q = Reader gunzip f q"
    using Reader_record rf.rec_kill_other [OF _ assms] by metis
qed

theorem delete_hides_one_witness:
  "\<exists>f'. DeleteEmailAt [0, 0, 0, 0, 1, 65, 0, 0, 0, 0, 1, 66] 6 = Inr f' \<and> Reader Some f' 6 = Inr None \<and>
     Reader Some f' 0 = Inr (Some ([65], 0))"
proof -
  let ?f = "[0, 0, 0, 0, 1, 65, 0, 0, 0, 0, 1, 66] :: bytes"
  have "recordAt ?f 6 = Some (0, [66])" "recordAt ?f 0 = Some (0, [65])"
    by (simp_all add: recordAt_def numeral_eq_Suc)
  moreover have "Reader Some ?f 0 = Inr (Some ([65], 0))"
    by (simp add: Reader_def numeral_eq_Suc)
  ultimately show ?thesis
    using delete_hides_one [of ?f 6 "(0, [66])" Some] by (force simp: recordSize_def)
qed

end
