(* ===== verification/Store_DB.thy ===== *)
theory Store_DB
  imports Go_Float
begin

text \<open>
  The database of a user: the tables of \<open>src/storage/store/schema\<close>, with the constraints the
  migrations add, and the queries of \<open>src/storage/store/query\<close> that the sources call.

  A table is the list of its rows in the order of their rowids, which is the order SQLite scans
  it in. An \<open>INTEGER PRIMARY KEY\<close> is given the largest one in the table plus one. A query fails
  with the constraint it would violate, or without a row; foreign keys are on and cascade.
  The column \<open>parent\<close>, which the code never sets, is left out.
\<close>

section \<open>Tables\<close>

record Email =
  eID :: int
  mailFrom :: string
  rcptTo :: string
  spamScore :: "float64 option"
  fileName :: string
  fileOffset :: int
  internalDate :: int

record DB =
  tEmails :: "Email list"
  tMailbox :: "(int \<times> string) list"
  tFlags :: "(int \<times> string) list"
  tMailboxFlags :: "(int \<times> int \<times> bool) list"
  tEmailsFlags :: "(int \<times> int) list"
  tMailboxEmails :: "(int \<times> int) list"
  tMeta :: "(string \<times> int) option"

datatype dbError = ErrNoRows | ErrUnique | ErrForeignKey | ErrNotNull | ErrCheck | ErrBusy

text \<open>The name of a flag of the system starts with a backslash.\<close>

abbreviation sysFlag :: "string \<Rightarrow> string" where
  "sysFlag s \<equiv> CHR 0x5C # s"

definition flagTable :: "(int \<times> string) list" where
  "flagTable = [(1, sysFlag ''Seen''), (2, sysFlag ''Answered''), (3, sysFlag ''Flagged''), (4, sysFlag ''Deleted''),
     (5, sysFlag ''Draft''),
     (6, ''$Forwarded''), (7, ''$MDNSent''), (8, ''$Junk''), (9, ''$NotJunk''), (10, ''$Phishing'')]"

text \<open>The database after the migrations of an empty one.\<close>

definition newDB :: DB where
  "newDB = \<lparr>tEmails = [], tMailbox = [(1, ''INBOX''), (2, ''Junk''), (3, ''Sent''), (4, ''Trash'')],
     tFlags = flagTable, tMailboxFlags = [(1, 1, False), (1, 2, False), (1, 3, False), (2, 8, False), (4, 4, False)],
     tEmailsFlags = [], tMailboxEmails = [], tMeta = None\<rparr>"

definition nextId :: "int list \<Rightarrow> int" where
  "nextId ids = (if ids = [] then 1 else fold max ids (hd ids) + 1)"

section \<open>Queries on mails\<close>

definition GetEmail :: "DB \<Rightarrow> int \<Rightarrow> dbError + Email" where
  "GetEmail db i = (case find (\<lambda>e. eID e = i) (tEmails db) of None \<Rightarrow> Inl ErrNoRows | Some e \<Rightarrow> Inr e)"

text \<open>The argument is a row whose identifier is still to be chosen.\<close>

definition NewEmail :: "Email \<Rightarrow> DB \<Rightarrow> dbError + int \<times> DB" where
  "NewEmail row db =
     (let i = nextId (map eID (tEmails db)) in
      if (fileOffset row, fileName row) \<in> set (map (\<lambda>e. (fileOffset e, fileName e)) (tEmails db)) then Inl ErrUnique
      else Inr (i, db\<lparr>tEmails := tEmails db @ [row\<lparr>eID := i\<rparr>]\<rparr>))"

text \<open>The rows of other tables that reference the mails that go are deleted with them.\<close>

definition deleteEmails :: "(Email \<Rightarrow> bool) \<Rightarrow> DB \<Rightarrow> DB" where
  "deleteEmails P db =
     (let gone = map eID (filter P (tEmails db)) in
      db\<lparr>tEmails := filter (\<lambda>e. \<not> P e) (tEmails db),
         tEmailsFlags := filter (\<lambda>(e, f). e \<notin> set gone) (tEmailsFlags db),
         tMailboxEmails := filter (\<lambda>(b, e). e \<notin> set gone) (tMailboxEmails db)\<rparr>)"

definition DeleteEmailRow :: "int \<Rightarrow> DB \<Rightarrow> DB" where
  "DeleteEmailRow i = deleteEmails (\<lambda>e. eID e = i)"

definition CleanEmails :: "DB \<Rightarrow> DB" where
  "CleanEmails db = deleteEmails (\<lambda>e. eID e \<notin> set (map snd (tMailboxEmails db))) db"

definition RemoveEmailsWithFlag :: "int \<Rightarrow> DB \<Rightarrow> DB" where
  "RemoveEmailsWithFlag flag db = deleteEmails (\<lambda>e. (eID e, flag) \<in> set (tEmailsFlags db)) db"

definition UpdateOffset :: "int \<Rightarrow> int \<Rightarrow> DB \<Rightarrow> dbError + DB" where
  "UpdateOffset offset i db =
     (let rows = map (\<lambda>e. if eID e = i then e\<lparr>fileOffset := offset\<rparr> else e) (tEmails db) in
      if distinct (map (\<lambda>e. (fileOffset e, fileName e)) rows) then Inr (db\<lparr>tEmails := rows\<rparr>) else Inl ErrUnique)"

definition SetMeta :: "string \<Rightarrow> int \<Rightarrow> DB \<Rightarrow> DB" where
  "SetMeta lastFile offset db = db\<lparr>tMeta := Some (lastFile, offset)\<rparr>"

definition ListEmailsNoMailbox :: "DB \<Rightarrow> Email list" where
  "ListEmailsNoMailbox db = filter (\<lambda>e. eID e \<notin> set (map snd (tMailboxEmails db))) (tEmails db)"

definition ListEmailsWithFlag :: "DB \<Rightarrow> int \<Rightarrow> Email list" where
  "ListEmailsWithFlag db flag = filter (\<lambda>e. (eID e, flag) \<in> set (tEmailsFlags db)) (tEmails db)"

section \<open>Queries on mailboxes\<close>

definition insertMailbox :: "string \<Rightarrow> DB \<Rightarrow> int \<times> DB" where
  "insertMailbox name db =
     (let i = nextId (map fst (tMailbox db)) in (i, db\<lparr>tMailbox := tMailbox db @ [(i, name)]\<rparr>))"

definition GetOrCreateMailbox :: "string \<Rightarrow> DB \<Rightarrow> dbError + (int \<times> string) \<times> DB" where
  "GetOrCreateMailbox name db =
     (if name = [] then Inl ErrCheck
      else case find (\<lambda>(i, n). n = name) (tMailbox db) of
        Some row \<Rightarrow> Inr (row, db)
      | None \<Rightarrow> (case insertMailbox name db of (i, db') \<Rightarrow> Inr ((i, name), db')))"

definition NewMailbox :: "string \<Rightarrow> DB \<Rightarrow> dbError + int \<times> DB" where
  "NewMailbox name db =
     (if name = [] then Inl ErrCheck
      else if name \<in> set (map snd (tMailbox db)) then Inl ErrUnique
      else Inr (insertMailbox name db))"

definition RenameMailboxRow :: "string \<Rightarrow> int \<Rightarrow> DB \<Rightarrow> dbError + DB" where
  "RenameMailboxRow name i db =
     (let rows = map (\<lambda>(j, n). if j = i then (j, name) else (j, n)) (tMailbox db) in
      if i \<in> set (map fst (tMailbox db)) \<and> name = [] then Inl ErrCheck
      else if distinct (map snd rows) then Inr (db\<lparr>tMailbox := rows\<rparr>) else Inl ErrUnique)"

definition DeleteMailboxRow :: "int \<Rightarrow> DB \<Rightarrow> DB" where
  "DeleteMailboxRow i db =
     db\<lparr>tMailbox := filter (\<lambda>(j, n). j \<noteq> i) (tMailbox db),
        tMailboxFlags := filter (\<lambda>(b, f, u). b \<noteq> i) (tMailboxFlags db),
        tMailboxEmails := filter (\<lambda>(b, e). b \<noteq> i) (tMailboxEmails db)\<rparr>"

definition ListMailboxRows :: "DB \<Rightarrow> (int \<times> string \<times> nat) list" where
  "ListMailboxRows db =
     map (\<lambda>(i, n). (i, n, length (filter (\<lambda>(b, e). b = i) (tMailboxEmails db)))) (tMailbox db)"

definition ListMailboxFlags :: "DB \<Rightarrow> int \<Rightarrow> (string \<times> bool) list" where
  "ListMailboxFlags db box =
     concat (map (\<lambda>(f, n). map (\<lambda>(b, g, u). (n, u)) (filter (\<lambda>(b, g, u). b = box \<and> g = f) (tMailboxFlags db))) (tFlags db))"

definition boxIds :: "DB \<Rightarrow> int \<Rightarrow> int list" where
  "boxIds db box = map snd (filter (\<lambda>(b, e). b = box) (tMailboxEmails db))"

definition AddMailboxEmail :: "int \<Rightarrow> int \<Rightarrow> DB \<Rightarrow> dbError + DB" where
  "AddMailboxEmail box i db =
     (if (box, i) \<in> set (tMailboxEmails db) then Inl ErrUnique
      else if box \<notin> set (map fst (tMailbox db)) \<or> i \<notin> set (map eID (tEmails db)) then Inl ErrForeignKey
      else Inr (db\<lparr>tMailboxEmails := tMailboxEmails db @ [(box, i)]\<rparr>))"

definition RemoveMailboxEmail :: "int \<Rightarrow> int \<Rightarrow> DB \<Rightarrow> DB" where
  "RemoveMailboxEmail box i db = db\<lparr>tMailboxEmails := filter (\<lambda>r. r \<noteq> (box, i)) (tMailboxEmails db)\<rparr>"

definition CountMailboxEmails :: "DB \<Rightarrow> int \<Rightarrow> nat" where
  "CountMailboxEmails db box = length (boxIds db box)"

definition ListMailboxEmailsRows :: "DB \<Rightarrow> int \<Rightarrow> Email list" where
  "ListMailboxEmailsRows db box = filter (\<lambda>e. eID e \<in> set (boxIds db box)) (tEmails db)"

definition GetLatestMailboxEmails :: "DB \<Rightarrow> int \<Rightarrow> nat \<Rightarrow> nat \<Rightarrow> Email list" where
  "GetLatestMailboxEmails db box limit offset =
     take limit (drop offset (sort_key eID (ListMailboxEmailsRows db box)))"

definition GetMailboxEmails :: "DB \<Rightarrow> int \<Rightarrow> int list \<Rightarrow> Email list" where
  "GetMailboxEmails db box ids = filter (\<lambda>e. eID e \<in> set ids) (ListMailboxEmailsRows db box)"

definition GetSequence :: "DB \<Rightarrow> int \<Rightarrow> int \<Rightarrow> nat" where
  "GetSequence db box i = length (filter (\<lambda>e. e \<le> i) (boxIds db box))"

text \<open>A negative offset is none.\<close>

definition FromSequenceRow :: "DB \<Rightarrow> int \<Rightarrow> int \<Rightarrow> dbError + int" where
  "FromSequenceRow db box seq =
     (case drop (nat (seq - 1)) (rev (sort (boxIds db box))) of [] \<Rightarrow> Inl ErrNoRows | i # _ \<Rightarrow> Inr i)"

text \<open>\<open>LIKE\<close>, which ignores the case of letters of one byte; \<open>%\<close> is any string and \<open>_\<close> any
  byte.\<close>

definition asciiLower :: "char \<Rightarrow> char" where
  "asciiLower c = (if 65 \<le> byte_of c \<and> byte_of c \<le> 90 then char_of (byte_of c + 32) else c)"

fun sqlLike :: "string \<Rightarrow> string \<Rightarrow> bool" where
  "sqlLike [] s = (s = [])"
| "sqlLike (p # ps) [] = (p = CHR ''%'' \<and> sqlLike ps [])"
| "sqlLike (p # ps) (c # s) =
     (if p = CHR ''%'' then sqlLike ps (c # s) \<or> sqlLike (p # ps) s
      else (p = CHR ''_'' \<or> asciiLower p = asciiLower c) \<and> sqlLike ps s)"

definition HasMailboxChildren :: "DB \<Rightarrow> string \<Rightarrow> bool" where
  "HasMailboxChildren db pat = (length (filter (\<lambda>(i, n). sqlLike pat n) (tMailbox db)) > 1)"

section \<open>Queries on flags\<close>

definition ListEmailFlagRows :: "DB \<Rightarrow> int \<Rightarrow> (int \<times> string) list" where
  "ListEmailFlagRows db i = filter (\<lambda>(f, n). (i, f) \<in> set (tEmailsFlags db)) (tFlags db)"

definition AddEmailFlagRow :: "int \<Rightarrow> int \<Rightarrow> DB \<Rightarrow> dbError + DB" where
  "AddEmailFlagRow i flag db =
     (if (i, flag) \<in> set (tEmailsFlags db) then Inr db
      else if i \<notin> set (map eID (tEmails db)) \<or> flag \<notin> set (map fst (tFlags db)) then Inl ErrForeignKey
      else Inr (db\<lparr>tEmailsFlags := tEmailsFlags db @ [(i, flag)]\<rparr>))"

definition flagNamed :: "DB \<Rightarrow> string \<Rightarrow> int option" where
  "flagNamed db name = map_option fst (find (\<lambda>(f, n). n = name) (tFlags db))"

definition AddEmailFlagName :: "int \<Rightarrow> string \<Rightarrow> DB \<Rightarrow> dbError + DB" where
  "AddEmailFlagName i name db =
     (case flagNamed db name of None \<Rightarrow> Inl ErrNotNull | Some f \<Rightarrow> AddEmailFlagRow i f db)"

definition RemoveEmailFlagName :: "int \<Rightarrow> string \<Rightarrow> DB \<Rightarrow> DB" where
  "RemoveEmailFlagName i name db =
     db\<lparr>tEmailsFlags := filter (\<lambda>r. flagNamed db name \<noteq> Some (snd r) \<or> fst r \<noteq> i) (tEmailsFlags db)\<rparr>"

definition RemoveEmailFlagRows :: "int \<Rightarrow> DB \<Rightarrow> DB" where
  "RemoveEmailFlagRows i db = db\<lparr>tEmailsFlags := filter (\<lambda>(e, f). e \<noteq> i) (tEmailsFlags db)\<rparr>"

definition CountEmailsWithFlagInMailbox :: "DB \<Rightarrow> int \<Rightarrow> int \<Rightarrow> nat" where
  "CountEmailsWithFlagInMailbox db flag box =
     length (filter (\<lambda>(e, f). f = flag \<and> e \<in> set (boxIds db box)) (tEmailsFlags db))"

section \<open>Integrity\<close>

text \<open>What the schema promises: keys are unique, and references lead to rows.\<close>

definition emailRowsOk :: "DB \<Rightarrow> bool" where
  "emailRowsOk db \<longleftrightarrow> sorted (map eID (tEmails db)) \<and> distinct (map eID (tEmails db)) \<and>
     distinct (map (\<lambda>e. (fileOffset e, fileName e)) (tEmails db)) \<and> (\<forall>e \<in> set (tEmails db). eID e \<ge> 1)"

definition mailboxRowsOk :: "DB \<Rightarrow> bool" where
  "mailboxRowsOk db \<longleftrightarrow> distinct (map fst (tMailbox db)) \<and> distinct (map snd (tMailbox db)) \<and>
     [] \<notin> set (map snd (tMailbox db))"

definition mailIds :: "DB \<Rightarrow> int set" where
  "mailIds db = set (map eID (tEmails db))"

definition mailboxIds :: "DB \<Rightarrow> int set" where
  "mailboxIds db = set (map fst (tMailbox db))"

definition flagIds :: "DB \<Rightarrow> int set" where
  "flagIds db = set (map fst (tFlags db))"

definition referencesOk :: "DB \<Rightarrow> bool" where
  "referencesOk db \<longleftrightarrow> distinct (tMailboxEmails db) \<and> distinct (tEmailsFlags db) \<and>
     (\<forall>(b, e) \<in> set (tMailboxEmails db). b \<in> mailboxIds db \<and> e \<in> mailIds db) \<and>
     (\<forall>(e, f) \<in> set (tEmailsFlags db). e \<in> mailIds db \<and> f \<in> flagIds db)"

definition flagRowsOk :: "DB \<Rightarrow> bool" where
  "flagRowsOk db \<longleftrightarrow> distinct (map fst (tFlags db)) \<and> distinct (map snd (tFlags db)) \<and>
     distinct (map (\<lambda>(b, f, u). (b, f)) (tMailboxFlags db)) \<and>
     (\<forall>(b, f, u) \<in> set (tMailboxFlags db). b \<in> mailboxIds db \<and> f \<in> flagIds db)"

definition dbOk :: "DB \<Rightarrow> bool" where
  "dbOk db \<longleftrightarrow> emailRowsOk db \<and> mailboxRowsOk db \<and> referencesOk db \<and> flagRowsOk db"

lemmas dbOk_defs = dbOk_def emailRowsOk_def mailboxRowsOk_def referencesOk_def flagRowsOk_def

text \<open>The queries that change a database.\<close>

inductive db_step :: "DB \<Rightarrow> DB \<Rightarrow> bool" where
  "NewEmail row db = Inr (i, db') \<Longrightarrow> db_step db db'"
| "db_step db (deleteEmails P db)"
| "UpdateOffset off i db = Inr db' \<Longrightarrow> db_step db db'"
| "db_step db (SetMeta f off db)"
| "GetOrCreateMailbox name db = Inr (row, db') \<Longrightarrow> db_step db db'"
| "NewMailbox name db = Inr (i, db') \<Longrightarrow> db_step db db'"
| "RenameMailboxRow name i db = Inr db' \<Longrightarrow> db_step db db'"
| "db_step db (DeleteMailboxRow i db)"
| "AddMailboxEmail box i db = Inr db' \<Longrightarrow> db_step db db'"
| "db_step db (RemoveMailboxEmail box i db)"
| "AddEmailFlagRow i flag db = Inr db' \<Longrightarrow> db_step db db'"
| "AddEmailFlagName i name db = Inr db' \<Longrightarrow> db_step db db'"
| "db_step db (RemoveEmailFlagName i name db)"
| "db_step db (RemoveEmailFlagRows i db)"

lemma fold_max_start: "a \<le> fold max xs (a :: int)"
proof (induction xs arbitrary: a)
  case (Cons y xs)
  have "a \<le> max y a" by simp
  also have "\<dots> \<le> fold max xs (max y a)" by (rule Cons.IH)
  finally show ?case by simp
qed simp

lemma fold_max: "x \<in> set xs \<Longrightarrow> x \<le> fold max xs (a :: int)"
proof (induction xs arbitrary: a)
  case (Cons y xs)
  then show ?case using fold_max_start [of "max y a" xs] by fastforce
qed simp

lemma nextId_greater: "x \<in> set ids \<Longrightarrow> x < nextId ids"
  using fold_max [of x ids "hd ids"] by (auto simp: nextId_def)

lemma nextId_positive: "\<forall>x \<in> set ids. 1 \<le> x \<Longrightarrow> 1 \<le> nextId ids"
  using nextId_greater [of "hd ids" ids] by (cases ids) (auto simp: nextId_def)

lemma nextId_fresh: "nextId ids \<notin> set ids"
  using nextId_greater by blast

lemmas idsDefs = mailIds_def mailboxIds_def flagIds_def

lemma dbOk_newDB: "dbOk newDB"
  by (simp add: dbOk_defs newDB_def flagTable_def mailboxIds_def flagIds_def)

text \<open>A query that only changes rows that are not keys keeps the references.\<close>

lemma referencesOk_cong:
  "referencesOk db \<Longrightarrow> mailIds db \<subseteq> mailIds db' \<Longrightarrow> mailboxIds db \<subseteq> mailboxIds db' \<Longrightarrow> flagIds db' = flagIds db \<Longrightarrow>
   tMailboxEmails db' = tMailboxEmails db \<Longrightarrow> tEmailsFlags db' = tEmailsFlags db \<Longrightarrow> referencesOk db'"
  unfolding referencesOk_def by fastforce

lemma emailRowsOk_cong: "emailRowsOk db \<Longrightarrow> tEmails db' = tEmails db \<Longrightarrow> emailRowsOk db'"
  by (simp add: emailRowsOk_def)

lemma mailboxRowsOk_cong: "mailboxRowsOk db \<Longrightarrow> tMailbox db' = tMailbox db \<Longrightarrow> mailboxRowsOk db'"
  by (simp add: mailboxRowsOk_def)

lemma flagRowsOk_cong:
  "flagRowsOk db \<Longrightarrow> mailboxIds db \<subseteq> mailboxIds db' \<Longrightarrow> tFlags db' = tFlags db \<Longrightarrow> tMailboxFlags db' = tMailboxFlags db \<Longrightarrow>
   flagRowsOk db'"
  unfolding flagRowsOk_def flagIds_def by fastforce

lemma dbOk_NewEmail:
  assumes "dbOk db" "NewEmail row db = Inr (i, db')"
  shows "dbOk db'"
proof -
  have i: "i = nextId (map eID (tEmails db))" and db': "db' = db\<lparr>tEmails := tEmails db @ [row\<lparr>eID := i\<rparr>]\<rparr>"
    and u: "(fileOffset row, fileName row) \<notin> set (map (\<lambda>e. (fileOffset e, fileName e)) (tEmails db))"
    using assms(2) by (auto simp: NewEmail_def Let_def split: if_splits)
  have "\<forall>e \<in> set (tEmails db). eID e < i"
    using nextId_greater [of _ "map eID (tEmails db)"] unfolding i by simp
  moreover have "1 \<le> i"
    using assms(1) nextId_positive [of "map eID (tEmails db)"] unfolding i by (simp add: dbOk_def emailRowsOk_def)
  ultimately have "emailRowsOk db'"
    using assms(1) u unfolding db' by (auto simp: dbOk_def emailRowsOk_def sorted_append less_imp_le)
  moreover have "mailboxRowsOk db'"
    using assms(1) mailboxRowsOk_cong unfolding dbOk_def db' by fastforce
  moreover have "referencesOk db'"
    using assms(1) unfolding dbOk_def db' by (auto elim!: referencesOk_cong simp: idsDefs)
  moreover have "flagRowsOk db'"
    using assms(1) unfolding dbOk_def db' by (auto elim!: flagRowsOk_cong simp: idsDefs)
  ultimately show ?thesis by (simp add: dbOk_def)
qed

lemma dbOk_deleteEmails: "dbOk db \<Longrightarrow> dbOk (deleteEmails P db)"
proof -
  let ?db = "deleteEmails P db"
  assume ok: "dbOk db"
  have "emailRowsOk ?db"
    using ok by (simp add: dbOk_def emailRowsOk_def deleteEmails_def sorted_filter distinct_map_filter)
  moreover have "mailboxRowsOk ?db"
    using ok by (simp add: dbOk_def mailboxRowsOk_def deleteEmails_def)
  moreover have "e \<in> mailIds ?db" if "e \<in> mailIds db" "e \<notin> set (map eID (filter P (tEmails db)))" for e
    using that by (auto simp: mailIds_def deleteEmails_def)
  then have "referencesOk ?db"
    using ok unfolding dbOk_def referencesOk_def
    by (fastforce simp: deleteEmails_def Let_def mailboxIds_def flagIds_def)
  moreover have "flagRowsOk ?db"
    using ok unfolding dbOk_def by (auto elim!: flagRowsOk_cong simp: deleteEmails_def Let_def mailboxIds_def)
  ultimately show ?thesis by (simp add: dbOk_def)
qed

lemma dbOk_UpdateOffset: "dbOk db \<Longrightarrow> UpdateOffset off i db = Inr db' \<Longrightarrow> dbOk db'"
proof -
  let ?f = "\<lambda>e. if eID e = i then e\<lparr>fileOffset := off\<rparr> else e"
  assume ok: "dbOk db" and "UpdateOffset off i db = Inr db'"
  then have db': "db' = db\<lparr>tEmails := map ?f (tEmails db)\<rparr>"
    and u: "distinct (map (\<lambda>e. (fileOffset e, fileName e)) (map ?f (tEmails db)))"
    by (auto simp: UpdateOffset_def Let_def split: if_splits)
  have m: "map eID (map ?f (tEmails db)) = map eID (tEmails db)" by simp
  moreover have "\<forall>e \<in> set (map ?f (tEmails db)). 1 \<le> eID e" using ok by (auto simp: dbOk_defs)
  ultimately have "emailRowsOk db'"
    using ok u unfolding db' dbOk_def emailRowsOk_def by (simp del: map_map set_map)
  moreover have "mailIds db' = mailIds db" unfolding db' mailIds_def by (simp del: map_map set_map add: m)
  then have "referencesOk db'"
    using ok unfolding dbOk_def by (auto elim!: referencesOk_cong simp: db' mailboxIds_def flagIds_def)
  moreover have "flagRowsOk db'" using ok flagRowsOk_cong [of db db'] unfolding dbOk_def by (simp add: db' mailboxIds_def)
  ultimately show ?thesis using ok mailboxRowsOk_cong [of db db'] unfolding dbOk_def by (simp add: db')
qed

lemma dbOk_mailboxes:
  assumes "dbOk db" "mailboxRowsOk (db\<lparr>tMailbox := rows\<rparr>)" "set (map fst (tMailbox db)) \<subseteq> set (map fst rows)"
  shows "dbOk (db\<lparr>tMailbox := rows\<rparr>)"
proof -
  have "emailRowsOk (db\<lparr>tMailbox := rows\<rparr>)" "referencesOk (db\<lparr>tMailbox := rows\<rparr>)" "flagRowsOk (db\<lparr>tMailbox := rows\<rparr>)"
    using assms emailRowsOk_cong [of db] referencesOk_cong [of db] flagRowsOk_cong [of db] unfolding dbOk_def idsDefs by simp_all
  then show ?thesis using assms(2) by (simp add: dbOk_def)
qed

lemma dbOk_insertMailbox:
  "dbOk db \<Longrightarrow> name \<noteq> [] \<Longrightarrow> name \<notin> set (map snd (tMailbox db)) \<Longrightarrow> dbOk (snd (insertMailbox name db))"
  using nextId_fresh [of "map fst (tMailbox db)"] unfolding insertMailbox_def Let_def
  by (simp, intro dbOk_mailboxes) (auto simp: dbOk_def mailboxRowsOk_def)

lemma dbOk_GetOrCreateMailbox: "dbOk db \<Longrightarrow> GetOrCreateMailbox name db = Inr (row, db') \<Longrightarrow> dbOk db'"
  using dbOk_insertMailbox [of db name]
  by (force simp: GetOrCreateMailbox_def find_None_iff split: if_splits option.splits prod.splits)

lemma dbOk_RenameMailboxRow: "dbOk db \<Longrightarrow> RenameMailboxRow name i db = Inr db' \<Longrightarrow> dbOk db'"
proof -
  let ?f = "\<lambda>(j, n). if j = i then (j, name) else (j, n)"
  assume ok: "dbOk db" and r: "RenameMailboxRow name i db = Inr db'"
  then have db': "db' = db\<lparr>tMailbox := map ?f (tMailbox db)\<rparr>"
    and u: "distinct (map snd (map ?f (tMailbox db)))" and ne: "i \<in> set (map fst (tMailbox db)) \<Longrightarrow> name \<noteq> []"
    by (auto simp: RenameMailboxRow_def Let_def split: if_splits)
  have m: "map fst (map ?f (tMailbox db)) = map fst (tMailbox db)" by auto
  moreover have "[] \<notin> set (map snd (map ?f (tMailbox db)))"
    using ok ne by (force simp: dbOk_def mailboxRowsOk_def)
  ultimately have "mailboxRowsOk db'"
    using ok u unfolding db' dbOk_def mailboxRowsOk_def by (simp del: map_map set_map)
  then show ?thesis unfolding db' using ok m by (intro dbOk_mailboxes) (simp_all del: map_map set_map)
qed

lemma dbOk_DeleteMailboxRow: "dbOk db \<Longrightarrow> dbOk (DeleteMailboxRow i db)"
proof -
  let ?db = "DeleteMailboxRow i db"
  assume ok: "dbOk db"
  have "emailRowsOk ?db" using ok by (simp add: dbOk_def emailRowsOk_def DeleteMailboxRow_def)
  moreover have "mailboxRowsOk ?db"
    using ok by (auto simp: dbOk_def mailboxRowsOk_def DeleteMailboxRow_def distinct_map_filter)
  moreover have "b \<in> mailboxIds ?db" if "b \<in> mailboxIds db" "b \<noteq> i" for b
    using that by (force simp: mailboxIds_def DeleteMailboxRow_def)
  note left = this
  moreover from left have "referencesOk ?db"
    using ok unfolding dbOk_def referencesOk_def
    by (fastforce simp: DeleteMailboxRow_def mailIds_def flagIds_def)
  moreover from left have "flagRowsOk ?db"
    using ok unfolding dbOk_def flagRowsOk_def
    by (fastforce simp: DeleteMailboxRow_def flagIds_def distinct_map_filter)
  ultimately show ?thesis by (simp add: dbOk_def)
qed

text \<open>A query that only changes the rows that reference others.\<close>

lemma dbOk_references:
  assumes "dbOk db" "tEmails db' = tEmails db" "tMailbox db' = tMailbox db" "tFlags db' = tFlags db"
    and "tMailboxFlags db' = tMailboxFlags db"
    and "distinct (tMailboxEmails db')" "distinct (tEmailsFlags db')"
    and "\<forall>r \<in> set (tMailboxEmails db'). r \<in> set (tMailboxEmails db) \<or> fst r \<in> mailboxIds db \<and> snd r \<in> mailIds db"
    and "\<forall>r \<in> set (tEmailsFlags db'). r \<in> set (tEmailsFlags db) \<or> fst r \<in> mailIds db \<and> snd r \<in> flagIds db"
  shows "dbOk db'"
  using assms emailRowsOk_cong [of db db'] mailboxRowsOk_cong [of db db'] flagRowsOk_cong [of db db']
  unfolding dbOk_def referencesOk_def idsDefs by fastforce

lemma dbOk_distinct: "dbOk db \<Longrightarrow> distinct (tMailboxEmails db)" "dbOk db \<Longrightarrow> distinct (tEmailsFlags db)"
  by (simp_all add: dbOk_def referencesOk_def)

lemma dbOk_AddEmailFlagRow: "dbOk db \<Longrightarrow> AddEmailFlagRow i flag db = Inr db' \<Longrightarrow> dbOk db'"
proof (cases "(i, flag) \<in> set (tEmailsFlags db)")
  case False
  assume ok: "dbOk db" and "AddEmailFlagRow i flag db = Inr db'"
  with False have "db' = db\<lparr>tEmailsFlags := tEmailsFlags db @ [(i, flag)]\<rparr>" "i \<in> mailIds db" "flag \<in> flagIds db"
    by (auto simp: AddEmailFlagRow_def mailIds_def flagIds_def split: if_splits)
  with False show ?thesis using ok by (intro dbOk_references [of db db']) (auto simp: dbOk_distinct)
qed (simp add: AddEmailFlagRow_def)

lemma dbOk_AddMailboxEmail: "dbOk db \<Longrightarrow> AddMailboxEmail box i db = Inr db' \<Longrightarrow> dbOk db'"
proof -
  assume ok: "dbOk db" and "AddMailboxEmail box i db = Inr db'"
  then have "db' = db\<lparr>tMailboxEmails := tMailboxEmails db @ [(box, i)]\<rparr>" "box \<in> mailboxIds db" "i \<in> mailIds db"
    "(box, i) \<notin> set (tMailboxEmails db)"
    by (auto simp: AddMailboxEmail_def mailIds_def mailboxIds_def split: if_splits)
  then show ?thesis using ok by (intro dbOk_references [of db db']) (auto simp: dbOk_distinct)
qed

lemma dbOk_step: "db_step db db' \<Longrightarrow> dbOk db \<Longrightarrow> dbOk db'"
proof (induction rule: db_step.induct)
  case (6 name db i db')
  then show ?case using dbOk_insertMailbox [of db name] by (auto simp: NewMailbox_def split: if_splits)
next
  case (12 i name db db')
  then show ?case using dbOk_AddEmailFlagRow by (auto simp: AddEmailFlagName_def split: option.splits)
next
  case (4 db f off)
  then show ?case using dbOk_distinct [of db] dbOk_references [of db "SetMeta f off db"] by (auto simp: SetMeta_def)
next
  case (10 db box i)
  then show ?case using dbOk_distinct [of db] dbOk_references [of db "RemoveMailboxEmail box i db"] by (auto simp: RemoveMailboxEmail_def)
next
  case (13 db i name)
  then show ?case using dbOk_distinct [of db] dbOk_references [of db "RemoveEmailFlagName i name db"] by (auto simp: RemoveEmailFlagName_def)
next
  case (14 db i)
  then show ?case using dbOk_distinct [of db] dbOk_references [of db "RemoveEmailFlagRows i db"] by (auto simp: RemoveEmailFlagRows_def)
qed (blast intro: dbOk_NewEmail dbOk_deleteEmails dbOk_UpdateOffset dbOk_GetOrCreateMailbox
    dbOk_RenameMailboxRow dbOk_DeleteMailboxRow dbOk_AddEmailFlagRow dbOk_AddMailboxEmail)+

interpretation dbs: transition_system "\<lambda>db. db = newDB" db_step dbOk
proof
  show "dbOk s" if "s = newDB" for s using that dbOk_newDB by simp
  show "dbOk s'" if "dbOk s" "db_step s s'" for s s' using that dbOk_step by blast
qed

lemma dbOk_eID: "dbOk db \<Longrightarrow> x \<in> set (tEmails db) \<Longrightarrow> y \<in> set (tEmails db) \<Longrightarrow> eID x = eID y \<longleftrightarrow> x = y"
  using inj_onD [of eID "set (tEmails db)" x y] by (auto simp: dbOk_def emailRowsOk_def distinct_map)

section \<open>Sequence numbers\<close>

lemma distinct_boxIds: "dbOk db \<Longrightarrow> distinct (boxIds db box)"
  unfolding boxIds_def by (auto simp: distinct_map dbOk_distinct inj_on_def)

lemma boxIds_mailIds: "dbOk db \<Longrightarrow> set (boxIds db box) \<subseteq> mailIds db"
  by (auto simp: dbOk_def referencesOk_def boxIds_def)

lemma length_filter_sort: "length (filter P xs) = length (filter P (sort xs))"
  by (metis filter_sort length_sort)

text \<open>In a strictly ascending list, the elements up to the one at a position are those before it.\<close>

lemma filter_le_nth:
  assumes "sorted xs" "distinct xs" "k < length xs"
  shows "filter (\<lambda>x. x \<le> xs ! k) xs = take (Suc k) (xs :: int list)"
proof -
  have "filter (\<lambda>x. x \<le> xs ! k) (take (Suc k) xs) = take (Suc k) xs"
    using assms by (auto simp: filter_id_conv in_set_conv_nth sorted_nth_mono)
  moreover have "filter (\<lambda>x. x \<le> xs ! k) (drop (Suc k) xs) = []"
  proof -
    have "xs ! k < x" if x: "x \<in> set (drop (Suc k) xs)" for x
    proof -
      obtain j where j: "j < length xs - Suc k" "x = xs ! (Suc k + j)"
        using x by (auto simp: in_set_conv_nth)
      then have "xs ! k \<le> x" "x \<noteq> xs ! k"
        using assms by (auto simp: sorted_nth_mono nth_eq_iff_index_eq)
      then show ?thesis by simp
    qed
    then show ?thesis by (fastforce simp: filter_empty_conv)
  qed
  ultimately show ?thesis by (metis append_Nil2 append_take_drop_id filter_append)
qed

lemma GetSequence_nth:
  assumes "dbOk db" "k < CountMailboxEmails db box"
  shows "GetSequence db box (sort (boxIds db box) ! k) = Suc k"
proof -
  let ?xs = "sort (boxIds db box)"
  have "k < length ?xs" using assms(2) by (simp add: CountMailboxEmails_def)
  moreover have "filter (\<lambda>x. x \<le> ?xs ! k) ?xs = take (Suc k) ?xs"
    by (rule filter_le_nth) (use assms distinct_boxIds in \<open>simp_all add: CountMailboxEmails_def\<close>)
  ultimately show ?thesis
    unfolding GetSequence_def length_filter_sort [of _ "boxIds db box"] by simp
qed

lemma FromSequenceRow_nth:
  assumes "1 \<le> seq" "seq \<le> CountMailboxEmails db box"
  shows "FromSequenceRow db box (int seq) = Inr (sort (boxIds db box) ! (CountMailboxEmails db box - seq))"
proof -
  let ?xs = "sort (boxIds db box)"
  have n: "nat (int seq - 1) = seq - 1" by simp
  have "seq - 1 < length (rev ?xs)" using assms by (simp add: CountMailboxEmails_def)
  then have "drop (seq - 1) (rev ?xs) = rev ?xs ! (seq - 1) # drop (Suc (seq - 1)) (rev ?xs)"
    by (rule Cons_nth_drop_Suc [symmetric])
  moreover have "rev ?xs ! (seq - 1) = ?xs ! (CountMailboxEmails db box - seq)"
    using assms by (simp add: rev_nth CountMailboxEmails_def)
  ultimately show ?thesis by (simp add: FromSequenceRow_def n)
qed

lemma FromSequence_GetSequence:
  assumes "dbOk db" and "1 \<le> seq" and "seq \<le> CountMailboxEmails db box"
  shows "\<exists>i. FromSequenceRow db box (int seq) = Inr i \<and> i \<in> set (boxIds db box) \<and>
    GetSequence db box i = CountMailboxEmails db box + 1 - seq"
proof -
  let ?i = "sort (boxIds db box) ! (CountMailboxEmails db box - seq)"
  have "FromSequenceRow db box (int seq) = Inr ?i" using assms(2,3) by (rule FromSequenceRow_nth)
  moreover have "GetSequence db box ?i = CountMailboxEmails db box + 1 - seq"
    using assms GetSequence_nth [OF assms(1), of "CountMailboxEmails db box - seq"] by simp
  moreover have "?i \<in> set (sort (boxIds db box))"
    by (rule nth_mem) (use assms in \<open>simp add: CountMailboxEmails_def\<close>)
  ultimately show ?thesis by simp
qed

section \<open>Properties\<close>

text \<open>C19: whatever queries the code runs on the database of a user, from the one the migrations
  make, the identifiers and the places of its mails stay unique, the mails are in the order of
  their identifiers, mailboxes and flags have unique identifiers and names, no name of a mailbox is
  empty, no membership of a mail or a flag is recorded twice, and every row that refers to a mail,
  a mailbox or a flag, those that give a mailbox its flags included, refers to one that is there.\<close>

theorem db_integrity: "db_step\<^sup>*\<^sup>* newDB db \<Longrightarrow> dbOk db"
  using dbs.reachable_inv by blast

definition demoRow :: Email where
  "demoRow = \<lparr>eID = 0, mailFrom = ''a@b.c'', rcptTo = ''d@e.f'', spamScore = None, fileName = ''1'', fileOffset = 0, internalDate = 0\<rparr>"

definition demoDB :: DB where
  "demoDB = newDB\<lparr>tEmails := [demoRow\<lparr>eID := 1\<rparr>], tMailboxEmails := [(1, 1)]\<rparr>"

lemma demoDB_reachable: "db_step\<^sup>*\<^sup>* newDB demoDB"
proof -
  have "db_step newDB (newDB\<lparr>tEmails := [demoRow\<lparr>eID := 1\<rparr>]\<rparr>)"
    by (rule db_step.intros(1) [of demoRow _ 1]) (simp add: NewEmail_def newDB_def nextId_def)
  moreover have "db_step (newDB\<lparr>tEmails := [demoRow\<lparr>eID := 1\<rparr>]\<rparr>) demoDB"
    by (rule db_step.intros(9) [of 1 1]) (simp add: AddMailboxEmail_def newDB_def demoDB_def)
  ultimately show ?thesis by (meson converse_rtranclp_into_rtranclp rtranclp.rtrancl_refl)
qed

theorem db_integrity_witness: "dbOk demoDB"
  by (rule db_integrity [OF demoDB_reachable])

text \<open>the two queries on sequence numbers count from opposite ends: the number of a mail is
  its rank from the oldest, and the mail of a number is the one with that rank from the newest,
  so that going from a number to its mail and back turns the first number into the last.\<close>

theorem sequences_mirrored:
  assumes "dbOk db" and "1 \<le> seq" and "seq \<le> CountMailboxEmails db box"
  shows "\<exists>i. FromSequenceRow db box (int seq) = Inr i \<and> i \<in> set (boxIds db box) \<and>
    GetSequence db box i = CountMailboxEmails db box + 1 - seq"
  using FromSequence_GetSequence [OF assms] .

theorem sequences_mirrored_witness:
  "\<exists>i. FromSequenceRow demoDB 1 1 = Inr i \<and> i \<in> set (boxIds demoDB 1) \<and> GetSequence demoDB 1 i = 1"
  using sequences_mirrored [of demoDB 1 1] dbs.reachable_inv [OF refl demoDB_reachable]
  by (simp add: CountMailboxEmails_def boxIds_def demoDB_def newDB_def)

text \<open>the identifier of the newest mail is given again when that mail is deleted: the next
  mail that is stored has the same UID.\<close>

theorem uid_reused:
  assumes "NewEmail row db = Inr (i, db')" and "(fileOffset next, fileName next) \<notin> (\<lambda>e. (fileOffset e, fileName e)) ` set (tEmails db)"
  shows "\<exists>db''. NewEmail next (DeleteEmailRow i db') = Inr (i, db'')"
proof -
  have i: "i = nextId (map eID (tEmails db))" and db': "db' = db\<lparr>tEmails := tEmails db @ [row\<lparr>eID := i\<rparr>]\<rparr>"
    using assms(1) by (auto simp: NewEmail_def Let_def split: if_splits)
  have "filter (\<lambda>e. eID e \<noteq> i) (tEmails db) = tEmails db"
    using nextId_fresh [of "map eID (tEmails db)"] unfolding i by (force simp: filter_id_conv)
  then have "tEmails (DeleteEmailRow i db') = tEmails db"
    unfolding db' by (simp add: DeleteEmailRow_def deleteEmails_def)
  then show ?thesis using assms(2) i by (simp add: NewEmail_def Let_def)
qed

theorem uid_reused_witness:
  "\<exists>db''. NewEmail (demoRow\<lparr>fileOffset := 9\<rparr>) (DeleteEmailRow 1 (newDB\<lparr>tEmails := [demoRow\<lparr>eID := 1\<rparr>]\<rparr>)) = Inr (1, db'')"
  by (rule uid_reused [where row = demoRow and db = newDB])
    (simp_all add: NewEmail_def newDB_def nextId_def)

end
