(* ===== verification/Store_Mail.thy ===== *)
theory Store_Mail
  imports Store_Format Store_DB
begin

text \<open>
  Storing, reading, editing and deleting the mails of a user: \<open>src/storage/store/email.go\<close>,
  \<open>src/storage/email.go\<close>, and the cache of \<open>src/storage/meta.go\<close>.

  The state is the files of the user, the database, and the cache: the file that is written to
  and the offset of its end, a number of 32 bits. The name \<open>newFileName()\<close> gives, the time in
  seconds, is an argument \<open>now\<close>. \<open>Seek\<close> to an offset of a file always succeeds.

  A transaction that fails is neither committed nor rolled back: what it did is never seen, but
  its connection, which the contexts of the servers never cancel, keeps the lock for writing. \<open>sBusy\<close>
  tells that there is such a transaction. As long as it is there every other write fails with
  \<open>ErrBusy\<close>, after the five seconds the connection waits, while reads go on; the lock goes with the process.
\<close>

datatype storeError = FileErr fileError | DBErr dbError

record mailStore =
  sFiles :: "string \<Rightarrow> bytes option"
  sDB :: DB
  lastFile :: string
  sOffset :: u32
  sBusy :: bool

text \<open>A query that writes.\<close>

definition onDB :: "(DB \<Rightarrow> dbError + 'a) \<Rightarrow> mailStore \<Rightarrow> dbError + 'a" where
  "onDB query st = (if sBusy st then Inl ErrBusy else query (sDB st))"

section \<open>The place of a mail\<close>

definition openEmailFile :: "mailStore \<Rightarrow> Email \<Rightarrow> storeError + bytes" where
  "openEmailFile st e = (case sFiles st (fileName e) of None \<Rightarrow> Inl (FileErr ErrNotExist) | Some f \<Rightarrow> Inr f)"

definition offsetOf :: "Email \<Rightarrow> nat" where
  "offsetOf e = unat (of_int (fileOffset e) :: u32)"

definition ReadEmail :: "(bytes \<Rightarrow> bytes option) \<Rightarrow> mailStore \<Rightarrow> Email \<Rightarrow> storeError + (bytes \<times> u8) option" where
  "ReadEmail gunzip st e =
     (case openEmailFile st e of
        Inl err \<Rightarrow> Inl err
      | Inr f \<Rightarrow> (case Reader gunzip f (offsetOf e) of Inl err \<Rightarrow> Inl (FileErr err) | Inr r \<Rightarrow> Inr r))"

text \<open>\<open>Email.Delete\<close>.\<close>

definition DeleteContent :: "Email \<Rightarrow> mailStore \<Rightarrow> storeError + mailStore" where
  "DeleteContent e st =
     (case openEmailFile st e of
        Inl err \<Rightarrow> Inl err
      | Inr f \<Rightarrow>
          (case DeleteEmailAt f (offsetOf e) of
             Inl err \<Rightarrow> Inl (FileErr err)
           | Inr f' \<Rightarrow> Inr (st\<lparr>sFiles := (sFiles st)(fileName e := Some f')\<rparr>)))"

text \<open>\<open>OpenFile\<close>: the file that is opened and the position in it, then the new values of
  \<open>lastFile\<close> and \<open>offset\<close>, and the files.\<close>

definition OpenFile ::
  "(string \<Rightarrow> bytes option) \<Rightarrow> string \<Rightarrow> string \<Rightarrow> nat \<Rightarrow> bytes \<Rightarrow>
   fileError + (string \<times> nat) \<times> (string \<times> nat) \<times> (string \<Rightarrow> bytes option)" where
  "OpenFile files now lf offset b =
     (let chosen =
        (if length b < MaxEmailSizeInFile \<and> lf \<noteq> [] then
           (case files lf of
              None \<Rightarrow> Inl ErrNotExist
            | Some f \<Rightarrow>
                let lf' = (if length f \<ge> MaxFileSize then now else lf) in Inr (lf', lf', offset))
         else Inr (lf, now, 0))
      in case chosen of
           Inl err \<Rightarrow> Inl err
         | Inr (lf', p, off) \<Rightarrow>
             Inr ((p, off), (if lf' = [] then (p, off) else (lf', offset)),
                  (if files p = None then files(p := Some []) else files)))"

section \<open>The cache\<close>

text \<open>\<open>meta.Sync\<close>, which a new process runs when it opens the store of a user, and \<open>meta.Save\<close>,
  which runs every three hours and when the process ends as it should.\<close>

definition Sync :: "mailStore \<Rightarrow> mailStore" where
  "Sync st =
     (case tMeta (sDB st) of
        None \<Rightarrow> st
      | Some (lf, offset) \<Rightarrow> st\<lparr>lastFile := lf, sOffset := of_int offset\<rparr>)"

definition Save :: "mailStore \<Rightarrow> mailStore" where
  "Save st = (if sBusy st then st else st\<lparr>sDB := SetMeta (lastFile st) (uint (sOffset st)) (sDB st)\<rparr>)"

text \<open>A process that ends, with or without saving, and the next one.\<close>

definition restart :: "mailStore \<Rightarrow> mailStore" where
  "restart st = Sync (st\<lparr>lastFile := [], sOffset := 0, sBusy := False\<rparr>)"

section \<open>Storing\<close>

text \<open>\<open>StoreEmail\<close>, with the identifier its callback is given. The result is the state the files
  and the database are left in, also after an error.\<close>

definition StoreEmail ::
  "(bytes \<Rightarrow> bytes) \<Rightarrow> string \<Rightarrow> Email \<Rightarrow> bytes \<Rightarrow> bool \<Rightarrow> (int \<Rightarrow> DB \<Rightarrow> dbError + DB) \<Rightarrow> mailStore \<Rightarrow>
   (storeError + int) \<times> mailStore" where
  "StoreEmail gzip now row b encrypted callback st =
     (case OpenFile (sFiles st) now (lastFile st) (unat (sOffset st)) b of
        Inl err \<Rightarrow> (Inl (FileErr err), st)
      | Inr ((p, pos), (lf, offset), files) \<Rightarrow>
          (case WriteEmail gzip (the (files p)) pos encrypted b of
             Inl err \<Rightarrow> (Inl (FileErr err), st\<lparr>sFiles := files\<rparr>)
           | Inr (n, f) \<Rightarrow>
               let st1 = st\<lparr>sFiles := files(p := Some f)\<rparr> in
               (case onDB (NewEmail (row\<lparr>fileName := lf, fileOffset := int offset\<rparr>)) st of
                  Inl err \<Rightarrow> (Inl (DBErr err), st1\<lparr>sBusy := True\<rparr>)
                | Inr (i, db) \<Rightarrow>
                    (case callback i db of
                       Inl err \<Rightarrow> (Inl (DBErr err), st1\<lparr>sBusy := True\<rparr>)
                     | Inr db' \<Rightarrow> (Inr i, st1\<lparr>sDB := db', lastFile := lf, sOffset := of_nat offset + n\<rparr>)))))"

definition JunkMailbox :: int where
  "JunkMailbox = 2"

definition InboxMailbox :: int where
  "InboxMailbox = 1"

definition JunkFlag :: int where
  "JunkFlag = 8"

definition spamCallback :: "int \<Rightarrow> DB \<Rightarrow> dbError + DB" where
  "spamCallback i db =
     (case AddEmailFlagRow i JunkFlag db of Inl err \<Rightarrow> Inl err | Inr db' \<Rightarrow> AddMailboxEmail JunkMailbox i db')"

definition inboxCallback :: "string \<Rightarrow> int \<Rightarrow> DB \<Rightarrow> dbError + DB" where
  "inboxCallback folder i db =
     (if folder \<noteq> [] then
        (case GetOrCreateMailbox folder db of
           Inl err \<Rightarrow> Inl err
         | Inr (box, db') \<Rightarrow> AddMailboxEmail (fst box) i db')
      else AddMailboxEmail InboxMailbox i db)"

definition StoreSpam ::
  "(bytes \<Rightarrow> bytes) \<Rightarrow> string \<Rightarrow> Email \<Rightarrow> bytes \<Rightarrow> bool \<Rightarrow> mailStore \<Rightarrow> (storeError + int) \<times> mailStore" where
  "StoreSpam gzip now row b encrypted = StoreEmail gzip now row b encrypted spamCallback"

definition StoreEmailInbox ::
  "(bytes \<Rightarrow> bytes) \<Rightarrow> string \<Rightarrow> Email \<Rightarrow> bytes \<Rightarrow> string \<Rightarrow> bool \<Rightarrow> mailStore \<Rightarrow> (storeError + int) \<times> mailStore" where
  "StoreEmailInbox gzip now row b folder encrypted = StoreEmail gzip now row b encrypted (inboxCallback folder)"

section \<open>Reading, editing and deleting\<close>

definition Read :: "(bytes \<Rightarrow> bytes option) \<Rightarrow> int \<Rightarrow> mailStore \<Rightarrow> storeError + (bytes \<times> u8) option" where
  "Read gunzip i st = (case GetEmail (sDB st) i of Inl err \<Rightarrow> Inl (DBErr err) | Inr e \<Rightarrow> ReadEmail gunzip st e)"

text \<open>\<open>deleteEmail\<close>: the row goes first, and stays deleted when the content cannot be.\<close>

definition deleteEmail :: "Email \<Rightarrow> mailStore \<Rightarrow> storeError option \<times> mailStore" where
  "deleteEmail e st =
     (let st1 = st\<lparr>sDB := DeleteEmailRow (eID e) (sDB st)\<rparr> in
      if sBusy st then (Some (DBErr ErrBusy), st)
      else case DeleteContent e st1 of Inl err \<Rightarrow> (Some err, st1) | Inr st2 \<Rightarrow> (None, st2))"

definition DeleteEmail :: "int \<Rightarrow> mailStore \<Rightarrow> storeError option \<times> mailStore" where
  "DeleteEmail i st =
     (case GetEmail (sDB st) i of Inl err \<Rightarrow> (Some (DBErr err), st) | Inr e \<Rightarrow> deleteEmail e st)"

definition EditEmail ::
  "(bytes \<Rightarrow> bytes) \<Rightarrow> string \<Rightarrow> Email \<Rightarrow> bool \<Rightarrow> bytes \<Rightarrow> mailStore \<Rightarrow> storeError option \<times> mailStore" where
  "EditEmail gzip now e encrypted b st =
     (case OpenFile (sFiles st) now (lastFile st) (unat (sOffset st)) b of
        Inl err \<Rightarrow> (Some (FileErr err), st)
      | Inr ((p, pos), (lf, offset), files) \<Rightarrow>
          (case WriteEmail gzip (the (files p)) pos encrypted b of
             Inl err \<Rightarrow> (Some (FileErr err), st\<lparr>sFiles := files\<rparr>)
           | Inr (n, f) \<Rightarrow>
               (case DeleteEmailAt f (offsetOf e) of
                  Inl err \<Rightarrow> (Some (FileErr err), st\<lparr>sFiles := files(p := Some f)\<rparr>)
                | Inr f' \<Rightarrow>
                    let st1 = st\<lparr>sFiles := files(p := Some f')\<rparr> in
                    (case onDB (UpdateOffset (int offset) (eID e)) st of
                       Inl err \<Rightarrow> (Some (DBErr err), st1)
                     | Inr db \<Rightarrow> (None, st1\<lparr>sDB := db, lastFile := lf, sOffset := of_nat offset + n\<rparr>)))))"

section \<open>The invariant of the store\<close>

text \<open>The place of a row, and an index of the records of the rows: each is in its file, they do
  not overlap, they hold mails that were written, and they end before the offset of the cache.\<close>

definition placeOf :: "Email \<Rightarrow> string \<times> nat" where
  "placeOf e = (fileName e, nat (fileOffset e))"

definition recordsOk :: "(bytes \<Rightarrow> bytes) \<Rightarrow> nat \<Rightarrow> (string \<times> nat \<times> u8 \<times> bytes) set \<Rightarrow> bool" where
  "recordsOk gzip bound ix \<longleftrightarrow>
     (\<forall>n p r. (n, p, r) \<in> ix \<longrightarrow> p + recordSize r \<le> bound \<and> (\<exists>enc b. r = recordOf gzip enc b))"

definition storeIx :: "(bytes \<Rightarrow> bytes) \<Rightarrow> mailStore \<Rightarrow> (string \<times> nat \<times> u8 \<times> bytes) set \<Rightarrow> bool" where
  "storeIx gzip st ix \<longleftrightarrow>
     dbOk (sDB st) \<and> rf.indexed (sFiles st) ix \<and> rf.disjoint ix \<and> recordsOk gzip (unat (sOffset st)) ix \<and>
     (\<lambda>(n, p, r). (n, p)) ` ix = placeOf ` set (tEmails (sDB st)) \<and>
     (\<forall>e \<in> set (tEmails (sDB st)). 0 \<le> fileOffset e) \<and>
     (if lastFile st = [] then tEmails (sDB st) = [] \<and> sOffset st = 0 else sFiles st (lastFile st) \<noteq> None)"

definition storeOk :: "(bytes \<Rightarrow> bytes) \<Rightarrow> mailStore \<Rightarrow> bool" where
  "storeOk gzip st \<longleftrightarrow> (\<exists>ix. storeIx gzip st ix)"

definition emptyStore :: mailStore where
  "emptyStore = \<lparr>sFiles = \<lambda>_. None, sDB = newDB, lastFile = [], sOffset = 0, sBusy = False\<rparr>"

lemma storeOk_emptyStore: "storeOk gzip emptyStore"
  unfolding storeOk_def storeIx_def
  by (rule exI [of _ "{}"])
    (simp add: emptyStore_def dbOk_newDB rf.indexed_def rf.disjoint_def recordsOk_def newDB_def [THEN arg_cong [of _ _ tEmails]])

lemma storeIx_sBusy [simp]: "storeIx gzip (st\<lparr>sBusy := x\<rparr>) ix = storeIx gzip st ix"
  by (simp add: storeIx_def)

lemma storeOk_sBusy [simp]: "storeOk gzip (st\<lparr>sBusy := x\<rparr>) = storeOk gzip st"
  by (simp add: storeOk_def)

lemma ReadEmail_sBusy [simp]: "ReadEmail gunzip (st\<lparr>sBusy := x\<rparr>) e = ReadEmail gunzip st e"
  by (simp add: ReadEmail_def openEmailFile_def)

lemma Read_sBusy [simp]: "Read gunzip i (st\<lparr>sBusy := x\<rparr>) = Read gunzip i st"
  by (simp add: Read_def split: sum.split)

lemma recordsOkD:
  "recordsOk gzip bound ix \<Longrightarrow> (n, p, r) \<in> ix \<Longrightarrow> p + recordSize r \<le> bound \<and> (\<exists>enc b. r = recordOf gzip enc b)"
  unfolding recordsOk_def by blast

lemma storeIx_row:
  assumes "storeIx gzip st ix" "e \<in> set (tEmails (sDB st))"
  obtains r where "(fileName e, nat (fileOffset e), r) \<in> ix"
proof -
  have "placeOf e \<in> (\<lambda>(n, p, r). (n, p)) ` ix" using assms unfolding storeIx_def by blast
  then show thesis using that by (auto simp: placeOf_def)
qed

lemma storeIx_offset:
  assumes "storeIx gzip st ix" "e \<in> set (tEmails (sDB st))"
  shows "offsetOf e = nat (fileOffset e)"
proof -
  obtain r where "(fileName e, nat (fileOffset e), r) \<in> ix" using storeIx_row [OF assms] by blast
  then have "nat (fileOffset e) \<le> unat (sOffset st)"
    using assms(1) recordsOkD unfolding storeIx_def by (metis add_leD1)
  also have "\<dots> < 2 ^ 32" using unsigned_less [of "sOffset st", where ?'a = nat] by simp
  finally have "nat (fileOffset e) < 2 ^ 32" .
  moreover have "0 \<le> fileOffset e" using assms unfolding storeIx_def by blast
  ultimately show ?thesis
    unfolding offsetOf_def by (metis nat_0_le of_int_of_nat_eq unat_of_length)
qed

text \<open>What reading the mail of a row gives is in its record.\<close>

lemma ReadEmail_record:
  assumes "sFiles st (fileName e) = Some f" "recordAt f (offsetOf e) = Some r"
  shows "ReadEmail gunzip st e = (case contentOf gunzip r of Inl err \<Rightarrow> Inl (FileErr err) | Inr c \<Rightarrow> Inr c)"
  using assms by (simp add: ReadEmail_def openEmailFile_def Reader_record)

lemma ReadEmail_index:
  assumes "storeIx gzip st ix" "e \<in> set (tEmails (sDB st))" "(fileName e, nat (fileOffset e), r) \<in> ix"
  shows "ReadEmail gunzip st e = (case contentOf gunzip r of Inl err \<Rightarrow> Inl (FileErr err) | Inr c \<Rightarrow> Inr c)"
proof -
  have "rf.indexed (sFiles st) ix" using assms(1) by (simp add: storeIx_def)
  then obtain f where "sFiles st (fileName e) = Some f" "recordAt f (nat (fileOffset e)) = Some r"
    using assms(3) unfolding rf.indexed_def by blast
  then show ?thesis using ReadEmail_record storeIx_offset [OF assms(1,2)] by simp
qed

lemma GetEmail_row: "dbOk db \<Longrightarrow> e \<in> set (tEmails db) \<Longrightarrow> GetEmail db (eID e) = Inr e"
proof -
  assume "dbOk db" and e: "e \<in> set (tEmails db)"
  then have inj: "inj_on eID (set (tEmails db))" by (simp add: dbOk_def emailRowsOk_def distinct_map)
  obtain e' where e': "find (\<lambda>x. eID x = eID e) (tEmails db) = Some e'"
    using e by (metis (mono_tags) find_None_iff not_None_eq)
  then have "e' \<in> set (tEmails db)" "eID e' = eID e" by (auto simp: find_Some_iff)
  then have "e' = e" using inj e by (auto dest: inj_onD)
  then show ?thesis using e' by (simp add: GetEmail_def)
qed

lemma GetEmail_Inr: "GetEmail db i = Inr e \<Longrightarrow> e \<in> set (tEmails db) \<and> eID e = i"
  by (auto simp: GetEmail_def find_Some_iff split: option.splits)

section \<open>Storing keeps the invariant\<close>

text \<open>The callbacks add rows, and none of the mails.\<close>

definition goodCallback :: "(int \<Rightarrow> DB \<Rightarrow> dbError + DB) \<Rightarrow> bool" where
  "goodCallback callback \<longleftrightarrow>
     (\<forall>i db db'. callback i db = Inr db' \<longrightarrow> tEmails db' = tEmails db \<and> (dbOk db \<longrightarrow> dbOk db'))"

lemma AddMailboxEmail_emails: "AddMailboxEmail box i db = Inr db' \<Longrightarrow> tEmails db' = tEmails db"
  by (auto simp: AddMailboxEmail_def split: if_splits)

lemma AddEmailFlagRow_emails: "AddEmailFlagRow i flag db = Inr db' \<Longrightarrow> tEmails db' = tEmails db"
  by (auto simp: AddEmailFlagRow_def split: if_splits)

lemma GetOrCreateMailbox_emails: "GetOrCreateMailbox name db = Inr (box, db') \<Longrightarrow> tEmails db' = tEmails db"
  by (auto simp: GetOrCreateMailbox_def insertMailbox_def Let_def split: if_splits option.splits)

lemma goodCallback_AddMailboxEmail: "goodCallback (AddMailboxEmail box)"
  unfolding goodCallback_def using AddMailboxEmail_emails dbOk_AddMailboxEmail by blast

lemma goodCallback_spam: "goodCallback spamCallback"
  unfolding goodCallback_def spamCallback_def
  by (auto split: sum.splits simp: AddMailboxEmail_emails AddEmailFlagRow_emails
      intro: dbOk_AddMailboxEmail dbOk_AddEmailFlagRow)

lemma goodCallback_inbox: "goodCallback (inboxCallback folder)"
  unfolding goodCallback_def inboxCallback_def
  by (auto split: sum.splits if_splits simp: AddMailboxEmail_emails GetOrCreateMailbox_emails
      intro: dbOk_AddMailboxEmail dbOk_GetOrCreateMailbox)

text \<open>A file that is created if it is not there.\<close>

definition ensureFile :: "string \<Rightarrow> (string \<Rightarrow> bytes option) \<Rightarrow> string \<Rightarrow> bytes option" where
  "ensureFile p files = (if files p = None then files(p := Some []) else files)"

lemma ensureFile_some: "\<exists>f. ensureFile p files p = Some f"
  by (simp add: ensureFile_def)

lemma indexed_ensureFile: "rf.indexed files ix \<Longrightarrow> rf.indexed (ensureFile p files) ix"
  unfolding rf.indexed_def ensureFile_def by (auto split: prod.splits)

text \<open>Where a mail that is not too big is written: in the file of the cache, or in a new one when
  that is full, at the offset of the cache, and this is what is recorded.\<close>

lemma OpenFile_small:
  assumes "storeIx gzip st ix" "length b < MaxEmailSizeInFile" "now \<noteq> []"
  obtains p where "p \<noteq> []"
    "sFiles st now = None \<longrightarrow> (\<forall>f. ensureFile p (sFiles st) p = Some f \<longrightarrow> length f < MaxFileSize)"
    "OpenFile (sFiles st) now (lastFile st) (unat (sOffset st)) b =
       Inr ((p, unat (sOffset st)), (p, unat (sOffset st)), ensureFile p (sFiles st))"
proof (cases "lastFile st = []")
  case True
  then have "unat (sOffset st) = 0" using assms(1) by (simp add: storeIx_def)
  with True show thesis using that [of now] assms(3) by (simp add: OpenFile_def ensureFile_def MaxFileSize_def)
next
  case False
  then obtain f where f: "sFiles st (lastFile st) = Some f" using assms(1) by (auto simp: storeIx_def)
  let ?p = "if length f \<ge> MaxFileSize then now else lastFile st"
  show thesis
  proof (rule that [of ?p])
    show "sFiles st now = None \<longrightarrow> (\<forall>g. ensureFile ?p (sFiles st) ?p = Some g \<longrightarrow> length g < MaxFileSize)"
      using f by (auto simp: ensureFile_def MaxFileSize_def)
  qed (use f False assms(2,3) in \<open>auto simp: OpenFile_def ensureFile_def Let_def\<close>)
qed

text \<open>The state after the record of a mail is written, and after it is recorded.\<close>

lemma storeIx_written:
  assumes "storeIx gzip st ix" "recordFits r" "ensureFile p (sFiles st) p = Some f"
  shows "rf.indexed ((ensureFile p (sFiles st))(p := Some (putRecord f (unat (sOffset st)) r)))
    (insert (p, unat (sOffset st), r) ix)"
    and "rf.disjoint (insert (p, unat (sOffset st), r) ix)"
proof -
  have fits: "\<forall>(n, q, s) \<in> ix. n = p \<longrightarrow> q + recordSize s \<le> unat (sOffset st)"
    using assms(1) recordsOkD unfolding storeIx_def by blast
  show "rf.disjoint (insert (p, unat (sOffset st), r) ix)"
    using assms(1) fits unfolding storeIx_def by (intro rf.disjoint_insert) auto
  show "rf.indexed ((ensureFile p (sFiles st))(p := Some (putRecord f (unat (sOffset st)) r)))
      (insert (p, unat (sOffset st), r) ix)"
    using assms fits indexed_ensureFile unfolding storeIx_def by (intro rf.indexed_put) auto
qed

lemma storeIx_files:
  assumes "storeIx gzip st ix" "rf.indexed files ix" "lastFile st \<noteq> [] \<longrightarrow> files (lastFile st) \<noteq> None"
  shows "storeIx gzip (st\<lparr>sFiles := files\<rparr>) ix"
  using assms unfolding storeIx_def by simp

text \<open>A change of the database that leaves the mails as they are.\<close>

lemma storeIx_db:
  "storeIx gzip st ix \<Longrightarrow> dbOk db \<Longrightarrow> tEmails db = tEmails (sDB st) \<Longrightarrow> storeIx gzip (st\<lparr>sDB := db\<rparr>) ix"
  unfolding storeIx_def by auto

lemma storeOk_db: "storeOk gzip st \<Longrightarrow> dbOk db \<Longrightarrow> tEmails db = tEmails (sDB st) \<Longrightarrow> storeOk gzip (st\<lparr>sDB := db\<rparr>)"
  unfolding storeOk_def using storeIx_db by blast

lemma recordFits_bound: "k + recordSize r < 2 ^ 32 \<Longrightarrow> recordFits r"
  by (simp add: recordSize_def recordFits_def)

lemma recordsOk_insert:
  "recordsOk gzip bound ix \<Longrightarrow> bound + recordSize (recordOf gzip enc b) \<le> bound' \<Longrightarrow>
   recordsOk gzip bound' (insert (p, bound, recordOf gzip enc b) ix)"
  unfolding recordsOk_def by fastforce

lemma storeIx_recorded:
  assumes ix: "storeIx gzip st ix" and p: "p \<noteq> []" and off: "off = unat (sOffset st)"
    and bound: "off + recordSize r < 2 ^ 32" and r: "r = recordOf gzip enc b"
    and f: "ensureFile p (sFiles st) p = Some f" and db: "dbOk db"
    and rows: "tEmails db = tEmails (sDB st) @ [row\<lparr>eID := i, fileName := p, fileOffset := int off\<rparr>]"
    and st': "st' = st\<lparr>sFiles := (ensureFile p (sFiles st))(p := Some (putRecord f off r)), sDB := db, lastFile := p,
      sOffset := of_nat off + of_nat (recordSize r)\<rparr>"
  shows "storeIx gzip st' (insert (p, off, r) ix)"
proof -
  have "(of_nat off :: u32) + of_nat (recordSize r) = of_nat (off + recordSize r)" by simp
  then have end': "unat (sOffset st') = off + recordSize r"
    unfolding st' using unat_of_length [OF bound] by simp
  have "recordsOk gzip (unat (sOffset st')) (insert (p, off, r) ix)"
    using ix recordsOk_insert [of gzip off ix enc b "off + recordSize r" p] unfolding end' off r storeIx_def by simp
  moreover have "(\<lambda>(n, p, r). (n, p)) ` insert (p, off, r) ix = placeOf ` set (tEmails db)"
    using ix unfolding storeIx_def rows by (simp add: placeOf_def)
  ultimately show ?thesis
    using storeIx_written [OF ix recordFits_bound [OF bound] f] ix db p rows off
    unfolding storeIx_def st' by simp
qed

text \<open>Files that hold the records of the index, and all the files there were, can take the place of
  those of the store.\<close>

lemma storeIx_kept:
  assumes "storeIx gzip st ix" "rf.indexed files ix" "\<forall>n. sFiles st n \<noteq> None \<longrightarrow> files n \<noteq> None"
  shows "storeIx gzip (st\<lparr>sFiles := files\<rparr>) ix"
  using storeIx_files [OF assms(1,2)] assms unfolding storeIx_def by (auto split: if_splits)

text \<open>\<open>StoreEmail\<close> once the file is open.\<close>

lemma StoreEmail_opened:
  assumes "OpenFile (sFiles st) now (lastFile st) (unat (sOffset st)) b = Inr ((p, off), (p, off), files)"
    and "files p = Some f" and "f' = putRecord f off (recordOf gzip enc b)"
  shows "StoreEmail gzip now row b enc callback st =
    (if length f \<ge> MaxFileSize then (Inl (FileErr ErrFileIsFull), st\<lparr>sFiles := files\<rparr>)
     else case onDB (NewEmail (row\<lparr>fileName := p, fileOffset := int off\<rparr>)) st of
        Inl err \<Rightarrow> (Inl (DBErr err), st\<lparr>sFiles := files(p := Some f'), sBusy := True\<rparr>)
      | Inr (i, db) \<Rightarrow> (case callback i db of
            Inl err \<Rightarrow> (Inl (DBErr err), st\<lparr>sFiles := files(p := Some f'), sBusy := True\<rparr>)
          | Inr db' \<Rightarrow> (Inr i, st\<lparr>sFiles := files(p := Some f'), sDB := db', lastFile := p,
              sOffset := of_nat off + of_nat (recordSize (recordOf gzip enc b))\<rparr>)))"
  using assms(1,2) unfolding assms(3) by (simp add: StoreEmail_def WriteEmail_record Let_def)

lemma NewEmail_Inr:
  "NewEmail row db = Inr (i, db') \<Longrightarrow> db' = db\<lparr>tEmails := tEmails db @ [row\<lparr>eID := i\<rparr>]\<rparr>"
  by (auto simp: NewEmail_def Let_def split: if_splits)

lemma StoreEmail_outcome:
  assumes ix: "storeIx gzip st ix" and small: "length b < MaxEmailSizeInFile" and now: "now \<noteq> []"
    and cb: "goodCallback callback"
    and bound: "unat (sOffset st) + recordSize (recordOf gzip enc b) < 2 ^ 32"
    and run: "StoreEmail gzip now row b enc callback st = (res, st')"
  shows "(\<exists>err. res = Inl err) \<and> sDB st' = sDB st \<and> storeIx gzip st' ix \<or>
    (\<exists>i p. res = Inr i \<and> storeIx gzip st' (insert (p, unat (sOffset st), recordOf gzip enc b) ix) \<and>
      tEmails (sDB st') = tEmails (sDB st) @ [row\<lparr>eID := i, fileName := p, fileOffset := int (unat (sOffset st))\<rparr>])"
    (is "?failed \<or> ?stored")
proof -
  let ?off = "unat (sOffset st)" and ?r = "recordOf gzip enc b"
  obtain p where p: "p \<noteq> []" and op: "OpenFile (sFiles st) now (lastFile st) ?off b =
      Inr ((p, ?off), (p, ?off), ensureFile p (sFiles st))"
    using OpenFile_small [OF ix small now] by blast
  obtain f where f: "ensureFile p (sFiles st) p = Some f" using ensureFile_some by blast
  let ?files = "(ensureFile p (sFiles st))(p := Some (putRecord f ?off ?r))"
  note eq = StoreEmail_opened [OF op f refl, where gzip = gzip and enc = enc and row = row and callback = callback, unfolded run]
  have opened: "storeIx gzip (st\<lparr>sFiles := ensureFile p (sFiles st)\<rparr>) ix"
    using ix indexed_ensureFile by (intro storeIx_kept) (auto simp: storeIx_def ensureFile_def)
  have written: "storeIx gzip (st\<lparr>sFiles := ?files\<rparr>) ix"
  proof (rule storeIx_kept [OF ix])
    show "rf.indexed ?files ix"
      using storeIx_written(1) [OF ix recordFits_bound [OF bound] f] rf.indexed_mono by blast
  qed (simp add: ensureFile_def)
  consider "length f \<ge> MaxFileSize"
    | err where "length f < MaxFileSize" "onDB (NewEmail (row\<lparr>fileName := p, fileOffset := int ?off\<rparr>)) st = Inl err"
    | i db where "length f < MaxFileSize" "NewEmail (row\<lparr>fileName := p, fileOffset := int ?off\<rparr>) (sDB st) = Inr (i, db)"
        "onDB (NewEmail (row\<lparr>fileName := p, fileOffset := int ?off\<rparr>)) st = Inr (i, db)"
    by (cases "onDB (NewEmail (row\<lparr>fileName := p, fileOffset := int ?off\<rparr>)) st")
      (fastforce simp: onDB_def split: if_splits)+
  then show ?thesis
  proof cases
    case (3 i db)
    show ?thesis
    proof (cases "callback i db")
      case (Inr db')
      have rows: "tEmails db' = tEmails (sDB st) @ [row\<lparr>eID := i, fileName := p, fileOffset := int ?off\<rparr>]"
        and "dbOk db'"
        using cb Inr dbOk_NewEmail [OF _ 3(2)] ix NewEmail_Inr [OF 3(2)] unfolding goodCallback_def storeIx_def by auto
      then have "storeIx gzip st' (insert (p, ?off, ?r) ix)"
        using storeIx_recorded [OF ix p refl bound refl f \<open>dbOk db'\<close> rows refl] eq 3 Inr by simp
      then show ?thesis using eq 3 Inr rows by auto
    qed (use eq 3 written in auto)
  qed (use eq opened written in auto)
qed

section \<open>Deleting keeps the invariant\<close>

lemma image_minus: "f ` S - {y} = f ` {x \<in> S. f x \<noteq> y}"
  by blast

lemma places_minus:
  assumes "\<And>n q s. (n, q, s) \<in> jx \<longleftrightarrow> (n, q, s) \<in> ix \<and> (n, q) \<noteq> pl"
  shows "(\<lambda>(n, p, r). (n, p)) ` jx = (\<lambda>(n, p, r). (n, p)) ` ix - {pl}"
proof -
  have "jx = {x \<in> ix. (\<lambda>(n, p, r). (n, p)) x \<noteq> pl}" using assms by auto
  then show ?thesis by blast
qed

lemma deleteEmail_outcome:
  assumes ix: "storeIx gzip st ix" and e: "e \<in> set (tEmails (sDB st))" and r: "(fileName e, nat (fileOffset e), r) \<in> ix"
    and free: "\<not> sBusy st"
  shows "\<exists>st'. deleteEmail e st = (None, st') \<and> \<not> sBusy st' \<and> sDB st' = DeleteEmailRow (eID e) (sDB st) \<and>
    storeIx gzip st' (ix - {(fileName e, nat (fileOffset e), r)})"
proof -
  let ?p = "nat (fileOffset e)" and ?jx = "ix - {(fileName e, nat (fileOffset e), r)}"
  obtain f where f: "sFiles st (fileName e) = Some f" "recordAt f ?p = Some r"
    using ix r unfolding storeIx_def rf.indexed_def by blast
  let ?st = "st\<lparr>sDB := DeleteEmailRow (eID e) (sDB st), sFiles := (sFiles st)(fileName e := Some (killRecord f ?p))\<rparr>"
  have run: "deleteEmail e st = (None, ?st)"
    using f storeIx_offset [OF ix e] DeleteEmailAt_record [OF f(2)] free
    by (simp add: deleteEmail_def DeleteContent_def openEmailFile_def)
  have rows: "set (tEmails (sDB ?st)) = {x \<in> set (tEmails (sDB st)). eID x \<noteq> eID e}"
    by (simp add: DeleteEmailRow_def deleteEmails_def)
  have ok: "dbOk (sDB st)" using ix by (simp add: storeIx_def)
  have inj: "placeOf x = placeOf e \<longleftrightarrow> x = e" "eID x = eID e \<longleftrightarrow> x = e" if x: "x \<in> set (tEmails (sDB st))" for x
  proof -
    have "0 \<le> fileOffset x" "0 \<le> fileOffset e" using ix x e unfolding storeIx_def by blast+
    moreover have "inj_on (\<lambda>e. (fileOffset e, fileName e)) (set (tEmails (sDB st)))"
      using ok by (simp add: dbOk_def emailRowsOk_def distinct_map)
    ultimately show "placeOf x = placeOf e \<longleftrightarrow> x = e"
      using inj_onD [of _ _ x e] x e by (fastforce simp: placeOf_def)
    show "eID x = eID e \<longleftrightarrow> x = e"
      using x e ok unfolding dbOk_def emailRowsOk_def distinct_map inj_on_def by blast
  qed
  have jx: "(n, q, s) \<in> ?jx \<longleftrightarrow> (n, q, s) \<in> ix \<and> (n, q) \<noteq> placeOf e" for n q s
    using ix r rf.disjointD [of ix n q s q r] unfolding storeIx_def placeOf_def by (auto simp: recordSize_def)
  have "(\<lambda>(n, p, r). (n, p)) ` ?jx = (\<lambda>(n, p, r). (n, p)) ` ix - {placeOf e}"
    by (rule places_minus) (rule jx)
  also have "\<dots> = placeOf ` set (tEmails (sDB st)) - {placeOf e}" using ix unfolding storeIx_def by simp
  also have "\<dots> = placeOf ` {x \<in> set (tEmails (sDB st)). placeOf x \<noteq> placeOf e}" by (rule image_minus)
  also have "\<dots> = placeOf ` set (tEmails (sDB ?st))" unfolding rows using inj by (intro image_cong) auto
  finally have places: "(\<lambda>(n, p, r). (n, p)) ` ?jx = placeOf ` set (tEmails (sDB ?st))" .
  have "dbOk (sDB ?st)" using ok dbOk_deleteEmails by (simp add: DeleteEmailRow_def)
  moreover have old: "rf.indexed (sFiles st) ix" "rf.disjoint ix" using ix unfolding storeIx_def by blast+
  have "rf.disjoint ?jx" by (rule rf.disjoint_mono [OF old(2)]) blast
  moreover have "rf.indexed (sFiles ?st) ?jx" using rf.indexed_kill [OF old r f(1)] by simp
  moreover have "recordsOk gzip (unat (sOffset ?st)) ?jx" using ix unfolding storeIx_def recordsOk_def by auto
  ultimately have "storeIx gzip ?st ?jx"
    using places ix e rows unfolding storeIx_def by (auto split: if_splits)
  then show ?thesis using run free by auto
qed

section \<open>The store at work\<close>

text \<open>Mails that are delivered, none of which is bigger than what a shared file takes or makes the
  offset overflow, and mails that are deleted.\<close>

inductive mail_step :: "(bytes \<Rightarrow> bytes) \<Rightarrow> mailStore \<Rightarrow> mailStore \<Rightarrow> bool" for gzip where
  inbox: "length b < MaxEmailSizeInFile \<Longrightarrow> now \<noteq> [] \<Longrightarrow>
    unat (sOffset st) + recordSize (recordOf gzip enc b) < 2 ^ 32 \<Longrightarrow>
    mail_step gzip st (snd (StoreEmailInbox gzip now row b folder enc st))"
| spam: "length b < MaxEmailSizeInFile \<Longrightarrow> now \<noteq> [] \<Longrightarrow>
    unat (sOffset st) + recordSize (recordOf gzip enc b) < 2 ^ 32 \<Longrightarrow>
    mail_step gzip st (snd (StoreSpam gzip now row b enc st))"
| append: "length b < MaxEmailSizeInFile \<Longrightarrow> now \<noteq> [] \<Longrightarrow>
    unat (sOffset st) + recordSize (recordOf gzip enc b) < 2 ^ 32 \<Longrightarrow>
    mail_step gzip st (snd (StoreEmail gzip now row b enc (AddMailboxEmail box) st))"
| deletion: "mail_step gzip st (snd (DeleteEmail i st))"

lemma storeOk_StoreEmail:
  assumes "storeOk gzip st" "length b < MaxEmailSizeInFile" "now \<noteq> []" "goodCallback callback"
    "unat (sOffset st) + recordSize (recordOf gzip enc b) < 2 ^ 32"
  shows "storeOk gzip (snd (StoreEmail gzip now row b enc callback st))"
proof -
  obtain ix where "storeIx gzip st ix" using assms(1) by (auto simp: storeOk_def)
  from StoreEmail_outcome [OF this assms(2-5) prod.collapse [symmetric]] show ?thesis
    unfolding storeOk_def by blast
qed

lemma storeOk_DeleteEmail:
  assumes "storeOk gzip st"
  shows "storeOk gzip (snd (DeleteEmail i st))"
proof (cases "GetEmail (sDB st) i")
  case (Inr e)
  obtain ix where ix: "storeIx gzip st ix" using assms by (auto simp: storeOk_def)
  have e: "e \<in> set (tEmails (sDB st))" using GetEmail_Inr [OF Inr] by blast
  obtain r where "(fileName e, nat (fileOffset e), r) \<in> ix" using storeIx_row [OF ix e] by blast
  from deleteEmail_outcome [OF ix e this] Inr assms show ?thesis
    unfolding DeleteEmail_def storeOk_def by (cases "sBusy st") (auto simp: deleteEmail_def)
qed (use assms in \<open>simp add: DeleteEmail_def\<close>)

interpretation msys: transition_system "\<lambda>st. st = emptyStore" "mail_step gzip" "storeOk gzip" for gzip
proof
  show "storeOk gzip s" if "s = emptyStore" for s using that storeOk_emptyStore by simp
  show "storeOk gzip s'" if "storeOk gzip s" "mail_step gzip s s'" for s s'
    using that(2,1)
    by (induction rule: mail_step.induct)
      (simp_all add: StoreEmailInbox_def StoreSpam_def storeOk_StoreEmail goodCallback_inbox goodCallback_spam
        goodCallback_AddMailboxEmail storeOk_DeleteEmail)
qed

lemma ReadEmail_recordOf:
  assumes "storeIx gzip st ix" "e \<in> set (tEmails (sDB st))" "(fileName e, nat (fileOffset e), recordOf gzip enc b) \<in> ix"
    and "gunzip (gzip b) = Some b"
  shows "ReadEmail gunzip st e = Inr (Some (b, fst (recordOf gzip enc b)))"
  using ReadEmail_index [OF assms(1-3), of gunzip] contentOf_recordOf [of gunzip gzip b enc] assms(4) by simp

lemma Read_row: "storeIx gzip st ix \<Longrightarrow> e \<in> set (tEmails (sDB st)) \<Longrightarrow> Read gunzip (eID e) st = ReadEmail gunzip st e"
  by (simp add: Read_def GetEmail_row storeIx_def)

text \<open>Every mail of a store that satisfies the invariant is read back.\<close>

lemma readable_row:
  assumes "\<forall>b. gunzip (gzip b) = Some b" "storeOk gzip st" "e \<in> set (tEmails (sDB st))"
  shows "\<exists>b h. Read gunzip (eID e) st = Inr (Some (b, h))"
proof -
  obtain ix where ix: "storeIx gzip st ix" using assms(2) by (auto simp: storeOk_def)
  obtain r where r: "(fileName e, nat (fileOffset e), r) \<in> ix" using storeIx_row [OF ix assms(3)] by blast
  obtain enc b where "r = recordOf gzip enc b" using ix r recordsOkD unfolding storeIx_def by blast
  then show ?thesis using ReadEmail_recordOf [OF ix assms(3), of enc b gunzip] r assms(1) Read_row [OF ix assms(3)] by auto
qed

text \<open>A mail whose record is in the index of two stores reads the same in both.\<close>

lemma Read_kept:
  assumes "storeIx gzip st ix" "storeIx gzip st' jx" "e \<in> set (tEmails (sDB st))" "e \<in> set (tEmails (sDB st'))"
    and "jx \<subseteq> ix"
  shows "Read gunzip (eID e) st' = Read gunzip (eID e) st"
proof -
  obtain r where r: "(fileName e, nat (fileOffset e), r) \<in> jx" using storeIx_row [OF assms(2,4)] by blast
  then have "ReadEmail gunzip st' e = ReadEmail gunzip st e"
    using ReadEmail_index [OF assms(1,3), of r] ReadEmail_index [OF assms(2,4) r] assms(5) by auto
  then show ?thesis using Read_row [OF assms(1,3)] Read_row [OF assms(2,4)] by simp
qed

section \<open>Properties\<close>

text \<open>A mail delivered to a new user.\<close>

definition demoStore :: mailStore where
  "demoStore = snd (StoreEmailInbox (\<lambda>b. b) ''1'' demoRow [65] [] False emptyStore)"

lemmas store_eval = onDB_def StoreEmailInbox_def StoreEmail_def OpenFile_def WriteEmail_def Let_def emptyStore_def newDB_def
  NewEmail_def nextId_def inboxCallback_def AddMailboxEmail_def InboxMailbox_def MaxFileSize_def MaxEmailSizeInFile_def
  CompressEmailBiggerThan_def AppendUint32_def writeAt_def demoRow_def

lemma demoStore_step: "mail_step (\<lambda>b. b) emptyStore demoStore"
  unfolding demoStore_def
  by (rule mail_step.inbox) (simp_all add: MaxEmailSizeInFile_def emptyStore_def recordSize_def recordOf_def CompressEmailBiggerThan_def)

lemma storeOk_demoStore: "storeOk (\<lambda>b. b) demoStore"
  using msys.reachable_inv [OF refl r_into_rtranclp [of "mail_step _", OF demoStore_step]] .

lemma demoStore_emails: "tEmails (sDB demoStore) = [demoRow\<lparr>eID := 1\<rparr>]"
  by (simp add: demoStore_def store_eval)

lemma demoStore_files: "sFiles demoStore ''1'' = Some [0, 0, 0, 0, 1, 65]" "lastFile demoStore = ''1''"
  "sOffset demoStore = 6" "tMailbox (sDB demoStore) = tMailbox newDB" "sFiles demoStore ''2'' = None"
  "tMailboxEmails (sDB demoStore) = [(1, 1)]" "\<not> sBusy demoStore"
  by (simp_all add: demoStore_def store_eval)

text \<open>A mail that is stored is read back, and the others as before.\<close>

lemma StoreEmail_reads:
  assumes "gunzip (gzip b) = Some b" and "storeOk gzip st"
    and "length b < MaxEmailSizeInFile" and "now \<noteq> []" and "goodCallback callback"
    and "unat (sOffset st) + recordSize (recordOf gzip enc b) < 2 ^ 32"
    and "StoreEmail gzip now row b enc callback st = (Inr i, st')"
  shows "(\<exists>h. Read gunzip i st' = Inr (Some (b, h)) \<and> (h AND EmailEncrypted \<noteq> 0 \<longleftrightarrow> enc)) \<and>
    (\<forall>e \<in> set (tEmails (sDB st)). Read gunzip (eID e) st' = Read gunzip (eID e) st)"
proof -
  let ?r = "recordOf gzip enc b" and ?off = "unat (sOffset st)"
  obtain ix where ix: "storeIx gzip st ix"
    using assms(2) by (auto simp: storeOk_def)
  obtain p where ix': "storeIx gzip st' (insert (p, ?off, ?r) ix)"
    and rows: "tEmails (sDB st') = tEmails (sDB st) @ [row\<lparr>eID := i, fileName := p, fileOffset := int ?off\<rparr>]"
    using StoreEmail_outcome [OF ix assms(3-7)] by auto
  let ?e = "row\<lparr>eID := i, fileName := p, fileOffset := int ?off\<rparr>"
  have "Read gunzip (eID ?e) st' = Inr (Some (b, fst ?r))"
    using ReadEmail_recordOf [OF ix', of ?e enc b gunzip] Read_row [OF ix', of ?e] rows assms(1) by simp
  moreover have "Read gunzip (eID e) st' = Read gunzip (eID e) st" if e: "e \<in> set (tEmails (sDB st))" for e
  proof -
    obtain r where r: "(fileName e, nat (fileOffset e), r) \<in> ix" using storeIx_row [OF ix e] by blast
    have e': "e \<in> set (tEmails (sDB st'))" using e rows by simp
    have "ReadEmail gunzip st' e = ReadEmail gunzip st e"
      using ReadEmail_index [OF ix e r] ReadEmail_index [OF ix' e', of r] r by simp
    then show ?thesis using Read_row [OF ix e] Read_row [OF ix' e'] by simp
  qed
  ultimately show ?thesis using recordOf_flags(3) [of gzip enc b] by auto
qed

lemma StoreEmail_callback:
  "StoreEmail gzip now row b enc callback st = (Inr i, st') \<Longrightarrow> \<exists>db. callback i db = Inr (sDB st')"
  by (auto simp: StoreEmail_def Let_def split: sum.splits) blast

text \<open>C5: a mail of less than five mebibytes that is delivered is stored: in every state of the store
  that satisfies its invariant and has less than four gibibytes behind it, when \<open>StoreEmailInbox\<close> reports
  no error the mail is read back under the identifier it returns, and every mail there was is
  read as before. For bigger mails it does not hold: the theorem \<open>big_mail_misplaced\<close>.\<close>

theorem delivered_mail_is_read:
  assumes "gunzip (gzip b) = Some b" and "storeOk gzip st"
    and "length b < MaxEmailSizeInFile" and "now \<noteq> []"
    and "unat (sOffset st) + recordSize (recordOf gzip enc b) < 2 ^ 32"
    and "StoreEmailInbox gzip now row b folder enc st = (Inr i, st')"
  shows "(\<exists>h. Read gunzip i st' = Inr (Some (b, h)) \<and> (h AND EmailEncrypted \<noteq> 0 \<longleftrightarrow> enc)) \<and>
    (\<forall>e \<in> set (tEmails (sDB st)). Read gunzip (eID e) st' = Read gunzip (eID e) st)"
  using StoreEmail_reads [where gunzip = gunzip, OF assms(1-4) goodCallback_inbox assms(5) assms(6) [unfolded StoreEmailInbox_def]] .

theorem delivered_mail_is_read_witness:
  "\<exists>h. Read Some 1 demoStore = Inr (Some ([65], h)) \<and> (h AND EmailEncrypted \<noteq> 0 \<longleftrightarrow> False)"
proof -
  have "StoreEmailInbox (\<lambda>b. b) ''1'' demoRow [65] [] False emptyStore = (Inr 1, demoStore)"
    by (simp add: demoStore_def store_eval)
  then show ?thesis
    using delivered_mail_is_read [of Some "\<lambda>b. b" "[65]" emptyStore "''1''" False demoRow "[]" 1 demoStore]
      storeOk_emptyStore by (simp add: MaxEmailSizeInFile_def emptyStore_def recordSize_def recordOf_def CompressEmailBiggerThan_def)
qed

lemma before_offset: "nat x + k \<le> n \<Longrightarrow> 0 < k \<Longrightarrow> x < int n"
  by linarith

lemma storeIx_before:
  assumes "storeIx gzip st ix" "e \<in> set (tEmails (sDB st))"
  shows "fileOffset e < int (unat (sOffset st))"
proof -
  obtain r where "(fileName e, nat (fileOffset e), r) \<in> ix" using storeIx_row [OF assms] by blast
  then have "nat (fileOffset e) + recordSize r \<le> unat (sOffset st)" using assms recordsOkD unfolding storeIx_def by blast
  then show ?thesis by (rule before_offset) (simp add: recordSize_def)
qed

lemma NewEmail_fresh_place:
  assumes "storeIx gzip st ix"
  shows "\<exists>i db. NewEmail (row\<lparr>fileName := p, fileOffset := int (unat (sOffset st))\<rparr>) (sDB st) = Inr (i, db)"
  using storeIx_before [OF assms] by (force simp: NewEmail_def Let_def)

lemma AddMailboxEmail_new:
  assumes "dbOk db" "NewEmail row db = Inr (i, db')" "box \<in> mailboxIds db"
  shows "\<exists>db''. AddMailboxEmail box i db' = Inr db''"
proof -
  have "i \<notin> mailIds db" using assms(2) nextId_fresh [of "map eID (tEmails db)"]
    by (auto simp: NewEmail_def Let_def mailIds_def split: if_splits)
  then have "(box, i) \<notin> set (tMailboxEmails db)" using assms(1) by (auto simp: dbOk_def referencesOk_def)
  then show ?thesis using assms(3) NewEmail_Inr [OF assms(2)] by (simp add: AddMailboxEmail_def mailboxIds_def)
qed

text \<open>C27: delivery of a mail to the inbox does not fail when nothing is in its way: in every state that
  satisfies the invariant and in which the inbox is still there, no file has the name a new one
  would get, and no transaction was left open, a mail of less than five mebibytes is stored
  without an error. The conditions are needed: the theorems \<open>deleted_inbox_loses_mail\<close> of
  \<open>Imap_Session\<close>, \<open>big_mail_misplaced\<close> and \<open>open_transaction_blocks\<close> show what happens without them.\<close>

theorem delivery_succeeds:
  assumes "storeOk gzip st" and "\<not> sBusy st"
    and "length b < MaxEmailSizeInFile" and "now \<noteq> []" and "sFiles st now = None"
    and "InboxMailbox \<in> mailboxIds (sDB st)"
  shows "\<exists>i st'. StoreEmailInbox gzip now row b [] enc st = (Inr i, st') \<and> \<not> sBusy st'"
proof -
  obtain ix where ix: "storeIx gzip st ix"
    using assms(1) by (auto simp: storeOk_def)
  obtain p where small: "\<forall>f. ensureFile p (sFiles st) p = Some f \<longrightarrow> length f < MaxFileSize"
    and op: "OpenFile (sFiles st) now (lastFile st) (unat (sOffset st)) b =
      Inr ((p, unat (sOffset st)), (p, unat (sOffset st)), ensureFile p (sFiles st))"
    using OpenFile_small [OF ix assms(3,4)] assms(5) by blast
  obtain f where f: "ensureFile p (sFiles st) p = Some f" using ensureFile_some by blast
  obtain i db where new: "NewEmail (row\<lparr>fileName := p, fileOffset := int (unat (sOffset st))\<rparr>) (sDB st) = Inr (i, db)"
    using NewEmail_fresh_place [OF ix] by blast
  obtain db' where "AddMailboxEmail InboxMailbox i db = Inr db'"
    using AddMailboxEmail_new [OF _ new assms(6)] ix unfolding storeIx_def by blast
  then show ?thesis
    unfolding StoreEmailInbox_def StoreEmail_opened [OF op f refl] using small f new assms(2)
    by (simp add: inboxCallback_def onDB_def)
qed

theorem delivery_succeeds_witness:
  "\<exists>i st'. StoreEmailInbox (\<lambda>b. b) ''2'' demoRow [66, 67] [] True demoStore = (Inr i, st') \<and> \<not> sBusy st'"
  by (rule delivery_succeeds)
    (simp_all add: storeOk_demoStore MaxEmailSizeInFile_def mailboxIds_def
      demoStore_files newDB_def InboxMailbox_def)

lemma StoreEmail_busy: "sBusy st \<Longrightarrow> fst (StoreEmail gzip now row b enc callback st) \<noteq> Inr i \<and> sBusy (snd (StoreEmail gzip now row b enc callback st))"
  by (auto simp: StoreEmail_def onDB_def Let_def split: sum.split)

lemma StoreEmail_free: "StoreEmail gzip now row b enc callback st = (Inr i, st') \<Longrightarrow> \<not> sBusy st'"
  by (auto simp: StoreEmail_def onDB_def Let_def split: sum.splits if_splits)

text \<open>one delivery whose transaction fails is the end of all: after an error of the database, every
  later delivery to the user fails too, until the process is started again.\<close>

theorem open_transaction_blocks:
  assumes "StoreEmail gzip now row b enc callback st = (Inl (DBErr err), st1)"
    and "StoreEmail gzip now2 row2 b2 enc2 callback2 st1 = (res, st2)"
  shows "sBusy st1 \<and> (\<exists>e. res = Inl e) \<and> sBusy st2"
proof -
  have busy: "sBusy st1" using assms(1) by (auto simp: StoreEmail_def Let_def split: sum.splits prod.splits)
  then show ?thesis
    using assms(2) StoreEmail_busy [OF busy, of gzip now2 row2 b2 enc2 callback2] by (cases res) auto
qed

theorem open_transaction_blocks_witness:
  "fst (StoreEmail (\<lambda>b. b) ''2'' demoRow [66] False (AddMailboxEmail 9) demoStore) = Inl (DBErr ErrForeignKey) \<and>
   (\<exists>e. fst (StoreEmailInbox (\<lambda>b. b) ''2'' demoRow [67] [] False
     (snd (StoreEmail (\<lambda>b. b) ''2'' demoRow [66] False (AddMailboxEmail 9) demoStore))) = Inl e)"
proof -
  let ?s = "StoreEmail (\<lambda>b. b) ''2'' demoRow [66] False (AddMailboxEmail 9) demoStore"
  have "fst ?s = Inl (DBErr ErrForeignKey)"
    by (simp add: StoreEmail_def onDB_def OpenFile_def WriteEmail_record demoStore_files demoStore_emails NewEmail_def nextId_def
        AddMailboxEmail_def newDB_def MaxFileSize_def MaxEmailSizeInFile_def Let_def demoRow_def)
  then have "?s = (Inl (DBErr ErrForeignKey), snd ?s)" by (simp add: prod_eq_iff)
  from open_transaction_blocks [OF this prod.collapse [symmetric]] this show ?thesis
    by (metis StoreEmailInbox_def fst_conv)
qed

text \<open>a mail of five mebibytes or more is lost unless it is the first: it is written to a new
  file, but recorded at the end of the last one, where there is nothing to read.\<close>

theorem big_mail_misplaced:
  assumes "storeOk gzip st" and "lastFile st \<noteq> []" and "sFiles st (lastFile st) = Some f"
    and "length f \<le> unat (sOffset st)" and "length b \<ge> MaxEmailSizeInFile" and "now \<noteq> lastFile st"
    and "StoreEmailInbox gzip now row b folder enc st = (Inr i, st')"
  shows "Read gunzip i st' = Inl (FileErr EOF)"
proof -
  let ?off = "unat (sOffset st)" and ?files = "ensureFile now (sFiles st)"
  let ?row = "row\<lparr>fileName := lastFile st, fileOffset := int ?off\<rparr>"
  obtain g where g: "?files now = Some g" using ensureFile_some by blast
  have op: "OpenFile (sFiles st) now (lastFile st) ?off b = Inr ((now, 0), (lastFile st, ?off), ?files)"
    using assms(2,5) by (simp add: OpenFile_def ensureFile_def)
  obtain db db' where new: "NewEmail ?row (sDB st) = Inr (i, db)" and cb: "inboxCallback folder i db = Inr db'"
    and st': "sDB st' = db'" "sFiles st' (lastFile st) = Some f"
    using assms(3,6,7) g op
    by (auto simp: StoreEmailInbox_def StoreEmail_def onDB_def WriteEmail_record Let_def ensureFile_def split: if_splits sum.splits)
  have "dbOk db'" "tEmails db' = tEmails db"
    using assms(1) dbOk_NewEmail [OF _ new] goodCallback_inbox cb
    unfolding storeOk_def storeIx_def goodCallback_def by blast+
  moreover have "?row\<lparr>eID := i\<rparr> \<in> set (tEmails db)" using NewEmail_Inr [OF new] by simp
  ultimately have "GetEmail db' i = Inr (?row\<lparr>eID := i\<rparr>)" using GetEmail_row by fastforce
  moreover have "offsetOf (?row\<lparr>eID := i\<rparr>) = ?off" by (simp add: offsetOf_def)
  ultimately show ?thesis
    using st' assms(4) by (simp add: Read_def ReadEmail_def openEmailFile_def Reader_def)
qed

definition bigMail :: bytes where
  "bigMail = replicate MaxEmailSizeInFile 0"

theorem big_mail_misplaced_witness:
  "Read Some 2 (snd (StoreEmailInbox (\<lambda>b. b) ''2'' demoRow bigMail [] False demoStore)) = Inl (FileErr EOF)"
proof (rule big_mail_misplaced [where f = "[0, 0, 0, 0, 1, 65]" and now = "''2''"])
  show "storeOk (\<lambda>b. b) demoStore" by (rule storeOk_demoStore)
  have "fst (StoreEmailInbox (\<lambda>b. b) ''2'' demoRow bigMail [] False demoStore) = Inr 2"
    by (simp add: StoreEmailInbox_def StoreEmail_def onDB_def OpenFile_def WriteEmail_record demoStore_files demoStore_emails
        bigMail_def NewEmail_def nextId_def inboxCallback_def AddMailboxEmail_def InboxMailbox_def newDB_def
        MaxFileSize_def Let_def demoRow_def)
  then show "StoreEmailInbox (\<lambda>b. b) ''2'' demoRow bigMail [] False demoStore =
      (Inr 2, snd (StoreEmailInbox (\<lambda>b. b) ''2'' demoRow bigMail [] False demoStore))"
    by (simp add: prod_eq_iff)
qed (simp_all add: demoStore_files bigMail_def)

text \<open>\<open>EditEmail\<close> when the last file has room.\<close>

lemma EditEmail_opened:
  assumes "length b < MaxEmailSizeInFile" "lastFile st \<noteq> []" "sFiles st (lastFile st) = Some f" "length f < MaxFileSize"
  shows "EditEmail gzip now e enc b st =
    (let off = unat (sOffset st); r = recordOf gzip enc b; f1 = putRecord f off r in
     case DeleteEmailAt f1 (offsetOf e) of
       Inl err \<Rightarrow> (Some (FileErr err), st\<lparr>sFiles := (sFiles st)(lastFile st := Some f1)\<rparr>)
     | Inr f2 \<Rightarrow>
        (case onDB (UpdateOffset (int off) (eID e)) st of
           Inl err \<Rightarrow> (Some (DBErr err), st\<lparr>sFiles := (sFiles st)(lastFile st := Some f2)\<rparr>)
         | Inr db \<Rightarrow> (None, st\<lparr>sFiles := (sFiles st)(lastFile st := Some f2), sDB := db,
             sOffset := of_nat off + of_nat (recordSize r)\<rparr>)))"
  using assms by (simp add: EditEmail_def OpenFile_def WriteEmail_record Let_def split: sum.split)

text \<open>editing a mail that is not in the last file spoils it: when \<open>EditEmail\<close> reports no
  error, the file of the mail is untouched, while its row now points in that file to the place
  where the new content was written in the last one.\<close>

theorem edit_other_file:
  assumes "length b < MaxEmailSizeInFile" and "lastFile st \<noteq> []" and "sFiles st (lastFile st) = Some f"
    and "length f < MaxFileSize" and "fileName e \<noteq> lastFile st" and "e \<in> set (tEmails (sDB st))"
    and "EditEmail gzip now e enc b st = (None, st')"
  shows "sFiles st' (fileName e) = sFiles st (fileName e) \<and>
    e\<lparr>fileOffset := int (unat (sOffset st))\<rparr> \<in> set (tEmails (sDB st'))"
  using assms(5-7) unfolding EditEmail_opened [OF assms(1-4)]
  by (force simp: Let_def onDB_def UpdateOffset_def split: sum.splits if_splits)

definition otherRow :: Email where
  "otherRow = demoRow\<lparr>eID := 2, fileName := ''0'', fileOffset := 0\<rparr>"

definition twoFiles :: mailStore where
  "twoFiles = \<lparr>sFiles = [''0'' \<mapsto> [0, 0, 0, 0, 1, 90], ''1'' \<mapsto> [0, 0, 0, 0, 1, 65]],
     sDB = newDB\<lparr>tEmails := [demoRow\<lparr>eID := 1\<rparr>, otherRow]\<rparr>, lastFile = ''1'', sOffset = 6, sBusy = False\<rparr>"

theorem edit_other_file_witness:
  "sFiles (snd (EditEmail (\<lambda>b. b) ''2'' otherRow False [66] twoFiles)) ''0'' = Some [0, 0, 0, 0, 1, 90] \<and>
   otherRow\<lparr>fileOffset := 6\<rparr> \<in> set (tEmails (sDB (snd (EditEmail (\<lambda>b. b) ''2'' otherRow False [66] twoFiles))))"
proof -
  have "fst (EditEmail (\<lambda>b. b) ''2'' otherRow False [66] twoFiles) = None"
    by (simp add: EditEmail_def OpenFile_def WriteEmail_def twoFiles_def otherRow_def demoRow_def newDB_def
        MaxFileSize_def MaxEmailSizeInFile_def CompressEmailBiggerThan_def AppendUint32_def writeAt_def Let_def
        DeleteEmailAt_def offsetOf_def UpdateOffset_def onDB_def)
  then have "EditEmail (\<lambda>b. b) ''2'' otherRow False [66] twoFiles =
      (None, snd (EditEmail (\<lambda>b. b) ''2'' otherRow False [66] twoFiles))" by (simp add: prod_eq_iff)
  from edit_other_file [OF _ _ _ _ _ _ this, where f = "[0, 0, 0, 0, 1, 65]"] show ?thesis
    by (simp add: twoFiles_def otherRow_def demoRow_def MaxFileSize_def MaxEmailSizeInFile_def)
qed

lemma UpdateOffset_fresh:
  assumes "dbOk db" "\<forall>x \<in> set (tEmails db). fileOffset x < off"
  shows "UpdateOffset off i db = Inr (db\<lparr>tEmails := map (\<lambda>x. if eID x = i then x\<lparr>fileOffset := off\<rparr> else x) (tEmails db)\<rparr>)"
proof -
  let ?g = "\<lambda>x. if eID x = i then x\<lparr>fileOffset := off\<rparr> else x"
  have db: "distinct (tEmails db)" "inj_on eID (set (tEmails db))"
    "inj_on (\<lambda>e. (fileOffset e, fileName e)) (set (tEmails db))"
    using assms(1) by (auto simp: dbOk_def emailRowsOk_def distinct_map)
  have "inj_on (\<lambda>x. (fileOffset (?g x), fileName (?g x))) (set (tEmails db))"
  proof (rule inj_onI)
    fix x y
    assume xy: "x \<in> set (tEmails db)" "y \<in> set (tEmails db)"
      "(fileOffset (?g x), fileName (?g x)) = (fileOffset (?g y), fileName (?g y))"
    have "eID x = i \<longleftrightarrow> eID y = i" using xy assms(2) by (auto split: if_splits)
    then show "x = y" using xy inj_onD [OF db(2)] inj_onD [OF db(3)] by (auto split: if_splits)
  qed
  then have "distinct (map (\<lambda>e. (fileOffset e, fileName e)) (map ?g (tEmails db)))"
    unfolding map_map distinct_map comp_def using db(1) by blast
  then show ?thesis by (simp only: UpdateOffset_def Let_def if_True)
qed

text \<open>What editing a mail of the last file does, while the file has room.\<close>

lemma EditEmail_last:
  assumes "storeOk gzip st" and "e \<in> set (tEmails (sDB st))" and "fileName e = lastFile st" and "lastFile st \<noteq> []"
    and "sFiles st (lastFile st) = Some f" and "length f < MaxFileSize" and "length b < MaxEmailSizeInFile"
    and "unat (sOffset st) + recordSize (recordOf gzip enc b) < 2 ^ 32" and "\<not> sBusy st"
  obtains db where "EditEmail gzip now e enc b st =
      (None, st\<lparr>sFiles := (sFiles st)(lastFile st := Some (killRecord (putRecord f (unat (sOffset st)) (recordOf gzip enc b)) (offsetOf e))),
               sDB := db, sOffset := of_nat (unat (sOffset st)) + of_nat (recordSize (recordOf gzip enc b))\<rparr>)"
    "dbOk db" "tMeta db = tMeta (sDB st)" "e\<lparr>fileOffset := int (unat (sOffset st))\<rparr> \<in> set (tEmails db)"
    "recordAt (killRecord (putRecord f (unat (sOffset st)) (recordOf gzip enc b)) (offsetOf e)) (unat (sOffset st)) = Some (recordOf gzip enc b)"
proof -
  let ?off = "unat (sOffset st)" and ?r = "recordOf gzip enc b" and ?p = "nat (fileOffset e)"
  let ?f = "killRecord (putRecord f ?off ?r) ?p"
  obtain ix where ix: "storeIx gzip st ix" using assms(1) by (auto simp: storeOk_def)
  obtain s where s: "(fileName e, ?p, s) \<in> ix" using storeIx_row [OF ix assms(2)] by blast
  have old: "recordAt f ?p = Some s" using ix s assms(3,5) unfolding storeIx_def rf.indexed_def by fastforce
  have before: "?p + recordSize s \<le> ?off" using ix s recordsOkD unfolding storeIx_def by blast
  have put: "recordAt (putRecord f ?off ?r) ?p = Some s" "recordAt (putRecord f ?off ?r) ?off = Some ?r"
    using rf.rec_put_before [OF old before] rf.rec_put [OF recordFits_bound [OF assms(8)]] by simp_all
  have off: "offsetOf e = ?p" using storeIx_offset [OF ix assms(2)] .
  have rec: "recordAt ?f ?off = Some ?r" using rf.rec_kill_other [OF put(2,1)] before by blast
  have del: "DeleteEmailAt (putRecord f ?off ?r) (offsetOf e) = Inr ?f" using DeleteEmailAt_record [OF put(1)] off by simp
  have ok: "dbOk (sDB st)" using ix by (simp add: storeIx_def)
  obtain db where upd: "UpdateOffset (int ?off) (eID e) (sDB st) = Inr db" and row: "e\<lparr>fileOffset := int ?off\<rparr> \<in> set (tEmails db)"
    using UpdateOffset_fresh [OF ok, of "int ?off" "eID e"] storeIx_before [OF ix] assms(2) by force
  have "tMeta db = tMeta (sDB st)" using upd by (auto simp: UpdateOffset_def Let_def split: if_splits)
  moreover have "EditEmail gzip now e enc b st =
      (None, st\<lparr>sFiles := (sFiles st)(lastFile st := Some (killRecord (putRecord f ?off ?r) (offsetOf e))),
               sDB := db, sOffset := of_nat ?off + of_nat (recordSize ?r)\<rparr>)"
    unfolding EditEmail_opened [OF assms(7,4,5,6)] using assms(9) by (simp only: Let_def del [unfolded off] onDB_def if_False upd sum.case off)
  ultimately show thesis using that dbOk_UpdateOffset [OF ok upd] row rec unfolding off by blast
qed

text \<open>editing a mail of the last file, while it has room, succeeds and gives the mail its new
  content.\<close>

theorem edit_same_file:
  assumes "storeOk gzip st" and "e \<in> set (tEmails (sDB st))" and "fileName e = lastFile st" and "lastFile st \<noteq> []"
    and "sFiles st (lastFile st) = Some f" and "length f < MaxFileSize" and "length b < MaxEmailSizeInFile"
    and "unat (sOffset st) + recordSize (recordOf gzip enc b) < 2 ^ 32" and "\<not> sBusy st" and "gunzip (gzip b) = Some b"
  shows "\<exists>st' h. EditEmail gzip now e enc b st = (None, st') \<and> Read gunzip (eID e) st' = Inr (Some (b, h))"
proof -
  let ?off = "unat (sOffset st)" and ?e = "e\<lparr>fileOffset := int (unat (sOffset st))\<rparr>"
  obtain db f' where edit: "fst (EditEmail gzip now e enc b st) = None" "sDB (snd (EditEmail gzip now e enc b st)) = db"
      "sFiles (snd (EditEmail gzip now e enc b st)) (lastFile st) = Some f'"
    and db: "dbOk db" "?e \<in> set (tEmails db)" "recordAt f' ?off = Some (recordOf gzip enc b)"
    by (rule EditEmail_last [OF assms(1-9), of now]) simp
  let ?st = "snd (EditEmail gzip now e enc b st)"
  have "Read gunzip (eID e) ?st = ReadEmail gunzip ?st ?e"
    using GetEmail_row [OF db(1,2)] edit(2) by (simp add: Read_def)
  moreover have "ReadEmail gunzip ?st ?e = Inr (Some (b, fst (recordOf gzip enc b)))"
    using ReadEmail_record [of ?st ?e f' "recordOf gzip enc b" gunzip] edit(3) db(3) assms(3) contentOf_recordOf [of gunzip gzip b enc] assms(10)
    by (simp add: offsetOf_def)
  ultimately show ?thesis using edit(1) by (metis prod.collapse)
qed

theorem edit_same_file_witness:
  "\<exists>st' h. EditEmail (\<lambda>b. b) ''2'' (demoRow\<lparr>eID := 1\<rparr>) False [66] demoStore = (None, st') \<and>
     Read Some (eID (demoRow\<lparr>eID := 1\<rparr>)) st' = Inr (Some ([66], h))"
proof (rule edit_same_file [where f = "[0, 0, 0, 0, 1, 65]"])
  show "storeOk (\<lambda>b. b) demoStore" by (rule storeOk_demoStore)
qed (simp_all add: demoStore_files demoStore_emails demoRow_def MaxFileSize_def MaxEmailSizeInFile_def recordSize_def
    recordOf_def CompressEmailBiggerThan_def)

section \<open>Restarting\<close>

lemma UNIQUE_place:
  "e \<in> set (tEmails db) \<Longrightarrow> NewEmail (row\<lparr>fileName := fileName e, fileOffset := fileOffset e\<rparr>) db = Inl ErrUnique"
  by (force simp: NewEmail_def Let_def)

text \<open>saving and restarting changes nothing: a process that ends as it should leaves a store
  whose next process has the same cache, files and mails.\<close>

theorem save_restart:
  "\<not> sBusy st \<Longrightarrow> restart (Save st) = Save st"
  by (simp add: restart_def Save_def Sync_def SetMeta_def)

text \<open>What is written where a mail already is: it replaces the content of that mail, and cannot be
  recorded.\<close>

lemma storeOk_dbOk: "storeOk gzip st \<Longrightarrow> dbOk (sDB st)"
  by (auto simp: storeOk_def storeIx_def)

lemma storeOk_offset:
  assumes "storeOk gzip st" and "e \<in> set (tEmails (sDB st))"
  shows "fileOffset e = int (offsetOf e)"
proof -
  obtain ix where ix: "storeIx gzip st ix" using assms(1) by (auto simp: storeOk_def)
  then have "0 \<le> fileOffset e" using assms(2) unfolding storeIx_def by blast
  then show ?thesis using storeIx_offset [OF ix assms(2)] by simp
qed

lemma stale_place:
  assumes "fileOffset e = int (offsetOf e)" and "e \<in> set (tEmails (sDB st))" and "fileName e \<noteq> []" and "sFiles st (fileName e) = Some f"
    and "length f < MaxFileSize" and "length b < MaxEmailSizeInFile"
  shows "OpenFile (sFiles st) now (fileName e) (offsetOf e) b =
      Inr ((fileName e, offsetOf e), (fileName e, offsetOf e), sFiles st)"
    and "NewEmail (row\<lparr>fileName := fileName e, fileOffset := int (offsetOf e)\<rparr>) (sDB st) = Inl ErrUnique"
proof -
  show "NewEmail (row\<lparr>fileName := fileName e, fileOffset := int (offsetOf e)\<rparr>) (sDB st) = Inl ErrUnique"
    using UNIQUE_place [OF assms(2), of row] unfolding assms(1) .
qed (use assms(3-6) in \<open>simp add: OpenFile_def Let_def\<close>)

lemma stale_read:
  assumes "dbOk (sDB st)" and "e \<in> set (tEmails (sDB st))" and "gunzip (gzip b) = Some b" and "recordFits (recordOf gzip enc b)"
    and "sDB st' = sDB st" and "sFiles st' (fileName e) = Some (putRecord f (offsetOf e) (recordOf gzip enc b))"
  shows "\<exists>h. Read gunzip (eID e) st' = Inr (Some (b, h))"
proof -
  let ?r = "recordOf gzip enc b"
  have "Read gunzip (eID e) st' = ReadEmail gunzip st' e" using GetEmail_row [OF assms(1,2)] assms(5) by (simp add: Read_def)
  moreover have "recordAt (putRecord f (offsetOf e) ?r) (offsetOf e) = Some ?r" using rf.rec_put [OF assms(4)] .
  ultimately show ?thesis
    using ReadEmail_record [OF assms(6)] contentOf_recordOf [of gunzip gzip b enc] assms(3) by auto
qed

text \<open>A delivery by a process whose cache is that of before a mail was put where it points to.\<close>

lemma stale_delivery:
  assumes "dbOk (sDB st)" and "e \<in> set (tEmails (sDB st))" and "fileOffset e = int (offsetOf e)"
    and "lastFile st = fileName e" and "unat (sOffset st) = offsetOf e"
    and "fileName e \<noteq> []" and "sFiles st (fileName e) = Some f" and "length f < MaxFileSize"
    and "length b < MaxEmailSizeInFile" and "gunzip (gzip b) = Some b" and "recordFits (recordOf gzip enc b)" and "\<not> sBusy st"
  shows "\<exists>st' h. StoreEmail gzip now row b enc callback st = (Inl (DBErr ErrUnique), st') \<and> Read gunzip (eID e) st' = Inr (Some (b, h))"
proof -
  let ?st = "st\<lparr>sFiles := (sFiles st)(fileName e \<mapsto> putRecord f (offsetOf e) (recordOf gzip enc b)), sBusy := True\<rparr>"
  note stale = stale_place [OF assms(3,2,6-9)]
  have op: "OpenFile (sFiles st) now (lastFile st) (unat (sOffset st)) b =
      Inr ((fileName e, offsetOf e), (fileName e, offsetOf e), sFiles st)"
    unfolding assms(4,5) by (rule stale(1))
  have "StoreEmail gzip now row b enc callback st = (Inl (DBErr ErrUnique), ?st)"
    unfolding StoreEmail_opened [OF op assms(7) refl] using assms(8,12) stale(2) by (simp add: onDB_def)
  moreover have "\<exists>h. Read gunzip (eID e) ?st = Inr (Some (b, h))"
    by (rule stale_read [where gunzip = gunzip, OF assms(1,2,10,11)]) simp_all
  ultimately show ?thesis by blast
qed

text \<open>after a crash the next delivery destroys a mail: when the cache that was saved last is
  that of before some mail of the last file was delivered, the new process writes the next mail
  over that one, fails to record it, and the old mail now reads as the new one.\<close>

theorem crash_overwrites:
  assumes "storeOk gzip st" and "e \<in> set (tEmails (sDB st))" and "tMeta (sDB st) = Some (fileName e, fileOffset e)"
    and "fileName e \<noteq> []" and "sFiles st (fileName e) = Some f" and "length f < MaxFileSize"
    and "length b < MaxEmailSizeInFile" and "gunzip (gzip b) = Some b" and "recordFits (recordOf gzip enc b)"
    and "StoreEmailInbox gzip now row b folder enc (restart st) = (res, st')"
  shows "res = Inl (DBErr ErrUnique) \<and> (\<exists>h. Read gunzip (eID e) st' = Inr (Some (b, h)))"
proof -
  have st: "restart st = st\<lparr>lastFile := fileName e, sOffset := of_int (fileOffset e), sBusy := False\<rparr>"
    using assms(3) by (simp add: restart_def Sync_def)
  have "\<exists>st' h. StoreEmail gzip now row b enc (inboxCallback folder) (restart st) = (Inl (DBErr ErrUnique), st') \<and>
      Read gunzip (eID e) st' = Inr (Some (b, h))"
    by (rule stale_delivery [where gunzip = gunzip, OF _ _ storeOk_offset [OF assms(1,2)] _ _ assms(4) _ assms(6-9)])
      (use assms(2,5) storeOk_dbOk [OF assms(1)] in \<open>simp_all add: st offsetOf_def\<close>)
  then show ?thesis using assms(10) by (auto simp: StoreEmailInbox_def)
qed

text \<open>A store saved before its only mail came.\<close>

definition crashed1 :: mailStore where
  "crashed1 = demoStore\<lparr>sDB := SetMeta ''1'' 0 (sDB demoStore)\<rparr>"

lemma storeOk_SetMeta: "storeOk gzip st \<Longrightarrow> storeOk gzip (st\<lparr>sDB := SetMeta lf off (sDB st)\<rparr>)"
  using storeOk_db [of gzip st "SetMeta lf off (sDB st)"] dbOk_step [OF db_step.intros(4)]
  by (auto simp: storeOk_def storeIx_def SetMeta_def)

theorem crash_overwrites_witness:
  "\<exists>h. Read Some (eID (demoRow\<lparr>eID := 1\<rparr>)) (snd (StoreEmailInbox (\<lambda>b. b) ''2'' demoRow [66] [] False (restart crashed1))) =
     Inr (Some ([66], h))"
  using crash_overwrites [of "\<lambda>b. b" crashed1 "demoRow\<lparr>eID := 1\<rparr>" "[0, 0, 0, 0, 1, 65]" "[66]" Some False "''2''" demoRow "[]",
      OF _ _ _ _ _ _ _ _ _ prod.collapse [symmetric]]
    storeOk_SetMeta [OF storeOk_demoStore, of "''1''" 0]
  by (simp add: crashed1_def SetMeta_def demoStore_emails demoStore_files demoRow_def MaxFileSize_def MaxEmailSizeInFile_def
      recordFits_def recordOf_def CompressEmailBiggerThan_def)

end
