(* ===== verification/Store_Mailbox.thy ===== *)
theory Store_Mailbox
  imports Store_Mail Utils_Slices
begin

text \<open>
  Mailboxes and flags of a user: \<open>src/storage/mailbox.go\<close>, \<open>src/storage/flags.go\<close> and
  \<open>src/storage/mailbox_attributes.go\<close>.

  Every operation is a function of the store of the user, with its result and the store it
  leaves, also after an error. \<open>execTx\<close> runs its queries in a transaction: an error leaves the
  database as it was. A set of numbers of the IMAP library is what the code asks of it: whether
  it is dynamic (it has a \<open>*\<close>), its numbers when it is not, and what it contains.
\<close>

section \<open>Sets of numbers\<close>

record numbers =
  Dynamic :: bool
  Nums :: "u32 list"
  Contains :: "u32 \<Rightarrow> bool"

datatype NumSet = SeqSet numbers | UIDSet numbers

fun numbersOf :: "NumSet \<Rightarrow> numbers" where
  "numbersOf (SeqSet v) = v"
| "numbersOf (UIDSet v) = v"

datatype boxError = BoxStore storeError | DynamicSet | NilCount

text \<open>A loop of queries in a transaction, that stops at the first error. \<open>execTx\<close> of the sources never rolls
  back: a transaction that failed stays open and keeps the lock (\<open>sBusy\<close>). A transaction without
  queries asks for no lock.\<close>

fun execTx :: "('a \<Rightarrow> DB \<Rightarrow> dbError + DB) \<Rightarrow> 'a list \<Rightarrow> DB \<Rightarrow> dbError + DB" where
  "execTx query [] db = Inr db"
| "execTx query (x # xs) db = (case query x db of Inl err \<Rightarrow> Inl err | Inr db' \<Rightarrow> execTx query xs db')"

definition inTx :: "('a \<Rightarrow> DB \<Rightarrow> dbError + DB) \<Rightarrow> 'a list \<Rightarrow> mailStore \<Rightarrow> dbError option \<times> mailStore" where
  "inTx query xs st =
     (if xs = [] then (None, st)
      else case onDB (execTx query xs) st of
             Inl err \<Rightarrow> (Some err, st\<lparr>sBusy := True\<rparr>)
           | Inr db \<Rightarrow> (None, st\<lparr>sDB := db\<rparr>))"

section \<open>Mailboxes\<close>

definition LoadMailbox :: "mailStore \<Rightarrow> (int \<times> string \<times> nat) list" where
  "LoadMailbox st = ListMailboxRows (sDB st)"

record SelectData =
  sdFlags :: "string list"
  sdPermanentFlags :: "string list"
  sdNumMessages :: u32
  sdUIDNext :: u32
  sdUIDValidity :: u32

definition uidNext :: "DB \<Rightarrow> int \<Rightarrow> u32" where
  "uidNext db box = (case GetLatestMailboxEmails db box 1 0 of [] \<Rightarrow> 1 | e # _ \<Rightarrow> of_int (eID e + 1))"

definition DescribeMailbox :: "string \<Rightarrow> mailStore \<Rightarrow> (dbError + SelectData) \<times> mailStore" where
  "DescribeMailbox name st =
     (case onDB (GetOrCreateMailbox name) st of
        Inl err \<Rightarrow> (Inl err, st)
      | Inr (box, db) \<Rightarrow>
          (Inr \<lparr>sdFlags = map fst (filter (\<lambda>(n, user). \<not> user) (ListMailboxFlags db (fst box))),
                sdPermanentFlags = map fst (filter (\<lambda>(n, user). user) (ListMailboxFlags db (fst box))),
                sdNumMessages = of_nat (CountMailboxEmails db (fst box)),
                sdUIDNext = uidNext db (fst box),
                sdUIDValidity = of_int (fst box)\<rparr>,
           st\<lparr>sDB := db\<rparr>))"

definition CreateMailbox :: "string \<Rightarrow> mailStore \<Rightarrow> (dbError + int) \<times> mailStore" where
  "CreateMailbox name st =
     (case onDB (NewMailbox name) st of Inl err \<Rightarrow> (Inl err, st) | Inr (i, db) \<Rightarrow> (Inr i, st\<lparr>sDB := db\<rparr>))"

definition DeleteMailbox :: "int \<Rightarrow> mailStore \<Rightarrow> dbError option \<times> mailStore" where
  "DeleteMailbox i = inTx (\<lambda>query db. Inr (query db)) [DeleteMailboxRow i, CleanEmails]"

definition RenameMailbox :: "int \<Rightarrow> string \<Rightarrow> mailStore \<Rightarrow> dbError option \<times> mailStore" where
  "RenameMailbox i name st =
     (case onDB (RenameMailboxRow name i) st of Inl err \<Rightarrow> (Some err, st) | Inr db \<Rightarrow> (None, st\<lparr>sDB := db\<rparr>))"

record StatusOptions =
  optNumMessages :: bool
  optUIDValidity :: bool
  optNumDeleted :: bool
  optNumRecent :: bool
  optNumUnseen :: bool
  optUIDNext :: bool

record StatusData =
  stMailbox :: string
  stNumMessages :: "u32 option"
  stUIDValidity :: u32
  stNumRecent :: "u32 option"
  stNumUnseen :: "u32 option"
  stUIDNext :: u32

definition DeletedFlag :: int where
  "DeletedFlag = 4"

definition SeenFlag :: int where
  "SeenFlag = 1"

text \<open>\<open>StatusMailbox\<close> after its mailbox is found; \<open>*status.NumMessages\<close> is a nil dereference
  unless the client asked for it.\<close>

definition statusOf :: "DB \<Rightarrow> int \<Rightarrow> string \<Rightarrow> StatusOptions \<Rightarrow> boxError + StatusData" where
  "statusOf db box name opt =
     (let num = (if optNumMessages opt then Some (of_nat (CountMailboxEmails db box)) else None);
          deleted = of_nat (CountEmailsWithFlagInMailbox db DeletedFlag box);
          seen = of_nat (CountEmailsWithFlagInMailbox db SeenFlag box)
      in if optNumDeleted opt \<and> num = None then Inl NilCount
         else
           let num' = (if optNumDeleted opt then Some (the num - deleted) else num) in
           if optNumUnseen opt \<and> num' = None then Inl NilCount
           else Inr \<lparr>stMailbox = name, stNumMessages = num',
                  stUIDValidity = (if optUIDValidity opt then of_int box else 0),
                  stNumRecent = (if optNumRecent opt then Some 0 else None),
                  stNumUnseen = (if optNumUnseen opt then Some (the num' - seen) else None),
                  stUIDNext = (if optUIDNext opt then uidNext db box else 0)\<rparr>)"

definition StatusMailbox :: "string \<Rightarrow> StatusOptions \<Rightarrow> mailStore \<Rightarrow> (boxError + StatusData) \<times> mailStore" where
  "StatusMailbox name opt st =
     (case onDB (GetOrCreateMailbox name) st of
        Inl err \<Rightarrow> (Inl (BoxStore (DBErr err)), st)
      | Inr (box, db) \<Rightarrow> (statusOf db (fst box) name opt, st\<lparr>sDB := db\<rparr>))"

section \<open>Mails of a mailbox\<close>

definition ToSequence :: "int \<Rightarrow> int \<Rightarrow> mailStore \<Rightarrow> u32" where
  "ToSequence box i st = of_nat (GetSequence (sDB st) box i)"

definition FromSequence :: "int \<Rightarrow> u32 \<Rightarrow> mailStore \<Rightarrow> dbError + int" where
  "FromSequence box seq st = FromSequenceRow (sDB st) box (uint seq)"

fun collect :: "('e + 'a) list \<Rightarrow> 'e + 'a list" where
  "collect [] = Inr []"
| "collect (Inl e # xs) = Inl e"
| "collect (Inr x # xs) = (case collect xs of Inl e \<Rightarrow> Inl e | Inr ys \<Rightarrow> Inr (x # ys))"

text \<open>\<open>GetIds\<close>, which panics on a dynamic set and on a number that has no mail.\<close>

definition GetIds :: "int \<Rightarrow> NumSet \<Rightarrow> mailStore \<Rightarrow> boxError + int list" where
  "GetIds box S st =
     (if Dynamic (numbersOf S) then Inl DynamicSet
      else case S of
        SeqSet v \<Rightarrow>
          (case collect (Map (Nums v) (\<lambda>seq. FromSequence box seq st)) of
             Inl err \<Rightarrow> Inl (BoxStore (DBErr err))
           | Inr ids \<Rightarrow> Inr ids)
      | UIDSet v \<Rightarrow> Inr (Map (Nums v) (\<lambda>i. uint i)))"

definition ListMailboxEmails :: "int \<Rightarrow> NumSet option \<Rightarrow> mailStore \<Rightarrow> boxError + Email list" where
  "ListMailboxEmails box S st =
     (let emails = ListMailboxEmailsRows (sDB st) box in
      case S of
        None \<Rightarrow> Inr emails
      | Some T \<Rightarrow>
          if \<not> Dynamic (numbersOf T) then
            (case GetIds box T st of Inl err \<Rightarrow> Inl err | Inr ids \<Rightarrow> Inr (GetMailboxEmails (sDB st) box ids))
          else
            (case T of
               UIDSet v \<Rightarrow> Inr (filter (\<lambda>e. Contains v (of_int (eID e))) emails)
             | SeqSet v \<Rightarrow> Inr (filter (\<lambda>e. Contains v (ToSequence box (eID e) st)) emails)))"

definition AddMailboxEmails :: "int \<Rightarrow> int list \<Rightarrow> mailStore \<Rightarrow> dbError option \<times> mailStore" where
  "AddMailboxEmails box = inTx (AddMailboxEmail box)"

text \<open>\<open>deleteEmail\<close> on each of some mails, up to the first error.\<close>

fun deleteAll :: "Email list \<Rightarrow> mailStore \<Rightarrow> storeError option \<times> mailStore" where
  "deleteAll [] st = (None, st)"
| "deleteAll (e # es) st =
     (case deleteEmail e st of (Some err, st') \<Rightarrow> (Some err, st') | (None, st') \<Rightarrow> deleteAll es st')"

definition RemoveMailboxEmails :: "int \<Rightarrow> int list \<Rightarrow> mailStore \<Rightarrow> storeError option \<times> mailStore" where
  "RemoveMailboxEmails box ids st =
     (case inTx (\<lambda>i db. Inr (RemoveMailboxEmail box i db)) ids st of
        (Some err, st') \<Rightarrow> (Some (DBErr err), st')
      | (None, st') \<Rightarrow> deleteAll (ListEmailsNoMailbox (sDB st')) st')"

section \<open>Flags\<close>

definition DeleteEmailsWithFlag :: "int \<Rightarrow> mailStore \<Rightarrow> (storeError + Email list) \<times> mailStore" where
  "DeleteEmailsWithFlag flag st =
     (let emails = ListEmailsWithFlag (sDB st) flag in
      case deleteAll emails st of
        (Some err, st') \<Rightarrow> (Inl err, st')
      | (None, st') \<Rightarrow>
          (case onDB (\<lambda>db. Inr (RemoveEmailsWithFlag flag db)) st' of
             Inl err \<Rightarrow> (Inl (DBErr err), st')
           | Inr db \<Rightarrow> (Inr emails, st'\<lparr>sDB := db\<rparr>)))"

definition ListEmailFlags :: "int \<Rightarrow> mailStore \<Rightarrow> (int \<times> string) list" where
  "ListEmailFlags i st = ListEmailFlagRows (sDB st) i"

definition AddEmailFlag :: "int \<Rightarrow> int \<Rightarrow> mailStore \<Rightarrow> dbError option \<times> mailStore" where
  "AddEmailFlag i flag st =
     (case onDB (AddEmailFlagRow i flag) st of Inl err \<Rightarrow> (Some err, st) | Inr db \<Rightarrow> (None, st\<lparr>sDB := db\<rparr>))"

definition RemoveEmailAllFlags :: "int \<Rightarrow> mailStore \<Rightarrow> dbError option \<times> mailStore" where
  "RemoveEmailAllFlags i st =
     (case onDB (\<lambda>db. Inr (RemoveEmailFlagRows i db)) st of Inl err \<Rightarrow> (Some err, st) | Inr db \<Rightarrow> (None, st\<lparr>sDB := db\<rparr>))"

definition AddEmailFlags :: "int \<Rightarrow> string list \<Rightarrow> mailStore \<Rightarrow> dbError option \<times> mailStore" where
  "AddEmailFlags i = inTx (AddEmailFlagName i)"

definition RemoveEmailFlags :: "int \<Rightarrow> string list \<Rightarrow> mailStore \<Rightarrow> dbError option \<times> mailStore" where
  "RemoveEmailFlags i = inTx (\<lambda>name db. Inr (RemoveEmailFlagName i name db))"

section \<open>Attributes\<close>

datatype MailboxAttr = AttrHasChildren | AttrHasNoChildren | AttrJunk | AttrSent | AttrTrash | AttrSubscribed

definition SentMailbox :: int where
  "SentMailbox = 3"

definition TrashMailbox :: int where
  "TrashMailbox = 4"

definition GetMailboxAttributes :: "string \<Rightarrow> mailStore \<Rightarrow> (dbError + MailboxAttr list) \<times> mailStore" where
  "GetMailboxAttributes name st =
     (let children = [if HasMailboxChildren (sDB st) (name @ ''/%'') then AttrHasChildren else AttrHasNoChildren] in
      case onDB (GetOrCreateMailbox name) st of
        Inl err \<Rightarrow> (Inl err, st)
      | Inr (box, db) \<Rightarrow>
          (Inr (children @
             (if fst box = JunkMailbox then [AttrJunk]
              else if fst box = SentMailbox then [AttrSent]
              else if fst box = TrashMailbox then [AttrTrash] else [])),
           st\<lparr>sDB := db\<rparr>))"

section \<open>What the operations keep\<close>

lemma execTx_inv:
  assumes "\<And>x db db'. query x db = Inr db' \<Longrightarrow> P db \<Longrightarrow> P db'"
  shows "execTx query xs db = Inr db' \<Longrightarrow> P db \<Longrightarrow> P db'"
  by (induction xs arbitrary: db) (auto split: sum.splits intro: assms)

text \<open>A query that keeps the mails as they are, and the integrity of the database.\<close>

definition keepsMails :: "(DB \<Rightarrow> dbError + DB) \<Rightarrow> bool" where
  "keepsMails query \<longleftrightarrow> (\<forall>db db'. query db = Inr db' \<longrightarrow> dbOk db \<longrightarrow> dbOk db' \<and> tEmails db' = tEmails db)"

named_theorems keeps_mails \<open>queries that leave the mails as they are\<close>

lemma unchanged_emails [simp]:
  "tEmails (RemoveMailboxEmail box i db) = tEmails db" "tEmails (RemoveEmailFlagName i name db) = tEmails db"
  "tEmails (RemoveEmailFlagRows i db) = tEmails db"
  by (simp_all add: RemoveMailboxEmail_def RemoveEmailFlagName_def RemoveEmailFlagRows_def)

lemma RenameMailboxRow_emails: "RenameMailboxRow name i db = Inr db' \<Longrightarrow> tEmails db' = tEmails db"
  by (auto simp: RenameMailboxRow_def Let_def split: if_splits)

lemma keepsMails_db_step:
  "(\<And>db db'. query db = Inr db' \<Longrightarrow> db_step db db' \<and> tEmails db' = tEmails db) \<Longrightarrow> keepsMails query"
  unfolding keepsMails_def using dbOk_step by blast

lemma keepsMails_AddMailboxEmail [keeps_mails]: "keepsMails (AddMailboxEmail box i)"
  by (rule keepsMails_db_step) (auto intro: db_step.intros AddMailboxEmail_emails)

lemma keepsMails_RemoveMailboxEmail [keeps_mails]: "keepsMails (\<lambda>db. Inr (RemoveMailboxEmail box i db))"
  by (rule keepsMails_db_step) (auto intro: db_step.intros)

lemma keepsMails_AddEmailFlagRow [keeps_mails]: "keepsMails (AddEmailFlagRow i flag)"
  by (rule keepsMails_db_step) (auto intro: db_step.intros AddEmailFlagRow_emails)

lemma keepsMails_AddEmailFlagName [keeps_mails]: "keepsMails (AddEmailFlagName i name)"
  by (rule keepsMails_db_step)
    (auto intro: db_step.intros simp: AddEmailFlagName_def AddEmailFlagRow_emails split: option.splits)

lemma keepsMails_RemoveEmailFlagName [keeps_mails]: "keepsMails (\<lambda>db. Inr (RemoveEmailFlagName i name db))"
  by (rule keepsMails_db_step) (auto intro: db_step.intros)

lemma keepsMails_RemoveEmailFlagRows [keeps_mails]: "keepsMails (\<lambda>db. Inr (RemoveEmailFlagRows i db))"
  by (rule keepsMails_db_step) (auto intro: db_step.intros)

lemma keepsMails_RenameMailboxRow [keeps_mails]: "keepsMails (RenameMailboxRow name i)"
  by (rule keepsMails_db_step) (auto intro: db_step.intros RenameMailboxRow_emails)

lemma storeOk_keepsMails: "storeOk gzip st \<Longrightarrow> keepsMails query \<Longrightarrow> query (sDB st) = Inr db \<Longrightarrow> storeOk gzip (st\<lparr>sDB := db\<rparr>)"
  using storeOk_db [of gzip st db] unfolding keepsMails_def by (auto simp: storeOk_def storeIx_def)

lemma keepsMails_execTx: "(\<And>x. keepsMails (query x)) \<Longrightarrow> keepsMails (execTx query xs)"
proof -
  assume q: "\<And>x. keepsMails (query x)"
  have "dbOk db' \<and> tEmails db' = rows" if "execTx query xs db = Inr db'" "dbOk db \<and> tEmails db = rows" for db db' rows
    using execTx_inv [of query "\<lambda>db. dbOk db \<and> tEmails db = rows", OF _ that] q unfolding keepsMails_def by blast
  then show ?thesis unfolding keepsMails_def by blast
qed

lemma storeOk_inTx: "storeOk gzip st \<Longrightarrow> (\<And>x. keepsMails (query x)) \<Longrightarrow> storeOk gzip (snd (inTx query xs st))"
  using storeOk_keepsMails [OF _ keepsMails_execTx] by (fastforce simp: inTx_def onDB_def split: sum.splits if_splits)

text \<open>Rows that go while their records stay.\<close>

lemma storeIx_shrink:
  assumes ix: "storeIx gzip st ix" and db: "dbOk db" "set (tEmails db) \<subseteq> set (tEmails (sDB st))"
  shows "storeIx gzip (st\<lparr>sDB := db\<rparr>) {x \<in> ix. (\<lambda>(n, p, r). (n, p)) x \<in> placeOf ` set (tEmails db)}"
    (is "storeIx gzip ?st ?jx")
proof -
  have "(\<lambda>(n, p, r). (n, p)) ` ?jx = (\<lambda>(n, p, r). (n, p)) ` ix \<inter> placeOf ` set (tEmails db)" by blast
  also have "\<dots> = placeOf ` set (tEmails db)" using ix db(2) unfolding storeIx_def by blast
  finally have places: "(\<lambda>(n, p, r). (n, p)) ` ?jx = placeOf ` set (tEmails db)" .
  have sub: "?jx \<subseteq> ix" by blast
  have "rf.indexed (sFiles ?st) ?jx" "rf.disjoint ?jx"
    using ix rf.indexed_mono [OF _ sub] rf.disjoint_mono [OF _ sub] unfolding storeIx_def by simp_all
  moreover have "recordsOk gzip (unat (sOffset ?st)) ?jx" using ix unfolding storeIx_def recordsOk_def by auto
  moreover have "lastFile st = [] \<longrightarrow> tEmails db = []" using ix db(2) unfolding storeIx_def by auto
  ultimately show ?thesis using ix db places unfolding storeIx_def by (auto split: if_splits)
qed

lemma storeOk_shrink:
  "storeOk gzip st \<Longrightarrow> dbOk db \<Longrightarrow> set (tEmails db) \<subseteq> set (tEmails (sDB st)) \<Longrightarrow> storeOk gzip (st\<lparr>sDB := db\<rparr>)"
  unfolding storeOk_def using storeIx_shrink by blast

lemma storeOk_deleteEmails: "storeOk gzip st \<Longrightarrow> storeOk gzip (st\<lparr>sDB := deleteEmails P (sDB st)\<rparr>)"
  using storeOk_shrink dbOk_deleteEmails storeOk_dbOk by (fastforce simp: deleteEmails_def)

lemma DeleteMailbox_eq:
  "DeleteMailbox i st =
     (if sBusy st then (Some ErrBusy, st\<lparr>sBusy := True\<rparr>) else (None, st\<lparr>sDB := CleanEmails (DeleteMailboxRow i (sDB st))\<rparr>))"
  by (simp add: DeleteMailbox_def inTx_def onDB_def)

lemma storeOk_DeleteMailbox: "storeOk gzip st \<Longrightarrow> storeOk gzip (snd (DeleteMailbox i st))"
proof -
  assume ok: "storeOk gzip st"
  have "storeOk gzip (st\<lparr>sDB := DeleteMailboxRow i (sDB st)\<rparr>)"
    by (rule storeOk_db [OF ok dbOk_DeleteMailboxRow [OF storeOk_dbOk [OF ok]]]) (simp add: DeleteMailboxRow_def)
  from storeOk_deleteEmails [OF this] ok show ?thesis by (simp add: DeleteMailbox_eq CleanEmails_def)
qed

section \<open>Deleting several mails\<close>

lemma deleteEmails_none: "\<forall>e \<in> set (tEmails db). \<not> P e \<Longrightarrow> deleteEmails P db = db"
  by (simp add: deleteEmails_def filter_id_conv split_def)

lemma deleteEmails_cong:
  "\<forall>e \<in> set (tEmails db). P e \<longleftrightarrow> Q e \<Longrightarrow> deleteEmails P db = deleteEmails Q db"
  using filter_cong [of "tEmails db" "tEmails db" P Q] filter_cong [of "tEmails db" "tEmails db" "\<lambda>e. \<not> P e" "\<lambda>e. \<not> Q e"]
  by (simp add: deleteEmails_def)

lemma deleteEmails_deleteEmails:
  "deleteEmails Q (deleteEmails P db) = deleteEmails (\<lambda>e. P e \<or> Q e) db"
proof -
  have "eID ` {x \<in> set (tEmails db). P x \<or> Q x} = eID ` {x \<in> set (tEmails db). P x} \<union> eID ` {x \<in> set (tEmails db). \<not> P x \<and> Q x}"
    by blast
  then show ?thesis
    by (simp add: deleteEmails_def Let_def split_def conj_commute)
qed

lemma deleteAll_busy: "sBusy st \<Longrightarrow> deleteAll es st = (if es = [] then None else Some (DBErr ErrBusy), st)"
  by (cases es) (simp_all add: deleteEmail_def)

lemma deleteAll_outcome:
  assumes "storeIx gzip st ix" "set es \<subseteq> set (tEmails (sDB st))" "distinct es" "\<not> sBusy st"
  shows "\<exists>st' jx. deleteAll es st = (None, st') \<and> \<not> sBusy st' \<and> storeIx gzip st' jx \<and> jx \<subseteq> ix \<and>
    sDB st' = deleteEmails (\<lambda>e. e \<in> set es) (sDB st)"
  using assms
proof (induction es arbitrary: st ix)
  case Nil
  then show ?case by (auto simp: deleteEmails_none)
next
  case (Cons e es)
  have e: "e \<in> set (tEmails (sDB st))" using Cons.prems by simp
  obtain r where r: "(fileName e, nat (fileOffset e), r) \<in> ix" using storeIx_row [OF Cons.prems(1) e] by blast
  obtain st1 where st1: "deleteEmail e st = (None, st1)" "sDB st1 = DeleteEmailRow (eID e) (sDB st)" "\<not> sBusy st1"
    and ix1: "storeIx gzip st1 (ix - {(fileName e, nat (fileOffset e), r)})"
    using deleteEmail_outcome [OF Cons.prems(1) e r Cons.prems(4)] by blast
  have inj: "eID x = eID e \<longleftrightarrow> x = e" if "x \<in> set (tEmails (sDB st))" for x
    using dbOk_eID [OF _ that e] Cons.prems(1) unfolding storeIx_def by blast
  have "set es \<subseteq> set (tEmails (sDB st1))"
    using Cons.prems inj unfolding st1(2) DeleteEmailRow_def deleteEmails_def by auto
  then obtain st' jx where st': "deleteAll es st1 = (None, st')" "storeIx gzip st' jx" "jx \<subseteq> ix"
    "sDB st' = deleteEmails (\<lambda>e. e \<in> set es) (sDB st1)" "\<not> sBusy st'"
    using Cons.IH [OF ix1] Cons.prems(3) st1(3) by auto
  have "sDB st' = deleteEmails (\<lambda>x. x \<in> set (e # es)) (sDB st)"
    unfolding st'(4) st1(2) DeleteEmailRow_def deleteEmails_deleteEmails using inj by (intro deleteEmails_cong) auto
  then show ?case using st1(1) st' by auto
qed

lemma deleteEmails_gone:
  "(\<And>e. e \<in> set (tEmails db) \<Longrightarrow> P e \<longleftrightarrow> (eID e, f) \<in> set (tEmailsFlags db)) \<Longrightarrow>
   RemoveEmailsWithFlag f (deleteEmails P db) = deleteEmails P db"
  unfolding RemoveEmailsWithFlag_def by (rule deleteEmails_none) (auto simp: deleteEmails_def)

lemma DeleteEmailsWithFlag_outcome:
  assumes "storeOk gzip st" and "\<not> sBusy st"
  shows "\<exists>st'. DeleteEmailsWithFlag flag st = (Inr (ListEmailsWithFlag (sDB st) flag), st') \<and>
    set (tEmails (sDB st')) = {e \<in> set (tEmails (sDB st)). (eID e, flag) \<notin> set (tEmailsFlags (sDB st))}"
proof -
  obtain ix where ix: "storeIx gzip st ix" using assms by (auto simp: storeOk_def)
  let ?es = "ListEmailsWithFlag (sDB st) flag"
  have "distinct ?es" "set ?es \<subseteq> set (tEmails (sDB st))"
    using ix by (auto simp: ListEmailsWithFlag_def storeIx_def dbOk_def emailRowsOk_def distinct_map)
  then obtain st' where st': "deleteAll ?es st = (None, st')" "sDB st' = deleteEmails (\<lambda>e. e \<in> set ?es) (sDB st)" "\<not> sBusy st'"
    using deleteAll_outcome [OF ix] assms(2) by blast
  have "RemoveEmailsWithFlag flag (sDB st') = sDB st'"
    unfolding st'(2) by (rule deleteEmails_gone) (simp add: ListEmailsWithFlag_def)
  moreover have "set (tEmails (sDB st')) = {e \<in> set (tEmails (sDB st)). (eID e, flag) \<notin> set (tEmailsFlags (sDB st))}"
    unfolding st'(2) by (auto simp: deleteEmails_def ListEmailsWithFlag_def)
  ultimately show ?thesis using st'(1,3) by (simp add: DeleteEmailsWithFlag_def onDB_def)
qed

section \<open>The store at work\<close>

text \<open>What the servers do to the store of a user: deliveries and deletions, and the operations on
  mailboxes and flags.\<close>

inductive box_step :: "(bytes \<Rightarrow> bytes) \<Rightarrow> mailStore \<Rightarrow> mailStore \<Rightarrow> bool" for gzip where
  mail: "mail_step gzip st st' \<Longrightarrow> box_step gzip st st'"
| save: "box_step gzip st (Save st)"
| describe: "box_step gzip st (snd (DescribeMailbox name st))"
| status: "box_step gzip st (snd (StatusMailbox name opt st))"
| attributes: "box_step gzip st (snd (GetMailboxAttributes name st))"
| creation: "box_step gzip st (snd (CreateMailbox name st))"
| mailboxDeletion: "box_step gzip st (snd (DeleteMailbox i st))"
| renaming: "box_step gzip st (snd (RenameMailbox i name st))"
| copying: "box_step gzip st (snd (AddMailboxEmails box ids st))"
| removal: "box_step gzip st (snd (RemoveMailboxEmails box ids st))"
| expunge: "box_step gzip st (snd (DeleteEmailsWithFlag flag st))"
| flagAdded: "box_step gzip st (snd (AddEmailFlag i flag st))"
| flagsCleared: "box_step gzip st (snd (RemoveEmailAllFlags i st))"
| flagsAdded: "box_step gzip st (snd (AddEmailFlags i names st))"
| flagsRemoved: "box_step gzip st (snd (RemoveEmailFlags i names st))"

lemma storeOk_GetOrCreateMailbox:
  "storeOk gzip st \<Longrightarrow> onDB (GetOrCreateMailbox name) st = Inr (box, db) \<Longrightarrow> storeOk gzip (st\<lparr>sDB := db\<rparr>)"
  using storeOk_db dbOk_GetOrCreateMailbox GetOrCreateMailbox_emails storeOk_dbOk unfolding onDB_def
  by (metis Inl_Inr_False)

lemma ListEmailsNoMailbox_rows: "dbOk db \<Longrightarrow> distinct (ListEmailsNoMailbox db) \<and> set (ListEmailsNoMailbox db) \<subseteq> set (tEmails db)"
  by (auto simp: ListEmailsNoMailbox_def dbOk_def emailRowsOk_def distinct_map)

lemma ListEmailsWithFlag_rows: "dbOk db \<Longrightarrow> distinct (ListEmailsWithFlag db f) \<and> set (ListEmailsWithFlag db f) \<subseteq> set (tEmails db)"
  by (auto simp: ListEmailsWithFlag_def dbOk_def emailRowsOk_def distinct_map)

lemma storeOk_deleteAll:
  assumes "storeOk gzip st" "distinct es \<and> set es \<subseteq> set (tEmails (sDB st))"
  shows "storeOk gzip (snd (deleteAll es st))"
proof (cases "sBusy st")
  case False
  then show ?thesis using deleteAll_outcome [of gzip st _ es] assms unfolding storeOk_def by fastforce
qed (use assms in \<open>simp add: deleteAll_busy\<close>)

lemma storeOk_CreateMailbox: "storeOk gzip st \<Longrightarrow> storeOk gzip (snd (CreateMailbox name st))"
proof (cases "onDB (NewMailbox name) st")
  case (Inr x)
  obtain i db where new: "NewMailbox name (sDB st) = Inr (i, db)" "onDB (NewMailbox name) st = Inr (i, db)"
    using Inr by (cases x) (auto simp: onDB_def split: if_splits)
  assume ok: "storeOk gzip st"
  have "dbOk db" using dbOk_step [OF db_step.intros(6) [OF new(1)]] storeOk_dbOk [OF ok] by blast
  moreover have "tEmails db = tEmails (sDB st)"
    using new(1) by (auto simp: NewMailbox_def insertMailbox_def Let_def split: if_splits)
  ultimately show ?thesis using storeOk_db [OF ok] new(2) by (simp add: CreateMailbox_def)
qed (simp add: CreateMailbox_def)

lemma storeOk_RemoveMailboxEmails: "storeOk gzip st \<Longrightarrow> storeOk gzip (snd (RemoveMailboxEmails box ids st))"
proof -
  let ?q = "\<lambda>i db. Inr (RemoveMailboxEmail box i db)"
  assume ok: "storeOk gzip st"
  obtain err st1 where tx: "inTx ?q ids st = (err, st1)" by (cases "inTx ?q ids st")
  have "storeOk gzip st1" using storeOk_inTx [OF ok, of ?q ids] tx by (simp add: keeps_mails)
  then show ?thesis
    using tx storeOk_deleteAll [of gzip st1 "ListEmailsNoMailbox (sDB st1)"] ListEmailsNoMailbox_rows storeOk_dbOk
    by (auto simp: RemoveMailboxEmails_def split: option.split)
qed

lemma storeOk_DeleteEmailsWithFlag: "storeOk gzip st \<Longrightarrow> storeOk gzip (snd (DeleteEmailsWithFlag flag st))"
proof -
  assume ok: "storeOk gzip st"
  obtain err st' where "deleteAll (ListEmailsWithFlag (sDB st) flag) st = (err, st')" "storeOk gzip st'"
    using storeOk_deleteAll [OF ok ListEmailsWithFlag_rows [OF storeOk_dbOk [OF ok]]] by (metis prod.collapse)
  then show ?thesis using storeOk_deleteEmails
    by (cases err) (auto simp: DeleteEmailsWithFlag_def RemoveEmailsWithFlag_def onDB_def Let_def)
qed

lemma storeOk_box_step: "box_step gzip st st' \<Longrightarrow> storeOk gzip st \<Longrightarrow> storeOk gzip st'"
proof (induction rule: box_step.induct)
  case (mail st st')
  then show ?case using msys.step_inv by blast
next
  case (save st)
  then show ?case using storeOk_SetMeta by (simp add: Save_def)
next
  case (describe st name)
  then show ?case using storeOk_GetOrCreateMailbox by (auto simp: DescribeMailbox_def split: sum.split)
next
  case (status st name opt)
  then show ?case using storeOk_GetOrCreateMailbox by (auto simp: StatusMailbox_def split: sum.split)
next
  case (attributes st name)
  then show ?case using storeOk_GetOrCreateMailbox by (auto simp: GetMailboxAttributes_def Let_def split: sum.split)
next
  case (renaming st i name)
  then show ?case using storeOk_keepsMails [OF _ keepsMails_RenameMailboxRow] by (auto simp: RenameMailbox_def onDB_def split: sum.split)
next
  case (removal st box ids)
  then show ?case using storeOk_RemoveMailboxEmails [of gzip st box ids] by auto
next
  case (flagAdded st i flag)
  then show ?case using storeOk_keepsMails [OF _ keepsMails_AddEmailFlagRow] by (auto simp: AddEmailFlag_def onDB_def split: sum.split)
next
  case (flagsCleared st i)
  then show ?case using storeOk_keepsMails [OF _ keepsMails_RemoveEmailFlagRows] by (auto simp: RemoveEmailAllFlags_def onDB_def)
qed (auto simp: storeOk_CreateMailbox storeOk_DeleteMailbox storeOk_DeleteEmailsWithFlag AddMailboxEmails_def AddEmailFlags_def
    RemoveEmailFlags_def storeOk_inTx keeps_mails)

interpretation bsys: transition_system "\<lambda>st. st = emptyStore" "box_step gzip" "storeOk gzip" for gzip
proof
  show "storeOk gzip s" if "s = emptyStore" for s using that storeOk_emptyStore by simp
  show "storeOk gzip s'" if "storeOk gzip s" "box_step gzip s s'" for s s' using that storeOk_box_step by blast
qed

section \<open>The content of the mails\<close>

text \<open>What a step does to the mails that are there: those that stay read the same. The offset of
  the cache never falls and a new mail is recorded at it, so that a row below it is not a new one.\<close>

definition keepsContent :: "(bytes \<Rightarrow> bytes option) \<Rightarrow> mailStore \<Rightarrow> mailStore \<Rightarrow> bool" where
  "keepsContent gunzip st st' \<longleftrightarrow> sOffset st \<le> sOffset st' \<and>
     (\<forall>e \<in> set (tEmails (sDB st')). fileOffset e < uint (sOffset st) \<longrightarrow>
        e \<in> set (tEmails (sDB st)) \<and> Read gunzip (eID e) st' = Read gunzip (eID e) st)"

lemma keepsContent_refl [simp]: "keepsContent gunzip st st"
  by (simp add: keepsContent_def)

lemma keepsContent_trans:
  assumes "keepsContent gunzip st st1" and "keepsContent gunzip st1 st2"
  shows "keepsContent gunzip st st2"
proof -
  have "uint (sOffset st) \<le> uint (sOffset st1)" using assms(1) by (simp add: keepsContent_def word_le_def)
  then show ?thesis using assms unfolding keepsContent_def by (auto intro: order_trans)
qed

lemma storeIx_below:
  assumes "storeIx gzip st ix" and "e \<in> set (tEmails (sDB st))"
  shows "fileOffset e < uint (sOffset st)"
proof -
  obtain r where r: "(fileName e, nat (fileOffset e), r) \<in> ix" using storeIx_row [OF assms] by blast
  then have "nat (fileOffset e) + recordSize r \<le> unat (sOffset st)"
    using assms(1) recordsOkD unfolding storeIx_def by blast
  then have "nat (fileOffset e) < unat (sOffset st)" by (simp add: recordSize_def)
  then have "fileOffset e < int (unat (sOffset st))" by linarith
  then show ?thesis by simp
qed

text \<open>A mail that is there before and after reads the same.\<close>

lemma keepsContent_Read:
  assumes "keepsContent gunzip st st'" and "storeOk gzip st" and "e \<in> set (tEmails (sDB st))" and "e \<in> set (tEmails (sDB st'))"
  shows "Read gunzip (eID e) st' = Read gunzip (eID e) st"
proof -
  obtain ix where "storeIx gzip st ix" using assms(2) by (auto simp: storeOk_def)
  from storeIx_below [OF this assms(3)] show ?thesis using assms(1,4) by (simp add: keepsContent_def)
qed

lemma keepsContent_db:
  assumes "dbOk (sDB st)" and "dbOk (sDB st')" and "sFiles st' = sFiles st" and "sOffset st' = sOffset st"
    and "set (tEmails (sDB st')) \<subseteq> set (tEmails (sDB st))"
  shows "keepsContent gunzip st st'"
proof -
  have "Read gunzip (eID e) st' = Read gunzip (eID e) st" if "e \<in> set (tEmails (sDB st'))" for e
    using GetEmail_row [OF assms(2) that] GetEmail_row [OF assms(1), of e] assms(5) that
    by (auto simp: Read_def ReadEmail_def openEmailFile_def assms(3))
  then show ?thesis using assms(4,5) by (auto simp: keepsContent_def)
qed

lemma keepsContent_ix:
  assumes "storeIx gzip st ix" and "storeIx gzip st' jx" and "jx \<subseteq> ix" and "sOffset st' = sOffset st"
    and "set (tEmails (sDB st')) \<subseteq> set (tEmails (sDB st))"
  shows "keepsContent gunzip st st'"
  using Read_kept [OF assms(1,2) _ _ assms(3)] assms(4,5) by (auto simp: keepsContent_def)

lemma deleteEmail_offset: "sOffset (snd (deleteEmail e st)) = sOffset st"
  by (auto simp: deleteEmail_def DeleteContent_def openEmailFile_def Let_def split: sum.split option.split)

lemma deleteAll_offset: "sOffset (snd (deleteAll es st)) = sOffset st"
proof (induction es arbitrary: st)
  case (Cons e es)
  then show ?case using deleteEmail_offset [of e st] by (auto split: prod.split option.split)
qed simp

lemma keepsContent_deleteAll:
  assumes "storeOk gzip st" and "distinct es \<and> set es \<subseteq> set (tEmails (sDB st))"
  shows "keepsContent gunzip st (snd (deleteAll es st))"
proof (cases "sBusy st")
  case False
  obtain ix where ix: "storeIx gzip st ix" using assms(1) by (auto simp: storeOk_def)
  obtain st' jx where st': "deleteAll es st = (None, st')" "storeIx gzip st' jx" "jx \<subseteq> ix"
    "sDB st' = deleteEmails (\<lambda>e. e \<in> set es) (sDB st)"
    using deleteAll_outcome [OF ix] assms(2) False by blast
  have "sOffset st' = sOffset st" using deleteAll_offset [of es st] st'(1) by simp
  from keepsContent_ix [OF ix st'(2,3) this] show ?thesis using st'(1,4) by (auto simp: deleteEmails_def)
qed (simp add: deleteAll_busy)

lemma keepsContent_StoreEmail:
  assumes "storeOk gzip st" "length b < MaxEmailSizeInFile" "now \<noteq> []" "goodCallback callback"
    "unat (sOffset st) + recordSize (recordOf gzip enc b) < 2 ^ 32"
  shows "keepsContent gunzip st (snd (StoreEmail gzip now row b enc callback st))"
proof -
  obtain ix where ix: "storeIx gzip st ix" using assms(1) by (auto simp: storeOk_def)
  obtain res st' where run: "StoreEmail gzip now row b enc callback st = (res, st')" by fastforce
  from StoreEmail_outcome [OF ix assms(2-5) run] show ?thesis
  proof (elim disjE exE conjE)
    fix err assume "res = Inl err" "sDB st' = sDB st" "storeIx gzip st' ix"
    moreover from this have "sOffset st' = sOffset st"
      using run by (auto simp: StoreEmail_def Let_def split: sum.splits prod.splits)
    ultimately show ?thesis using keepsContent_ix [OF ix] run by simp
  next
    fix i p assume res: "res = Inr i" and ix': "storeIx gzip st' (insert (p, unat (sOffset st), recordOf gzip enc b) ix)"
      and rows: "tEmails (sDB st') = tEmails (sDB st) @ [row\<lparr>eID := i, fileName := p, fileOffset := int (unat (sOffset st))\<rparr>]"
    have "unat (sOffset st) \<le> unat (sOffset st')"
      using ix' recordsOkD [of gzip "unat (sOffset st')"] unfolding storeIx_def by (metis add_leD1 insertI1)
    moreover have "Read gunzip (eID e) st' = Read gunzip (eID e) st" if "e \<in> set (tEmails (sDB st))" for e
      using Read_kept [OF ix' ix _ that subset_insertI, of gunzip] rows that by simp
    ultimately show ?thesis using run rows by (auto simp: keepsContent_def word_le_nat_alt)
  qed
qed

lemma keepsContent_DeleteEmail:
  assumes "storeOk gzip st"
  shows "keepsContent gunzip st (snd (DeleteEmail i st))"
proof (cases "GetEmail (sDB st) i")
  case (Inr e)
  have "deleteAll [e] st = deleteEmail e st" by (simp split: prod.split option.split)
  then show ?thesis
    using keepsContent_deleteAll [OF assms, of "[e]" gunzip] GetEmail_Inr [OF Inr] by (simp add: DeleteEmail_def Inr)
qed (simp add: DeleteEmail_def)

lemma keepsContent_mail_step: "mail_step gzip st st' \<Longrightarrow> storeOk gzip st \<Longrightarrow> keepsContent gunzip st st'"
  by (induction rule: mail_step.induct)
    (simp_all add: StoreEmailInbox_def StoreSpam_def keepsContent_StoreEmail goodCallback_inbox goodCallback_spam
      goodCallback_AddMailboxEmail keepsContent_DeleteEmail)

text \<open>Steps that write to the database only, and add no mail.\<close>

definition onlyDB :: "mailStore \<Rightarrow> mailStore \<Rightarrow> bool" where
  "onlyDB st st' \<longleftrightarrow> sFiles st' = sFiles st \<and> sOffset st' = sOffset st \<and> set (tEmails (sDB st')) \<subseteq> set (tEmails (sDB st))"

lemma onlyDB_same [simp]: "onlyDB st st" "onlyDB st (st\<lparr>sBusy := x\<rparr>)"
  by (simp_all add: onlyDB_def)

lemma onlyDB_db [simp]: "onlyDB st (st\<lparr>sDB := db\<rparr>) \<longleftrightarrow> set (tEmails db) \<subseteq> set (tEmails (sDB st))"
  by (simp add: onlyDB_def)

lemma onlyDB_keepsMails: "dbOk (sDB st) \<Longrightarrow> keepsMails query \<Longrightarrow> onDB query st = Inr db \<Longrightarrow> onlyDB st (st\<lparr>sDB := db\<rparr>)"
  by (auto simp: keepsMails_def onDB_def split: if_splits)

lemma onlyDB_inTx: "dbOk (sDB st) \<Longrightarrow> (\<And>x. keepsMails (query x)) \<Longrightarrow> onlyDB st (snd (inTx query xs st))"
  using onlyDB_keepsMails [of st "execTx query xs"] keepsMails_execTx [of query xs] by (simp add: inTx_def del: onlyDB_db split: sum.split)

lemma onlyDB_GetOrCreateMailbox: "onDB (GetOrCreateMailbox name) st = Inr (box, db) \<Longrightarrow> onlyDB st (st\<lparr>sDB := db\<rparr>)"
  using GetOrCreateMailbox_emails by (fastforce simp: onDB_def split: if_splits)

lemma onlyDB_operations:
  assumes "dbOk (sDB st)"
  shows "onlyDB st (Save st)" "onlyDB st (snd (DescribeMailbox name st))" "onlyDB st (snd (StatusMailbox name opt st))"
    "onlyDB st (snd (GetMailboxAttributes name st))" "onlyDB st (snd (CreateMailbox name st))" "onlyDB st (snd (DeleteMailbox i st))"
    "onlyDB st (snd (RenameMailbox i name st))" "onlyDB st (snd (AddMailboxEmails i ids st))" "onlyDB st (snd (AddEmailFlag i flag st))"
    "onlyDB st (snd (RemoveEmailAllFlags i st))" "onlyDB st (snd (AddEmailFlags i names st))" "onlyDB st (snd (RemoveEmailFlags i names st))"
proof -
  show "onlyDB st (Save st)" by (simp add: Save_def SetMeta_def)
  show "onlyDB st (snd (DescribeMailbox name st))" "onlyDB st (snd (StatusMailbox name opt st))"
    "onlyDB st (snd (GetMailboxAttributes name st))"
    using onlyDB_GetOrCreateMailbox
    by (auto simp: DescribeMailbox_def StatusMailbox_def GetMailboxAttributes_def Let_def simp del: onlyDB_db split: sum.split)
  show "onlyDB st (snd (CreateMailbox name st))"
    by (auto simp: CreateMailbox_def onDB_def NewMailbox_def insertMailbox_def Let_def split: sum.splits if_splits)
  show "onlyDB st (snd (DeleteMailbox i st))"
    by (auto simp: DeleteMailbox_eq CleanEmails_def deleteEmails_def DeleteMailboxRow_def)
  show "onlyDB st (snd (RenameMailbox i name st))" "onlyDB st (snd (AddEmailFlag i flag st))" "onlyDB st (snd (RemoveEmailAllFlags i st))"
    by (auto simp: RenameMailbox_def AddEmailFlag_def RemoveEmailAllFlags_def simp del: onlyDB_db split: sum.split
        intro: onlyDB_keepsMails [OF assms] keeps_mails)
  show "onlyDB st (snd (AddMailboxEmails i ids st))" "onlyDB st (snd (AddEmailFlags i names st))" "onlyDB st (snd (RemoveEmailFlags i names st))"
    by (simp_all add: AddMailboxEmails_def AddEmailFlags_def RemoveEmailFlags_def onlyDB_inTx assms keeps_mails)
qed

lemma keepsContent_onlyDB: "storeOk gzip st \<Longrightarrow> storeOk gzip st' \<Longrightarrow> onlyDB st st' \<Longrightarrow> keepsContent gunzip st st'"
  unfolding onlyDB_def using keepsContent_db storeOk_dbOk by blast

lemma keepsContent_RemoveMailboxEmails:
  assumes "storeOk gzip st"
  shows "keepsContent gunzip st (snd (RemoveMailboxEmails box ids st))"
proof -
  let ?q = "\<lambda>i db. Inr (RemoveMailboxEmail box i db)"
  obtain err st1 where tx: "inTx ?q ids st = (err, st1)" by (cases "inTx ?q ids st")
  have ok1: "storeOk gzip st1" using storeOk_inTx [OF assms, of ?q ids] tx by (simp add: keeps_mails)
  have "onlyDB st st1" using onlyDB_inTx [OF storeOk_dbOk [OF assms], of ?q ids] tx by (simp add: keeps_mails)
  note 1 = keepsContent_onlyDB [OF assms ok1 this, of gunzip]
  show ?thesis
    using 1 keepsContent_trans [OF 1 keepsContent_deleteAll [OF ok1 ListEmailsNoMailbox_rows [OF storeOk_dbOk [OF ok1]]]] tx
    by (simp add: RemoveMailboxEmails_def split: option.split)
qed

lemma keepsContent_DeleteEmailsWithFlag:
  assumes "storeOk gzip st"
  shows "keepsContent gunzip st (snd (DeleteEmailsWithFlag flag st))"
proof -
  let ?es = "ListEmailsWithFlag (sDB st) flag"
  obtain err st1 where del: "deleteAll ?es st = (err, st1)" by fastforce
  note rows = ListEmailsWithFlag_rows [OF storeOk_dbOk [OF assms], of flag]
  have ok1: "storeOk gzip st1" using storeOk_deleteAll [OF assms rows] del by simp
  have 1: "keepsContent gunzip st st1" using keepsContent_deleteAll [OF assms rows] del by (metis snd_conv)
  have "keepsContent gunzip st1 (st1\<lparr>sDB := RemoveEmailsWithFlag flag (sDB st1)\<rparr>)"
    using keepsContent_onlyDB [OF ok1 storeOk_deleteEmails [OF ok1]] by (auto simp: RemoveEmailsWithFlag_def deleteEmails_def)
  then show ?thesis
    using 1 keepsContent_trans [OF 1] del by (auto simp: DeleteEmailsWithFlag_def onDB_def split: option.split)
qed

text \<open>No operation changes the content of a mail that stays.\<close>

lemma keepsContent_box_step: "box_step gzip st st' \<Longrightarrow> storeOk gzip st \<Longrightarrow> keepsContent gunzip st st'"
proof (frule (1) storeOk_box_step)
  assume step: "box_step gzip st st'" and ok: "storeOk gzip st" "storeOk gzip st'"
  note db = onlyDB_operations [OF storeOk_dbOk [OF ok(1)]]
  have "onlyDB st st' \<or> mail_step gzip st st' \<or> (\<exists>box ids. st' = snd (RemoveMailboxEmails box ids st)) \<or>
      (\<exists>flag. st' = snd (DeleteEmailsWithFlag flag st))"
    using step by (cases rule: box_step.cases) (auto simp: db)
  then show ?thesis
    using ok keepsContent_onlyDB keepsContent_mail_step keepsContent_RemoveMailboxEmails keepsContent_DeleteEmailsWithFlag by blast
qed

lemma keepsContent_box_steps:
  assumes "(box_step gzip)\<^sup>*\<^sup>* st st'" and "storeOk gzip st"
  shows "keepsContent gunzip st st' \<and> storeOk gzip st'"
  using assms
proof (induction rule: rtranclp_induct)
  case (step st1 st2)
  then show ?case using storeOk_box_step keepsContent_box_step keepsContent_trans by blast
qed simp

lemma execTx_AddMailboxEmail:
  "execTx (AddMailboxEmail box) ids db = Inr db' \<Longrightarrow>
   db' = db\<lparr>tMailboxEmails := tMailboxEmails db @ map (Pair box) ids\<rparr>"
proof (induction ids arbitrary: db)
  case (Cons i ids)
  then obtain db1 where 1: "AddMailboxEmail box i db = Inr db1" "execTx (AddMailboxEmail box) ids db1 = Inr db'"
    by (auto split: sum.splits)
  have "db1 = db\<lparr>tMailboxEmails := tMailboxEmails db @ [(box, i)]\<rparr>"
    using 1(1) by (auto simp: AddMailboxEmail_def split: if_splits)
  then show ?case using Cons.IH [OF 1(2)] by simp
qed simp

lemma AddMailboxEmails_outcome:
  "AddMailboxEmails box ids st = (None, st') \<Longrightarrow>
   st' = st\<lparr>sDB := (sDB st)\<lparr>tMailboxEmails := tMailboxEmails (sDB st) @ map (Pair box) ids\<rparr>\<rparr>"
  using execTx_AddMailboxEmail [of box ids "sDB st"] by (auto simp: AddMailboxEmails_def inTx_def onDB_def split: sum.splits if_splits)

lemma execTx_AddMailboxEmail_new:
  "execTx (AddMailboxEmail box) ids db = Inr db' \<Longrightarrow> i \<in> set ids \<Longrightarrow> (box, i) \<notin> set (tMailboxEmails db)"
proof (induction ids arbitrary: db)
  case (Cons j ids)
  then obtain db1 where 1: "AddMailboxEmail box j db = Inr db1" "execTx (AddMailboxEmail box) ids db1 = Inr db'"
    by (auto split: sum.splits)
  then have "(box, j) \<notin> set (tMailboxEmails db)" "set (tMailboxEmails db) \<subseteq> set (tMailboxEmails db1)"
    by (auto simp: AddMailboxEmail_def split: if_splits)
  then show ?case using Cons.IH [OF 1(2)] Cons.prems(2) by auto
qed simp

lemma AddMailboxEmails_new:
  assumes "AddMailboxEmails box ids st = (None, st')"
  shows "sBusy st \<longrightarrow> ids = []" "i \<in> set ids \<Longrightarrow> (box, i) \<notin> set (tMailboxEmails (sDB st))"
  using assms execTx_AddMailboxEmail_new [of box ids "sDB st"]
  by (auto simp: AddMailboxEmails_def inTx_def onDB_def split: sum.splits if_splits)

lemma Read_db: "tEmails db = tEmails (sDB st) \<Longrightarrow> Read gunzip i (st\<lparr>sDB := db\<rparr>) = Read gunzip i st"
  by (simp add: Read_def GetEmail_def ReadEmail_def openEmailFile_def split: sum.split)

text \<open>Which mails a set of numbers names depends on the mails and on the mailbox only.\<close>

lemma GetIds_cong: "boxIds (sDB st') box = boxIds (sDB st) box \<Longrightarrow> GetIds box S st' = GetIds box S st"
  by (simp add: GetIds_def FromSequence_def FromSequenceRow_def cong: NumSet.case_cong)

lemma ListMailboxEmails_cong:
  assumes "boxIds (sDB st') box = boxIds (sDB st) box" "tEmails (sDB st') = tEmails (sDB st)"
  shows "ListMailboxEmails box S st' = ListMailboxEmails box S st"
proof -
  have rows: "ListMailboxEmailsRows (sDB st') box = ListMailboxEmailsRows (sDB st) box"
    using assms by (simp add: ListMailboxEmailsRows_def)
  then have "GetMailboxEmails (sDB st') box = GetMailboxEmails (sDB st) box" by (simp add: GetMailboxEmails_def fun_eq_iff)
  moreover have "ToSequence box i st' = ToSequence box i st" for i using assms(1) by (simp add: ToSequence_def GetSequence_def)
  moreover note GetIds_cong [OF assms(1)]
  ultimately show ?thesis using rows unfolding ListMailboxEmails_def Let_def by (simp split: option.split NumSet.split sum.split)
qed

section \<open>Properties\<close>

text \<open>no mail is ever lost or damaged by the others: in every state the store reaches by
  deliveries of mails of less than five mebibytes, up to four gibibytes in all, by deletions, and
  by any operations on mailboxes and flags, whether they succeed or fail, every mail of the
  database is read back.\<close>

theorem store_keeps_mails:
  assumes "\<forall>b. gunzip (gzip b) = Some b" and "(box_step gzip)\<^sup>*\<^sup>* emptyStore st"
    and "e \<in> set (tEmails (sDB st))"
  shows "\<exists>b h. Read gunzip (eID e) st = Inr (Some (b, h))"
  using readable_row [OF assms(1) bsys.reachable_inv [OF refl assms(2)] assms(3)] .

theorem store_keeps_mails_witness: "\<exists>b h. Read Some (eID (demoRow\<lparr>eID := 1\<rparr>)) demoStore = Inr (Some (b, h))"
  by (rule store_keeps_mails [where gzip = "\<lambda>b. b"])
    (simp_all add: demoStore_emails r_into_rtranclp [of "box_step _", OF box_step.mail [OF demoStore_step]])

lemma execTx_RemoveMailboxEmail:
  "execTx (\<lambda>i db. Inr (RemoveMailboxEmail box i db)) ids db =
     Inr (db\<lparr>tMailboxEmails := filter (\<lambda>r. \<not> (fst r = box \<and> snd r \<in> set ids)) (tMailboxEmails db)\<rparr>)"
proof (induction ids arbitrary: db)
  case (Cons a ids)
  have "(\<lambda>r. r \<noteq> (box, a) \<and> \<not> (fst r = box \<and> snd r \<in> set ids)) = (\<lambda>r. \<not> (fst r = box \<and> snd r \<in> set (a # ids)))"
    by (auto simp: fun_eq_iff)
  then show ?case using Cons.IH [of "RemoveMailboxEmail box a db"]
    by (simp only: execTx.simps sum.case) (simp add: RemoveMailboxEmail_def)
qed simp

lemma inTx_RemoveMailboxEmail:
  "\<not> sBusy st \<Longrightarrow> inTx (\<lambda>i db. Inr (RemoveMailboxEmail box i db)) ids st =
     (None, st\<lparr>sDB := (sDB st)\<lparr>tMailboxEmails := filter (\<lambda>r. \<not> (fst r = box \<and> snd r \<in> set ids)) (tMailboxEmails (sDB st))\<rparr>\<rparr>)"
  by (simp only: inTx_def onDB_def if_False execTx_RemoveMailboxEmail sum.case) simp

lemma RemoveMailboxEmails_busy: "sBusy st \<Longrightarrow> snd (RemoveMailboxEmails box ids st) = st"
  by (cases ids) (simp_all add: RemoveMailboxEmails_def inTx_def onDB_def deleteAll_busy)

lemma RemoveMailboxEmails_outcome:
  assumes "storeOk gzip st" and "\<not> sBusy st"
  shows "\<exists>st'. RemoveMailboxEmails box ids st = (None, st') \<and>
    set (tMailboxEmails (sDB st')) = {r \<in> set (tMailboxEmails (sDB st)). \<not> (fst r = box \<and> snd r \<in> set ids)} \<and>
    set (tEmails (sDB st')) = {e \<in> set (tEmails (sDB st)). eID e \<in> snd ` set (tMailboxEmails (sDB st'))} \<and>
    (\<forall>e \<in> set (tEmails (sDB st')). Read gunzip (eID e) st' = Read gunzip (eID e) st)"
proof -
  obtain ix where ix: "storeIx gzip st ix" using assms by (auto simp: storeOk_def)
  define db where "db = (sDB st)\<lparr>tMailboxEmails := filter (\<lambda>r. \<not> (fst r = box \<and> snd r \<in> set ids)) (tMailboxEmails (sDB st))\<rparr>"
  let ?es = "ListEmailsNoMailbox db" and ?st = "st\<lparr>sDB := db\<rparr>"
  have rows: "tEmails db = tEmails (sDB st)" by (simp add: db_def)
  have tx: "execTx (\<lambda>i db. Inr (RemoveMailboxEmail box i db)) ids (sDB st) = Inr db"
    unfolding db_def by (rule execTx_RemoveMailboxEmail)
  have "keepsMails (execTx (\<lambda>i db. Inr (RemoveMailboxEmail box i db)) ids)"
    by (rule keepsMails_execTx) (rule keepsMails_RemoveMailboxEmail)
  then have "dbOk db" using tx storeOk_dbOk [OF assms(1)] unfolding keepsMails_def by blast
  then have ix1: "storeIx gzip ?st ix" using storeIx_db [OF ix] rows by blast
  obtain st' jx where st': "deleteAll ?es ?st = (None, st')" "storeIx gzip st' jx" "jx \<subseteq> ix"
    "sDB st' = deleteEmails (\<lambda>e. e \<in> set ?es) db"
    using deleteAll_outcome [OF ix1, of ?es] ListEmailsNoMailbox_rows [OF \<open>dbOk db\<close>] assms(2) by auto
  have run: "RemoveMailboxEmails box ids st = (None, st')"
    using st'(1) by (simp only: RemoveMailboxEmails_def inTx_RemoveMailboxEmail [OF assms(2)] db_def [symmetric]) simp
  have boxes: "tMailboxEmails (sDB st') = tMailboxEmails db"
    unfolding st'(4) by (force simp: deleteEmails_def ListEmailsNoMailbox_def filter_id_conv)
  have mails: "set (tEmails (sDB st')) = {e \<in> set (tEmails (sDB st)). eID e \<in> snd ` set (tMailboxEmails (sDB st'))}"
    unfolding boxes unfolding st'(4) by (auto simp: deleteEmails_def ListEmailsNoMailbox_def rows)
  have "\<forall>e \<in> set (tEmails (sDB st')). Read gunzip (eID e) st' = Read gunzip (eID e) st"
    using Read_kept [OF ix st'(2) _ _ st'(3)] mails by blast
  then show ?thesis using run boxes mails by (simp add: db_def)
qed

text \<open>What a removal that succeeds does, in every state: in one where it could not have removed
  anything there was nothing to remove.\<close>

lemma RemoveMailboxEmails_success:
  assumes "storeOk gzip st" and "RemoveMailboxEmails box ids st = (None, st')"
    and "sBusy st \<Longrightarrow> set (tMailboxEmails (sDB st)) \<inter> {box} \<times> set ids = {}"
  shows "set (tMailboxEmails (sDB st')) = set (tMailboxEmails (sDB st)) - {box} \<times> set ids \<and>
    (\<forall>e \<in> set (tEmails (sDB st)). eID e \<in> snd ` set (tMailboxEmails (sDB st')) \<longrightarrow>
       e \<in> set (tEmails (sDB st')) \<and> Read gunzip (eID e) st' = Read gunzip (eID e) st)"
proof (cases "sBusy st")
  case True
  then show ?thesis using assms(2,3) RemoveMailboxEmails_busy [OF True, of box ids] by auto
next
  case False
  then have "set (tMailboxEmails (sDB st')) = {r \<in> set (tMailboxEmails (sDB st)). \<not> (fst r = box \<and> snd r \<in> set ids)}"
    and "set (tEmails (sDB st')) = {e \<in> set (tEmails (sDB st)). eID e \<in> snd ` set (tMailboxEmails (sDB st'))}"
    and "\<forall>e \<in> set (tEmails (sDB st')). Read gunzip (eID e) st' = Read gunzip (eID e) st"
    using RemoveMailboxEmails_outcome [OF assms(1) False, where box = box and ids = ids and gunzip = gunzip] assms(2) by auto
  then show ?thesis by force
qed

text \<open>C23: removing mails from a mailbox takes them out of it and of no other, always succeeds, and
  deletes exactly the mails that are then in no mailbox; the others read as before. Only while a
  transaction that failed before is still open can it fail, and then it changes nothing.\<close>

theorem remove_from_mailbox:
  assumes "storeOk gzip st"
  shows "if sBusy st then snd (RemoveMailboxEmails box ids st) = st
    else \<exists>st'. RemoveMailboxEmails box ids st = (None, st') \<and>
      set (tMailboxEmails (sDB st')) = {r \<in> set (tMailboxEmails (sDB st)). \<not> (fst r = box \<and> snd r \<in> set ids)} \<and>
      set (tEmails (sDB st')) = {e \<in> set (tEmails (sDB st)). eID e \<in> snd ` set (tMailboxEmails (sDB st'))} \<and>
      (\<forall>e \<in> set (tEmails (sDB st')). Read gunzip (eID e) st' = Read gunzip (eID e) st)"
  using RemoveMailboxEmails_outcome [OF assms] RemoveMailboxEmails_busy by simp

theorem remove_from_mailbox_witness:
  "\<exists>st'. RemoveMailboxEmails 1 [1] demoStore = (None, st') \<and> set (tEmails (sDB st')) = {}"
proof -
  obtain st' where "RemoveMailboxEmails 1 [1] demoStore = (None, st')"
    "set (tMailboxEmails (sDB st')) = {r \<in> set (tMailboxEmails (sDB demoStore)). \<not> (fst r = 1 \<and> snd r \<in> set [1])}"
    "set (tEmails (sDB st')) = {e \<in> set (tEmails (sDB demoStore)). eID e \<in> snd ` set (tMailboxEmails (sDB st'))}"
    using remove_from_mailbox [OF storeOk_demoStore, of 1 "[1]"] unfolding if_not_P [OF demoStore_files(7)] by blast
  moreover from this have "set (tMailboxEmails (sDB st')) = {}" by (auto simp: demoStore_files)
  ultimately show ?thesis by auto
qed

text \<open>the UID the server predicts for the next mail of a mailbox is not above those it has: it
  is that of its oldest mail plus one.\<close>

lemma hd_Min: "sorted xs \<Longrightarrow> xs \<noteq> [] \<Longrightarrow> hd xs = Min (set (xs :: int list))"
  by (cases xs) (auto intro!: Min_eqI [symmetric])

lemma ListMailboxEmailsRows_ids: "dbOk db \<Longrightarrow> eID ` set (ListMailboxEmailsRows db box) = set (boxIds db box)"
  using boxIds_mailIds [of db box] by (auto simp: ListMailboxEmailsRows_def mailIds_def)

theorem uidnext_is_oldest:
  assumes "dbOk db" and "boxIds db box \<noteq> []"
  shows "uidNext db box = of_int (Min (set (boxIds db box)) + 1)"
proof -
  let ?rows = "ListMailboxEmailsRows db box"
  have sorted: "sorted (map eID ?rows)"
    using assms(1) unfolding ListMailboxEmailsRows_def dbOk_def emailRowsOk_def by (simp add: sorted_filter)
  have ne: "?rows \<noteq> []" using ListMailboxEmailsRows_ids [OF assms(1), of box] assms(2) by force
  have "eID (hd ?rows) = Min (set (boxIds db box))"
    using hd_Min [OF sorted] ne ListMailboxEmailsRows_ids [OF assms(1), of box] by (simp add: hd_map)
  then show ?thesis
    using ne unfolding uidNext_def GetLatestMailboxEmails_def sort_key_id_if_sorted [OF sorted]
    by (cases ?rows) simp_all
qed

theorem uidnext_is_oldest_witness: "uidNext demoDB 1 = of_int (Min (set (boxIds demoDB 1)) + 1)"
  using uidnext_is_oldest [OF dbs.reachable_inv [OF refl demoDB_reachable], of 1] by (simp add: boxIds_def demoDB_def newDB_def)

lemma singleton_list: "distinct xs \<Longrightarrow> set xs = {e} \<Longrightarrow> xs = [e]"
proof -
  assume xs: "distinct xs" "set xs = {e}"
  then have "length xs = 1" using distinct_card [of xs] by simp
  then obtain x where "xs = [x]" by (auto simp: length_Suc_conv)
  then show ?thesis using xs(2) by simp
qed

lemma row_of_id:
  assumes "dbOk db" "i \<in> set (boxIds db box)"
  shows "\<exists>e. GetMailboxEmails db box [i] = [e] \<and> eID e = i"
proof -
  let ?es = "GetMailboxEmails db box [i]"
  have "i \<in> eID ` set (ListMailboxEmailsRows db box)" using assms ListMailboxEmailsRows_ids by simp
  then obtain e where e: "e \<in> set ?es" "eID e = i" by (auto simp: GetMailboxEmails_def)
  have "distinct ?es" using assms(1) by (simp add: GetMailboxEmails_def ListMailboxEmailsRows_def dbOk_def emailRowsOk_def distinct_map)
  moreover have "x = e" if "x \<in> set ?es" for x
    using dbOk_eID [OF assms(1), of x e] that e by (auto simp: GetMailboxEmails_def ListMailboxEmailsRows_def)
  then have "set ?es = {e}" using e(1) by blast
  ultimately have "?es = [e]" by (rule singleton_list)
  then show ?thesis using e(2) by blast
qed

text \<open>asking for mails by a sequence number that is not \<open>*\<close> gives the mail at that place
  counted from the newest, whose own sequence number is counted from the oldest: of \<open>n\<close> mails,
  number \<open>k\<close> gives the mail numbered \<open>n + 1 - k\<close>.\<close>

theorem sequence_gives_mirror:
  assumes "dbOk (sDB st)" and "\<not> Dynamic v" and "Nums v = [seq]" and "1 \<le> unat seq"
    and "unat seq \<le> CountMailboxEmails (sDB st) box"
  shows "\<exists>e. ListMailboxEmails box (Some (SeqSet v)) st = Inr [e] \<and>
    GetSequence (sDB st) box (eID e) = CountMailboxEmails (sDB st) box + 1 - unat seq"
proof -
  obtain i where i: "FromSequenceRow (sDB st) box (int (unat seq)) = Inr i" "i \<in> set (boxIds (sDB st) box)"
    "GetSequence (sDB st) box i = CountMailboxEmails (sDB st) box + 1 - unat seq"
    using FromSequence_GetSequence [OF assms(1,4,5)] by blast
  then have "GetIds box (SeqSet v) st = Inr [i]"
    using assms(2,3) by (simp add: GetIds_def Map_def FromSequence_def)
  then show ?thesis using row_of_id [OF assms(1) i(2)] i(3) assms(2) by (auto simp: ListMailboxEmails_def Let_def)
qed

theorem sequence_gives_mirror_witness:
  "\<exists>e. ListMailboxEmails 1 (Some (SeqSet \<lparr>Dynamic = False, Nums = [1], Contains = \<lambda>n. n = 1\<rparr>)) demoStore = Inr [e] \<and>
     GetSequence (sDB demoStore) 1 (eID e) = CountMailboxEmails (sDB demoStore) 1 + 1 - unat (1 :: u32)"
  by (rule sequence_gives_mirror) (simp_all add: storeOk_dbOk [OF storeOk_demoStore] CountMailboxEmails_def boxIds_def demoStore_files)

text \<open>STATUS: asking for the number of deleted or of unseen mails without that of all mails
  panics; with it, the number of all mails is that of the mails that are not marked as deleted
  when the deleted ones are asked for, and the unseen ones are counted from there.\<close>

theorem status_counts:
  "statusOf db box name opt =
     (if \<not> optNumMessages opt \<and> (optNumDeleted opt \<or> optNumUnseen opt) then Inl NilCount
      else
        let n = of_nat (CountMailboxEmails db box) -
              (if optNumDeleted opt then of_nat (CountEmailsWithFlagInMailbox db DeletedFlag box) else 0)
        in Inr \<lparr>stMailbox = name, stNumMessages = (if optNumMessages opt then Some n else None),
             stUIDValidity = (if optUIDValidity opt then of_int box else 0),
             stNumRecent = (if optNumRecent opt then Some 0 else None),
             stNumUnseen = (if optNumUnseen opt then Some (n - of_nat (CountEmailsWithFlagInMailbox db SeenFlag box)) else None),
             stUIDNext = (if optUIDNext opt then uidNext db box else 0)\<rparr>)"
  by (auto simp: statusOf_def Let_def)

end
