(* ===== verification/Store_Search.thy ===== *)
theory Store_Search
  imports Store_Mailbox
begin

text \<open>
  The search of a mailbox: \<open>src/storage/search.go\<close> and \<open>src/storage/simd.go\<close>.

  \<open>parseCriteria\<close> writes the condition of a query into a builder, which is the string written so
  far, and returns a function that checks each row. SQLite is an argument, the rows it gives for
  the text of a query; the times of the criteria are in seconds, and a zero one is \<open>None\<close>.
\<close>

section \<open>Criteria\<close>

datatype SearchCriteria = Criteria
  (cSeqNum: "numbers list") (cUID: "numbers list") (cBefore: "int option") (cSince: "int option")
  (cLarger: int) (cSmaller: int) (cFlag: "string list") (cNotFlag: "string list")
  (cNot: "SearchCriteria list") (cOr: "(SearchCriteria \<times> SearchCriteria) list")

definition sepAnd :: "bool \<Rightarrow> string" where
  "sepAnd needAnd = (if needAnd then '' AND '' else [])"

text \<open>\<open>strings.ReplaceAll(flag, ', \')\<close>.\<close>

definition escapeQuotes :: "string \<Rightarrow> string" where
  "escapeQuotes s = concat (map (\<lambda>c. if c = CHR 0x27 then [CHR 0x5C, CHR 0x27] else [c]) s)"

definition flagText :: string where
  "flagText = ''EXISTS (
				SELECT * FROM emails_flags WHERE email_id = id and flag_id = (
					SELECT id FROM flags WHERE name = '' @ [CHR 0x27]"

definition flagClause :: "string \<Rightarrow> string" where
  "flagClause flag = flagText @ escapeQuotes flag @ CHR 0x27 # ''))''"

definition idsOf :: "SearchCriteria \<Rightarrow> int list" where
  "idsOf c = concat (map (\<lambda>S. Map (Nums S) (\<lambda>v. uint v)) (cSeqNum c)) @ concat (map (\<lambda>S. Map (Nums S) (\<lambda>v. uint v)) (cUID c))"

text \<open>The identifiers, as they are written: the parentheses, then the numbers with a comma after
  each, without the last byte.\<close>

definition idsText :: "int list \<Rightarrow> string" where
  "idsText ids = butlast (''()'' @ concat (map (\<lambda>i. Itoa i @ '','') ids))"

text \<open>The conditions that are written one after the other: the builder and \<open>needAnd\<close>.\<close>

type_synonym builder = "string \<times> bool"

definition writeClause :: "string \<Rightarrow> builder \<Rightarrow> builder" where
  "writeClause text sb = (fst sb @ sepAnd (snd sb) @ text, True)"

definition writeIf :: "bool \<Rightarrow> string \<Rightarrow> builder \<Rightarrow> builder" where
  "writeIf b text sb = (if b then writeClause text sb else sb)"

fun writeFlags :: "string \<Rightarrow> string list \<Rightarrow> builder \<Rightarrow> builder" where
  "writeFlags no [] sb = sb"
| "writeFlags no (f # fs) sb = writeFlags no fs (writeClause (no @ flagClause f) sb)"

definition writeSimple :: "SearchCriteria \<Rightarrow> string \<Rightarrow> builder" where
  "writeSimple c sb =
     writeFlags ''NOT '' (cNotFlag c)
      (writeFlags [] (cFlag c)
       (writeIf (cSmaller c \<noteq> 0) (''id < '' @ Itoa (cSmaller c))
        (writeIf (cLarger c \<noteq> 0) (''id > '' @ Itoa (cLarger c))
         (writeIf (cSince c \<noteq> None) (''internal_date > '' @ Itoa (the (cSince c)))
          (writeIf (cBefore c \<noteq> None) (''internal_date < '' @ Itoa (the (cBefore c)))
           (writeIf (idsOf c \<noteq> []) (''id IN '' @ idsText (idsOf c)) (sb, False)))))))"

lemma size_cNot: "size_list size (cNot c) < size c"
  by (cases c) simp

lemma size_cOr: "size_list (size_prod size size) (cOr c) < size c"
  by (cases c) simp

lemma size_in_cNot: "d \<in> set (cNot c) \<Longrightarrow> size d < size c"
  using size_cNot [of c] size_list_estimation' [of d "cNot c" "size d" size] by simp

lemma size_in_cOr: "(a, b) \<in> set (cOr c) \<Longrightarrow> size a < size c \<and> size b < size c"
  using size_cOr [of c] size_list_estimation' [of "(a, b)" "cOr c" "size a + size b" "size_prod size size"] by simp

function (sequential) parseCriteria :: "SearchCriteria \<Rightarrow> string \<Rightarrow> string"
  and parseNots :: "SearchCriteria list \<Rightarrow> builder \<Rightarrow> builder"
  and parseOrs :: "(SearchCriteria \<times> SearchCriteria) list \<Rightarrow> builder \<Rightarrow> builder" where
  "parseCriteria c sb = fst (parseOrs (cOr c) (parseNots (cNot c) (writeSimple c sb)))"
| "parseNots [] sb = sb"
| "parseNots (c # cs) sb =
     parseNots cs (parseCriteria c (fst sb @ sepAnd (snd sb) @ ''NOT ('') @ '')'', True)"
| "parseOrs [] sb = sb"
| "parseOrs ((c, d) # cs) sb =
     parseOrs cs (parseCriteria d (parseCriteria c (fst sb @ sepAnd (snd sb) @ ''('') @ '') OR ('') @ '')'', True)"
  by pat_completeness auto

termination
  by (relation "measure (\<lambda>x. case x of Inl (c, _) \<Rightarrow> size c | Inr (Inl (cs, _)) \<Rightarrow> size_list size cs
      | Inr (Inr (cs, _)) \<Rightarrow> size_list (size_prod size size) cs)")
    (auto simp: size_cNot size_cOr)

text \<open>The function that \<open>parseCriteria\<close> returns. It looks at no row: what is left to check are the
  functions of the parts.\<close>

function (sequential) checkOf :: "SearchCriteria \<Rightarrow> bool" where
  "checkOf c =
     (\<not> Any (map checkOf (cNot c)) \<and> All (map (\<lambda>(a, b). checkOf a \<or> checkOf b) (cOr c)))"
  by pat_completeness auto

termination
  by (relation "measure size") (auto dest: size_in_cNot size_in_cOr)

declare checkOf.simps [simp del] parseCriteria.simps [simp del]

section \<open>Search\<close>

definition searchQuery :: "string \<Rightarrow> string" where
  "searchQuery w = ''
SELECT id, filename, offset FROM emails
WHERE '' @ w @ '' EXISTS(
	SELECT * FROM mailbox_emails WHERE mailbox_id = ? AND email_id = id
)''"

record SearchOptions =
  ReturnSave :: bool
  ReturnMin :: bool
  ReturnMax :: bool
  ReturnCount :: bool

record SearchData =
  rAll :: "u32 list"
  rMin :: u32
  rMax :: u32
  rCount :: u32

datatype searchError = NotSaved | QueryError dbError

text \<open>\<open>Search\<close>: the identifiers are taken before the rows are sorted, so that what is sorted is
  not used again.\<close>

definition Search ::
  "(string \<Rightarrow> int \<Rightarrow> dbError + (int \<times> string \<times> int) list) \<Rightarrow> int \<Rightarrow> SearchCriteria \<Rightarrow> SearchOptions \<Rightarrow>
   searchError + SearchData" where
  "Search sqlite mailbox criteria options =
     (if ReturnSave options then Inl NotSaved
      else
        let w = parseCriteria criteria [] in
        case sqlite (searchQuery (if w \<noteq> [] then w @ '' AND'' else [])) mailbox of
          Inl err \<Rightarrow> Inl (QueryError err)
        | Inr rows \<Rightarrow>
            let rawIds = filter (\<lambda>v. checkOf criteria) rows;
                ids = Map rawIds (\<lambda>v. of_int (fst v))
            in Inr \<lparr>rAll = ids,
                 rMin = (if ReturnMin options \<and> ids \<noteq> [] then hd ids else 0),
                 rMax = (if ReturnMax options \<and> ids \<noteq> [] then last ids else 0),
                 rCount = (if ReturnCount options then of_nat (length ids) else 0)\<rparr>)"

section \<open>The loop of \<open>simdSearch\<close>\<close>

text \<open>\<open>strings.Index\<close>.\<close>

fun indexOf :: "string \<Rightarrow> string \<Rightarrow> nat option" where
  "indexOf s needle =
     (if has_prefix s needle then Some 0
      else case s of [] \<Rightarrow> None | _ # t \<Rightarrow> map_option Suc (indexOf t needle))"

declare indexOf.simps [simp del]

text \<open>The positions that are yielded to a consumer that takes them all, each cut to 32 bits as the
  start of the next search is; \<open>None\<close> is a loop that has not ended within the given number of
  rounds. A start past the end, which would panic, does not come up: it is at most the first
  place that was found.\<close>

fun simdLoop :: "nat \<Rightarrow> string \<Rightarrow> string \<Rightarrow> u32 \<Rightarrow> u32 list option" where
  "simdLoop 0 haystack needle from = None"
| "simdLoop (Suc fuel) haystack needle from =
     (case indexOf (drop (unat from) haystack) needle of
        None \<Rightarrow> Some []
      | Some i \<Rightarrow> map_option (Cons (of_nat i)) (simdLoop fuel haystack needle (of_nat i)))"

definition simdSearch :: "nat \<Rightarrow> string \<Rightarrow> string \<Rightarrow> u32 list option" where
  "simdSearch fuel haystack needle = simdLoop fuel haystack needle 0"

section \<open>The condition as a list of clauses\<close>

fun joinAnd :: "string list \<Rightarrow> string" where
  "joinAnd [] = []"
| "joinAnd [x] = x"
| "joinAnd (x # y # xs) = x @ '' AND '' @ joinAnd (y # xs)"

definition simpleClauses :: "SearchCriteria \<Rightarrow> string list" where
  "simpleClauses c =
     (if idsOf c \<noteq> [] then [''id IN '' @ idsText (idsOf c)] else []) @
     (case cBefore c of None \<Rightarrow> [] | Some t \<Rightarrow> [''internal_date < '' @ Itoa t]) @
     (case cSince c of None \<Rightarrow> [] | Some t \<Rightarrow> [''internal_date > '' @ Itoa t]) @
     (if cLarger c \<noteq> 0 then [''id > '' @ Itoa (cLarger c)] else []) @
     (if cSmaller c \<noteq> 0 then [''id < '' @ Itoa (cSmaller c)] else []) @
     map flagClause (cFlag c) @ map (\<lambda>f. ''NOT '' @ flagClause f) (cNotFlag c)"

text \<open>What the condition is meant to be: the conditions of all criteria, joined.\<close>

function (sequential) whereOf :: "SearchCriteria \<Rightarrow> string" where
  "whereOf c = joinAnd (simpleClauses c @ map (\<lambda>d. ''NOT ('' @ whereOf d @ '')'') (cNot c) @
     map (\<lambda>(a, b). ''('' @ whereOf a @ '') OR ('' @ whereOf b @ '')'') (cOr c))"
  by pat_completeness auto

termination
  by (relation "measure size") (auto dest: size_in_cNot size_in_cOr)

declare whereOf.simps [simp del]

definition built :: "string \<Rightarrow> string list \<Rightarrow> builder" where
  "built sb cs = (sb @ joinAnd cs, cs \<noteq> [])"

lemma joinAnd_snoc: "joinAnd (cs @ [t]) = joinAnd cs @ sepAnd (cs \<noteq> []) @ t"
  by (induction cs rule: joinAnd.induct) (auto simp: sepAnd_def)

lemma writeClause_built: "writeClause t (built sb cs) = built sb (cs @ [t])"
  by (simp add: writeClause_def built_def joinAnd_snoc)

lemma writeIf_built: "writeIf b t (built sb cs) = built sb (cs @ (if b then [t] else []))"
  by (simp add: writeIf_def writeClause_built)

lemma writeFlags_built: "writeFlags no fs (built sb cs) = built sb (cs @ map (\<lambda>f. no @ flagClause f) fs)"
  by (induction fs arbitrary: cs) (simp_all add: writeClause_built)

lemma writeSimple_built: "writeSimple c sb = built sb (simpleClauses c)"
proof -
  have "(sb, False) = built sb []" by (simp add: built_def)
  then show ?thesis
    by (simp add: writeSimple_def writeIf_built writeFlags_built simpleClauses_def split: option.split)
qed

abbreviation notClause :: "SearchCriteria \<Rightarrow> string" where
  "notClause d \<equiv> ''NOT ('' @ whereOf d @ '')''"

abbreviation orClause :: "SearchCriteria \<times> SearchCriteria \<Rightarrow> string" where
  "orClause \<equiv> \<lambda>(a, b). ''('' @ whereOf a @ '') OR ('' @ whereOf b @ '')''"

lemma built_snoc: "(fst (built sb cs) @ sepAnd (snd (built sb cs)) @ t, True) = built sb (cs @ [t])"
  by (simp add: built_def joinAnd_snoc)

lemma parseCriteria_whereOf_all:
  "parseCriteria c sb = sb @ whereOf c"
  "\<forall>sb cs. x = built sb cs \<longrightarrow> parseNots ds x = built sb (cs @ map notClause ds)"
  "\<forall>sb cs. y = built sb cs \<longrightarrow> parseOrs os y = built sb (cs @ map orClause os)"
proof (induction c sb and ds x and os y rule: parseCriteria_parseNots_parseOrs.induct)
  case (1 c sb)
  have "parseCriteria c sb = fst (built sb (simpleClauses c @ map notClause (cNot c) @ map orClause (cOr c)))"
    using 1 by (simp add: parseCriteria.simps writeSimple_built)
  then show ?case by (simp add: built_def whereOf.simps [of c])
next
  case (3 c cs sb)
  show ?case
  proof (intro allI impI)
    fix s ds
    assume sb: "sb = built s ds"
    have "(parseCriteria c (fst sb @ sepAnd (snd sb) @ ''NOT ('') @ '')'', True) = built s (ds @ [notClause c])"
      using built_snoc [of s ds "notClause c"] 3 by (simp add: sb)
    then show "parseNots (c # cs) sb = built s (ds @ map notClause (c # cs))" using 3 sb by simp
  qed
next
  case (5 c d cs sb)
  show ?case
  proof (intro allI impI)
    fix s ds
    assume sb: "sb = built s ds"
    have "(parseCriteria d (parseCriteria c (fst sb @ sepAnd (snd sb) @ ''('') @ '') OR ('') @ '')'', True) =
        built s (ds @ [orClause (c, d)])"
      using built_snoc [of s ds "orClause (c, d)"] 5 by (simp add: sb)
    then show "parseOrs ((c, d) # cs) sb = built s (ds @ map orClause ((c, d) # cs))" using 5 sb by simp
  qed
qed simp_all

lemma checkOf_leaf: "cNot c = [] \<Longrightarrow> cOr c = [] \<Longrightarrow> checkOf c"
  by (subst checkOf.simps) simp

lemma checkOf_not: "d \<in> set (cNot c) \<Longrightarrow> checkOf d \<Longrightarrow> \<not> checkOf c"
  by (subst checkOf.simps) (force simp: image_iff)

section \<open>Quotes\<close>

text \<open>The value of a literal of SQL after its first quote, and what follows it: a quote is written
  twice in a literal, and a backslash is a byte like the others.\<close>

fun sqlLiteral :: "string \<Rightarrow> string \<times> string" where
  "sqlLiteral [] = ([], [])"
| "sqlLiteral (c # s) =
     (if c = CHR 0x27 then
        (case s of
           d # t \<Rightarrow> if d = CHR 0x27 then (c # fst (sqlLiteral t), snd (sqlLiteral t)) else ([], s)
         | [] \<Rightarrow> ([], []))
      else (c # fst (sqlLiteral s), snd (sqlLiteral s)))"

lemma sqlLiteral_plain: "CHR 0x27 \<notin> set a \<Longrightarrow> sqlLiteral (a @ s) = (a @ fst (sqlLiteral s), snd (sqlLiteral s))"
  by (induction a) auto

lemma escapeQuotes_plain: "CHR 0x27 \<notin> set a \<Longrightarrow> escapeQuotes a = a"
  by (induction a) (auto simp: escapeQuotes_def)

lemma escapeQuotes_append: "escapeQuotes (a @ b) = escapeQuotes a @ escapeQuotes b"
  by (simp add: escapeQuotes_def)

section \<open>Properties\<close>

text \<open>C31: the condition of the query is that of all the criteria: whatever the builder holds,
  \<open>parseCriteria\<close> appends the conditions of the criteria and of their parts, joined with
  \<open>AND\<close>.\<close>

theorem parseCriteria_is_join: "parseCriteria c sb = sb @ whereOf c"
  by (rule parseCriteria_whereOf_all(1))

text \<open>a search with a negated criterion finds nothing: when the negated one has no parts, the
  check of the rows refuses them all.\<close>

theorem not_finds_nothing:
  assumes "d \<in> set (cNot c)" and "cNot d = []" and "cOr d = []" and "\<not> ReturnSave opt"
    and "\<forall>text box. \<exists>rows. sqlite text box = Inr rows"
  shows "\<exists>res. Search sqlite box c opt = Inr res \<and> rAll res = []"
proof -
  have "\<not> checkOf c" using checkOf_not [OF assms(1)] checkOf_leaf assms(2,3) by blast
  moreover obtain rows where
    "sqlite (searchQuery (if parseCriteria c [] \<noteq> [] then parseCriteria c [] @ '' AND'' else [])) box = Inr rows"
    using assms(5) by blast
  ultimately show ?thesis using assms(4) by (simp add: Search_def Let_def Map_def)
qed

definition noCriteria :: SearchCriteria where
  "noCriteria = Criteria [] [] None None 0 0 [] [] [] []"

definition notCriteria :: SearchCriteria where
  "notCriteria = Criteria [] [] None None 0 0 [] [] [noCriteria] []"

theorem not_finds_nothing_witness:
  "\<exists>res. Search (\<lambda>text box. Inr [(1, ''1'', 0)]) 1 notCriteria
     \<lparr>ReturnSave = False, ReturnMin = True, ReturnMax = True, ReturnCount = True\<rparr> = Inr res \<and> rAll res = []"
  by (rule not_finds_nothing [of noCriteria]) (simp_all add: notCriteria_def noCriteria_def)

text \<open>the name of a flag can leave its literal: a name without a quote is the value of the
  literal it is written in, but the literal of a name with a quote ends there, after the
  backslash, and what follows the quote in the name is read as SQL.\<close>

theorem flag_injection:
  assumes "CHR 0x27 \<notin> set a" and "CHR 0x27 \<notin> set b"
  shows "sqlLiteral (escapeQuotes a @ CHR 0x27 # ''))'') = (a, ''))'') \<and>
    (b \<noteq> [] \<longrightarrow> sqlLiteral (escapeQuotes (a @ CHR 0x27 # b) @ CHR 0x27 # ''))'') = (a @ [CHR 0x5C], b @ CHR 0x27 # ''))''))"
proof -
  have "escapeQuotes (a @ CHR 0x27 # b) = a @ [CHR 0x5C, CHR 0x27] @ b"
    using assms by (simp add: escapeQuotes_append escapeQuotes_plain escapeQuotes_def [of "CHR 0x27 # b"]
        flip: escapeQuotes_def [of b])
  moreover have "b \<noteq> [] \<Longrightarrow> hd b \<noteq> CHR 0x27" using assms(2) hd_in_set by force
  ultimately show ?thesis
    using assms sqlLiteral_plain [OF assms(1)] escapeQuotes_plain [OF assms(1)] by (cases b) auto
qed

theorem flag_injection_witness:
  "sqlLiteral (escapeQuotes (''x'' @ CHR 0x27 # '' OR 1'') @ CHR 0x27 # ''))'') = (''x'' @ [CHR 0x5C], '' OR 1'' @ CHR 0x27 # ''))'')"
  using flag_injection [of "''x''" "'' OR 1''"] by simp

lemma decimal_nonempty: "decimal n \<noteq> []"
  by (subst decimal.simps) simp

lemma Itoa_nonempty: "Itoa i \<noteq> []"
  by (simp add: Itoa_def decimal_nonempty)

lemma idsText_form: "ids \<noteq> [] \<Longrightarrow> \<exists>t. t \<noteq> [] \<and> idsText ids = ''()'' @ t"
proof -
  assume "ids \<noteq> []"
  then obtain i js where ids: "ids = i # js" by (cases ids) auto
  let ?rest = "concat (map (\<lambda>i. Itoa i @ '','') js)"
  have "idsText ids = ''()'' @ Itoa i @ butlast ('','' @ ?rest)"
    unfolding ids idsText_def by (simp add: butlast_append Itoa_nonempty)
  then show ?thesis using Itoa_nonempty [of i] by auto
qed

lemma joinAnd_Cons: "\<exists>t. joinAnd (x # xs) = x @ t"
  by (cases xs) auto

text \<open>a search by identifiers or sequence numbers is not a query: the condition starts with an
  empty list of identifiers, and the identifiers follow it.\<close>

theorem id_search_malformed:
  assumes "idsOf c \<noteq> []"
  shows "\<exists>t. t \<noteq> [] \<and> parseCriteria c [] = ''id IN ()'' @ t"
proof -
  obtain u where u: "u \<noteq> []" "idsText (idsOf c) = ''()'' @ u" using idsText_form [OF assms] by blast
  obtain cs where cs: "simpleClauses c = (''id IN '' @ idsText (idsOf c)) # cs"
    using assms by (simp add: simpleClauses_def)
  obtain t where "whereOf c = (''id IN '' @ idsText (idsOf c)) @ t"
    using joinAnd_Cons [of "''id IN '' @ idsText (idsOf c)"] unfolding whereOf.simps [of c] cs by fastforce
  then have "parseCriteria c [] = ''id IN ()'' @ (u @ t)"
    using u(2) parseCriteria_whereOf_all(1) [of c "[]"] by simp
  then show ?thesis using u(1) by blast
qed

theorem id_search_malformed_witness:
  "\<exists>t. t \<noteq> [] \<and> parseCriteria (Criteria [] [\<lparr>Dynamic = False, Nums = [7], Contains = \<lambda>n. n = 7\<rparr>] None None 0 0 [] [] [] []) [] = ''id IN ()'' @ t"
  by (rule id_search_malformed) (simp add: idsOf_def Map_def)

section \<open>The loop that does not end\<close>

lemma indexOf_Some: "indexOf s n = Some i \<Longrightarrow> has_prefix (drop i s) n"
proof (induction s arbitrary: i)
  case Nil
  then show ?case by (subst (asm) indexOf.simps) (auto split: if_splits)
next
  case (Cons c s)
  then show ?case by (subst (asm) (2) indexOf.simps) (auto split: if_splits)
qed

lemma indexOf_prefix: "has_prefix s n \<Longrightarrow> indexOf s n = Some 0"
  by (subst indexOf.simps) simp

lemma indexOf_None: "indexOf s n = None \<longleftrightarrow> \<not> contains s n"
proof (induction s)
  case Nil
  then show ?case by (subst indexOf.simps) (auto simp: has_prefix_iff)
next
  case (Cons c s)
  then show ?case by (subst indexOf.simps) auto
qed

lemma indexOf_drop:
  "indexOf s n = Some i \<Longrightarrow> q \<le> i \<Longrightarrow> indexOf (drop q s) n = Some (i - q)"
proof (induction q arbitrary: s i)
  case (Suc q)
  then obtain c t j where s: "s = c # t" "indexOf t n = Some j" "i = Suc j"
    by (subst (asm) (2) indexOf.simps) (auto split: if_splits list.splits)
  then show ?case using Suc by simp
qed simp

text \<open>From the start the loop goes to the first place cut to 32 bits, and from there, since the
  distance is a multiple of \<open>2 ^ 32\<close>, back to the start.\<close>

lemma simdLoop_found:
  assumes "indexOf haystack needle = Some p"
  shows "simdLoop fuel haystack needle 0 = None \<and> simdLoop fuel haystack needle (of_nat p) = None"
proof (induction fuel)
  case (Suc fuel)
  let ?q = "unat (of_nat p :: u32)"
  have q: "?q = p mod 2 ^ 32" by (simp add: unat_of_nat)
  then have le: "?q \<le> p" by simp
  have "of_nat (p - ?q) = (0 :: u32)"
    using le by (simp add: of_nat_diff)
  then show ?case using Suc assms indexOf_drop [OF assms le] by simp
qed simp

text \<open>C32: \<open>simdSearch\<close> ends only when there is nothing to find: with a consumer that takes all it is
  given, the loop goes round between the first place of the needle and the start for ever, also
  when that place does not fit in the 32 bits it is kept in.\<close>

theorem simdSearch_ends_iff:
  "(\<exists>fuel res. simdSearch fuel haystack needle = Some res) \<longleftrightarrow> \<not> contains haystack needle"
proof (cases "indexOf haystack needle")
  case None
  then have "simdSearch 1 haystack needle = Some []" by (simp add: simdSearch_def)
  then show ?thesis using None indexOf_None by blast
next
  case (Some p)
  then show ?thesis using simdLoop_found [OF Some] indexOf_None [of haystack needle] by (simp add: simdSearch_def)
qed

end
