(* ===== verification/Store_Race.thy ===== *)
theory Store_Race
  imports Store_Mailbox
begin

text \<open>
  Deliveries that run at the same time: \<open>StoreEmail\<close> of
  \<open>src/storage/email.go\<close> in the pieces that run between its waits, over the cache, the files and the
  database of a user (\<open>src/storage/meta.go\<close>).

  A delivery reads the cache under its lock, writes its file, runs a transaction and updates the
  cache under its lock; nothing keeps another delivery of the same user from running in between.
\<close>

section \<open>A delivery in pieces\<close>

record job =
  jNow :: string
  jRow :: Email
  jBytes :: bytes
  jEncrypted :: bool
  jCallback :: "int \<Rightarrow> DB \<Rightarrow> dbError + DB"

datatype jobState =
    Started
  | CacheRead string nat
  | FileWritten string nat u32
  | Recorded string nat u32 int
  | Ended "storeError + int"

definition LastFile :: "mailStore \<Rightarrow> string" where
  "LastFile st = lastFile st"

definition Offset :: "mailStore \<Rightarrow> u32" where
  "Offset st = sOffset st"

definition Update :: "string \<Rightarrow> u32 \<Rightarrow> mailStore \<Rightarrow> mailStore" where
  "Update lf offset st = st\<lparr>lastFile := lf, sOffset := offset\<rparr>"

fun jobStep :: "(bytes \<Rightarrow> bytes) \<Rightarrow> job \<Rightarrow> jobState \<times> mailStore \<Rightarrow> jobState \<times> mailStore" where
  "jobStep gzip j (Started, st) = (CacheRead (LastFile st) (unat (Offset st)), st)"
| "jobStep gzip j (CacheRead lf off, st) =
     (case OpenFile (sFiles st) (jNow j) lf off (jBytes j) of
        Inl err \<Rightarrow> (Ended (Inl (FileErr err)), st)
      | Inr ((p, pos), (lf', off'), files) \<Rightarrow>
          (case WriteEmail gzip (the (files p)) pos (jEncrypted j) (jBytes j) of
             Inl err \<Rightarrow> (Ended (Inl (FileErr err)), st\<lparr>sFiles := files\<rparr>)
           | Inr (n, f) \<Rightarrow> (FileWritten lf' off' n, st\<lparr>sFiles := files(p := Some f)\<rparr>)))"
| "jobStep gzip j (FileWritten lf off n, st) =
     (case onDB (NewEmail ((jRow j)\<lparr>fileName := lf, fileOffset := int off\<rparr>)) st of
        Inl err \<Rightarrow> (Ended (Inl (DBErr err)), st\<lparr>sBusy := True\<rparr>)
      | Inr (i, db) \<Rightarrow>
          (case jCallback j i db of
             Inl err \<Rightarrow> (Ended (Inl (DBErr err)), st\<lparr>sBusy := True\<rparr>)
           | Inr db' \<Rightarrow> (Recorded lf off n i, st\<lparr>sDB := db'\<rparr>)))"
| "jobStep gzip j (Recorded lf off n i, st) = (Ended (Inr i), Update lf (of_nat off + n) st)"
| "jobStep gzip j (Ended res, st) = (Ended res, st)"

definition runJob :: "(bytes \<Rightarrow> bytes) \<Rightarrow> job \<Rightarrow> jobState \<times> mailStore \<Rightarrow> jobState \<times> mailStore" where
  "runJob gzip j x = (jobStep gzip j ^^ 4) x"

text \<open>Several deliveries, each of which takes its steps in its order.\<close>

inductive race_step :: "(bytes \<Rightarrow> bytes) \<Rightarrow> job list \<Rightarrow> jobState list \<times> mailStore \<Rightarrow> jobState list \<times> mailStore \<Rightarrow> bool"
  for gzip js where
  "k < length js \<Longrightarrow> length ss = length js \<Longrightarrow> jobStep gzip (js ! k) (ss ! k, st) = (s', st') \<Longrightarrow>
   race_step gzip js (ss, st) (ss[k := s'], st')"

section \<open>Properties\<close>

lemma runJob_eq: "runJob gzip j x = jobStep gzip j (jobStep gzip j (jobStep gzip j (jobStep gzip j x)))"
  by (simp add: runJob_def numeral_eq_Suc)

text \<open>a delivery that nothing interrupts is \<open>StoreEmail\<close>: its four pieces one after the other
  give the same result and leave the same store.\<close>

lemma uninterrupted_delivery:
  "runJob gzip j (Started, st) =
     (case StoreEmail gzip (jNow j) (jRow j) (jBytes j) (jEncrypted j) (jCallback j) st of (res, st') \<Rightarrow> (Ended res, st'))"
  by (simp add: runJob_eq StoreEmail_def LastFile_def Offset_def Update_def onDB_def Let_def split: sum.split prod.split)

lemma race_steps:
  assumes "k < length js" "length ss = length js" "(jobStep gzip (js ! k) ^^ n) (ss ! k, st) = (s', st')"
  shows "(race_step gzip js)\<^sup>*\<^sup>* (ss, st) (ss[k := s'], st')"
  using assms(3)
proof (induction n arbitrary: s' st')
  case (Suc n)
  obtain s1 st1 where 1: "(jobStep gzip (js ! k) ^^ n) (ss ! k, st) = (s1, st1)" by fastforce
  have "race_step gzip js (ss[k := s1], st1) ((ss[k := s1])[k := s'], st')"
    by (rule race_step.intros) (use assms(1,2) Suc.prems 1 in simp_all)
  then show ?case using Suc.IH [OF 1] by simp
qed simp

text \<open>A delivery to the last file, which is not full.\<close>

lemma StoreEmail_last:
  assumes "storeOk gzip st" "lastFile st \<noteq> []" "sFiles st (lastFile st) = Some f" "length f < MaxFileSize"
    "length b < MaxEmailSizeInFile" "goodCallback callback" "StoreEmail gzip now row b enc callback st = (Inr i, st')"
  obtains e where "e \<in> set (tEmails (sDB st'))" "eID e = i" "fileName e = lastFile st" "offsetOf e = unat (sOffset st)"
    "sFiles st' (lastFile st) = Some (putRecord f (unat (sOffset st)) (recordOf gzip enc b))"
proof -
  let ?off = "unat (sOffset st)" and ?e = "row\<lparr>eID := i, fileName := lastFile st, fileOffset := int (unat (sOffset st))\<rparr>"
  have op: "OpenFile (sFiles st) now (lastFile st) ?off b = Inr ((lastFile st, ?off), (lastFile st, ?off), sFiles st)"
    using assms(2-5) by (simp add: OpenFile_def Let_def)
  obtain db db' where new: "NewEmail (row\<lparr>fileName := lastFile st, fileOffset := int ?off\<rparr>) (sDB st) = Inr (i, db)"
    and cb: "callback i db = Inr db'"
    and st': "sDB st' = db'" "sFiles st' (lastFile st) = Some (putRecord f ?off (recordOf gzip enc b))"
    using assms(4,7) unfolding StoreEmail_opened [OF op assms(3) refl] by (auto simp: onDB_def split: sum.splits if_splits)
  have "dbOk db" using dbOk_NewEmail [OF storeOk_dbOk [OF assms(1)] new] .
  then have "tEmails db' = tEmails db" using assms(6) cb unfolding goodCallback_def by blast
  then have "?e \<in> set (tEmails (sDB st'))" using NewEmail_Inr [OF new] st'(1) by simp
  moreover have "offsetOf ?e = ?off" by (simp add: offsetOf_def)
  ultimately show thesis using that [of ?e] st'(2) by simp
qed

text \<open>C10: two mails for the same user that arrive at the same time lose one: when the second delivery reads the cache
  before the first one has updated it, its mail is written over the first, which was reported as delivered and
  now reads as the second, and the second cannot be recorded.\<close>

theorem race_loses_mail:
  assumes "storeOk gzip st" and "lastFile st \<noteq> []" and "sFiles st (lastFile st) = Some f"
    and "length f < MaxFileSize" and "length (putRecord f (unat (sOffset st)) (recordOf gzip (jEncrypted a) (jBytes a))) < MaxFileSize"
    and "length (jBytes a) < MaxEmailSizeInFile" and "length (jBytes b) < MaxEmailSizeInFile"
    and "jNow a \<noteq> []" and "goodCallback (jCallback a)"
    and "unat (sOffset st) + recordSize (recordOf gzip (jEncrypted a) (jBytes a)) < 2 ^ 32"
    and "recordFits (recordOf gzip (jEncrypted b) (jBytes b))" and "gunzip (gzip (jBytes b)) = Some (jBytes b)"
    and "runJob gzip a (Started, st) = (Ended (Inr i), st1)"
  shows "\<exists>st2 h. (race_step gzip [a, b])\<^sup>*\<^sup>* ([Started, Started], st) ([Ended (Inr i), Ended (Inl (DBErr ErrUnique))], st2) \<and>
    Read gunzip i st2 = Inr (Some (jBytes b, h))"
proof -
  let ?off = "unat (sOffset st)" and ?r = "recordOf gzip (jEncrypted b) (jBytes b)"
  let ?f1 = "putRecord f ?off (recordOf gzip (jEncrypted a) (jBytes a))"
  have store: "StoreEmail gzip (jNow a) (jRow a) (jBytes a) (jEncrypted a) (jCallback a) st = (Inr i, st1)"
    using assms(13) unfolding uninterrupted_delivery by (auto split: prod.splits)
  have ok1: "storeOk gzip st1" using storeOk_StoreEmail [OF assms(1,6,8,9,10), of "jRow a"] store by simp
  obtain e where e: "e \<in> set (tEmails (sDB st1))" "eID e = i" "fileName e = lastFile st" "offsetOf e = ?off" "sFiles st1 (fileName e) = Some ?f1"
    using StoreEmail_last [OF assms(1-4,6,9) store] by metis
  have named: "fileName e \<noteq> []" using e(3) assms(2) by simp
  note stale = stale_place(1) [OF storeOk_offset [OF ok1 e(1)] e(1) named e(5) assms(5,7), where now = "jNow b"]
    stale_place(2) [OF storeOk_offset [OF ok1 e(1)] e(1) named e(5) assms(5,7), where row = "jRow b"]
  let ?st2 = "st1\<lparr>sFiles := (sFiles st1)(lastFile st \<mapsto> putRecord ?f1 ?off ?r)\<rparr>"
  have put: "jobStep gzip b (CacheRead (lastFile st) ?off, st1) = (FileWritten (lastFile st) ?off (of_nat (recordSize ?r)), ?st2)"
    using stale(1) assms(2,5) e(3-5) by (simp add: WriteEmail_record)
  have free: "\<not> sBusy st1" using StoreEmail_free [OF store] .
  have rec: "jobStep gzip b (FileWritten (lastFile st) ?off n, ?st2) = (Ended (Inl (DBErr ErrUnique)), ?st2\<lparr>sBusy := True\<rparr>)" for n
    using stale(2) assms(2) e(3,4) free by (simp add: onDB_def)
  have "(race_step gzip [a, b])\<^sup>*\<^sup>* ([Started, Started], st) ([Started, CacheRead (lastFile st) ?off], st)"
    using race_steps [of 1 "[a, b]" "[Started, Started]" 1 gzip st] by (simp add: LastFile_def Offset_def)
  also have "(race_step gzip [a, b])\<^sup>*\<^sup>* \<dots> ([Ended (Inr i), CacheRead (lastFile st) ?off], st1)"
    using race_steps [of 0 "[a, b]" "[Started, CacheRead (lastFile st) ?off]" 4 gzip st] assms(13) unfolding runJob_def by simp
  also have "(race_step gzip [a, b])\<^sup>*\<^sup>* \<dots> ([Ended (Inr i), Ended (Inl (DBErr ErrUnique))], ?st2\<lparr>sBusy := True\<rparr>)"
    using race_steps [of 1 "[a, b]" "[Ended (Inr i), CacheRead (lastFile st) ?off]" 2 gzip st1] put rec by (simp add: numeral_2_eq_2)
  finally have race: "(race_step gzip [a, b])\<^sup>*\<^sup>* ([Started, Started], st) ([Ended (Inr i), Ended (Inl (DBErr ErrUnique))], ?st2\<lparr>sBusy := True\<rparr>)" .
  have "\<exists>h. Read gunzip (eID e) (?st2\<lparr>sBusy := True\<rparr>) = Inr (Some (jBytes b, h))"
    by (rule stale_read [where gunzip = gunzip, OF storeOk_dbOk [OF ok1] e(1) assms(12,11)]) (simp_all add: e(3,4))
  then show ?thesis using race e(2) by blast
qed

text \<open>Two mails of a byte for the same user.\<close>

definition raceJob :: "nat \<Rightarrow> job" where
  "raceJob k = \<lparr>jNow = ''2'', jRow = demoRow, jBytes = [of_nat k], jEncrypted = False, jCallback = AddMailboxEmail 1\<rparr>"

definition raced1 :: mailStore where
  "raced1 = snd (runJob (\<lambda>b. b) (raceJob 66) (Started, demoStore))"

lemma raceJob_run: "runJob (\<lambda>b. b) (raceJob 66) (Started, demoStore) = (Ended (Inr 2), raced1)"
  unfolding raced1_def by (simp add: uninterrupted_delivery raceJob_def demoStore_def store_eval)

theorem race_loses_mail_witness:
  "\<exists>st2 h. (race_step (\<lambda>b. b) [raceJob 66, raceJob 67])\<^sup>*\<^sup>* ([Started, Started], demoStore)
      ([Ended (Inr 2), Ended (Inl (DBErr ErrUnique))], st2) \<and> Read Some 2 st2 = Inr (Some ([67], h))"
proof -
  have jobs: "jBytes (raceJob k) = [of_nat k]" "\<not> jEncrypted (raceJob k)" "jNow (raceJob k) = ''2''"
    "goodCallback (jCallback (raceJob k))" for k
    by (simp_all add: raceJob_def goodCallback_AddMailboxEmail)
  have "\<exists>st2 h. (race_step (\<lambda>b. b) [raceJob 66, raceJob 67])\<^sup>*\<^sup>* ([Started, Started], demoStore)
      ([Ended (Inr 2), Ended (Inl (DBErr ErrUnique))], st2) \<and> Read Some 2 st2 = Inr (Some (jBytes (raceJob 67), h))"
    by (rule race_loses_mail [OF storeOk_demoStore], simp_all only: demoStore_files jobs raceJob_run)
      (simp_all add: MaxFileSize_def MaxEmailSizeInFile_def recordFits_def recordSize_def recordOf_def
        CompressEmailBiggerThan_def putRecord_def writeAt_def encodeRecord_def AppendUint32_def)
  then show ?thesis by (simp add: jobs)
qed

end
