(* ===== verification/Store_Cache.thy ===== *)
theory Store_Cache
  imports Store_Mail "HOL-Library.List_Lexorder" "HOL-Library.Char_ord" "HOL-Library.Multiset"
begin

text \<open>
  The open databases of a process: \<open>Meta\<close> of \<open>src/storage/meta.go\<close>, with the migrations that run when a database is
  opened (\<open>src/storage/migrations.go\<close>). The other theories take the store of a user as opened.

  The databases on the disk are a map from users, without those that cannot be opened. A call that waits for the lock
  of the cache gives \<open>None\<close>. How SQLite runs the text of a migration, which of them there are, and which calls
  of \<open>Save\<close> fail are arguments, and so is the order in which a range visits the users. A handle of a database whose migrations fail is
  not closed, which is left out.
\<close>

section \<open>Migrations\<close>

datatype openError = ErrOpen | ErrReadMigrations | ErrReadMigration string | ErrExec string

record migrations =
  migEntries :: "string list option"
  migRead :: "string \<Rightarrow> string option"
  migExec :: "string \<Rightarrow> DB \<Rightarrow> DB option"

fun migrateLoop :: "migrations \<Rightarrow> string list \<Rightarrow> DB \<Rightarrow> openError option \<times> DB" where
  "migrateLoop mg [] db = (None, db)"
| "migrateLoop mg (mig # migs) db =
     (case migRead mg mig of
        None \<Rightarrow> (Some (ErrReadMigration mig), db)
      | Some b \<Rightarrow> (case migExec mg b db of None \<Rightarrow> (Some (ErrExec mig), db) | Some db' \<Rightarrow> migrateLoop mg migs db'))"

definition migrate :: "migrations \<Rightarrow> DB \<Rightarrow> openError option \<times> DB" where
  "migrate mg db =
     (case migEntries mg of None \<Rightarrow> (Some ErrReadMigrations, db) | Some entries \<Rightarrow> migrateLoop mg (sort entries) db)"

section \<open>The cache\<close>

type_synonym metaSub = "string \<times> u32"

record Meta =
  mLocked :: bool
  mSubs :: "string \<rightharpoonup> metaSub"
  mDisk :: "string \<rightharpoonup> DB"

definition newMeta :: "(string \<rightharpoonup> DB) \<Rightarrow> Meta" where
  "newMeta dsk = \<lparr>mLocked = False, mSubs = Map.empty, mDisk = dsk\<rparr>"

definition syncSub :: "DB \<Rightarrow> metaSub" where
  "syncSub db = (case tMeta db of None \<Rightarrow> ([], 0) | Some (lf, offset) \<Rightarrow> (lf, of_int offset))"

definition metaDB :: "migrations \<Rightarrow> string \<Rightarrow> Meta \<Rightarrow> ((openError + metaSub) \<times> Meta) option" where
  "metaDB mg user m =
     (if mLocked m then None
      else Some
        (case mSubs m user of
           Some v \<Rightarrow> (Inr v, m)
         | None \<Rightarrow>
             (case mDisk m user of
                None \<Rightarrow> (Inl ErrOpen, m)
              | Some db \<Rightarrow>
                  (case migrate mg db of
                     (Some err, db') \<Rightarrow> (Inl err, m\<lparr>mDisk := (mDisk m)(user \<mapsto> db')\<rparr>)
                   | (None, db') \<Rightarrow>
                       (Inr (syncSub db'), m\<lparr>mDisk := (mDisk m)(user \<mapsto> db'), mSubs := (mSubs m)(user \<mapsto> syncSub db')\<rparr>)))))"

text \<open>\<open>exec\<close> and \<open>get\<close>: what is done to the database stays done when it fails.\<close>

definition execDB ::
  "migrations \<Rightarrow> string \<Rightarrow> (DB \<Rightarrow> 'r \<times> DB) \<Rightarrow> Meta \<Rightarrow> ((openError + 'r) \<times> Meta) option" where
  "execDB mg user fn m =
     (case metaDB mg user m of
        None \<Rightarrow> None
      | Some (Inl err, m') \<Rightarrow> Some (Inl err, m')
      | Some (Inr v, m') \<Rightarrow>
          (case fn (the (mDisk m' user)) of (r, db) \<Rightarrow> Some (Inr r, m'\<lparr>mDisk := (mDisk m')(user \<mapsto> db)\<rparr>)))"

definition getDB :: "migrations \<Rightarrow> string \<Rightarrow> (DB \<Rightarrow> 'r) \<Rightarrow> Meta \<Rightarrow> ((openError + 'r) \<times> Meta) option" where
  "getDB mg user fn = execDB mg user (\<lambda>db. (fn db, db))"

definition updateSub :: "string \<Rightarrow> metaSub \<Rightarrow> Meta \<Rightarrow> Meta" where
  "updateSub user v m = (if mSubs m user = None then m else m\<lparr>mSubs := (mSubs m)(user \<mapsto> v)\<rparr>)"

definition saveSub :: "(string \<Rightarrow> bool) \<Rightarrow> string \<Rightarrow> Meta \<Rightarrow> bool \<times> Meta" where
  "saveSub saves user m =
     (case (mSubs m user, mDisk m user) of
        (Some (lf, offset), Some db) \<Rightarrow>
          if saves user then (True, m\<lparr>mDisk := (mDisk m)(user \<mapsto> SetMeta lf (uint offset) db)\<rparr>) else (False, m)
      | _ \<Rightarrow> (False, m))"

text \<open>\<open>Meta.Close\<close>. The error of the first call that fails is replaced by the nil error that was there before, and the lock is kept.\<close>

fun closeLoop :: "(string \<Rightarrow> bool) \<Rightarrow> string list \<Rightarrow> string list option \<Rightarrow> Meta \<Rightarrow> string list option \<times> Meta" where
  "closeLoop saves [] err m = (err, m)"
| "closeLoop saves (user # users) err m =
     (case saveSub saves user m of
        (True, m') \<Rightarrow> closeLoop saves users err m'
      | (False, m') \<Rightarrow>
          (case err of
             None \<Rightarrow> closeLoop saves users None m'
           | Some es \<Rightarrow> closeLoop saves users (Some (es @ [user])) m'))"

definition closeMeta :: "(string \<Rightarrow> bool) \<Rightarrow> string list \<Rightarrow> Meta \<Rightarrow> (string list option \<times> Meta) option" where
  "closeMeta saves order m =
     (if mLocked m then None
      else Some
        (case closeLoop saves order None (m\<lparr>mLocked := True\<rparr>) of (err, m') \<Rightarrow> (err, m'\<lparr>mSubs := Map.empty\<rparr>)))"

text \<open>What a process does with it: calls, also of a function on a database, the updates of deliveries, the timer, and the end.\<close>

inductive meta_step :: "migrations \<Rightarrow> Meta \<Rightarrow> Meta \<Rightarrow> bool" for mg where
  db: "metaDB mg user m = Some (r, m') \<Longrightarrow> meta_step mg m m'"
| exe: "execDB mg user (fn :: DB \<Rightarrow> unit \<times> DB) m = Some (r, m') \<Longrightarrow> meta_step mg m m'"
| upd: "meta_step mg m (updateSub user v m)"
| timer: "meta_step mg m (snd (saveSub saves user m))"
| close: "closeMeta saves order m = Some (r, m') \<Longrightarrow> meta_step mg m m'"

inductive_cases meta_stepE: "meta_step mg m m'"

section \<open>Properties\<close>

lemma migrateLoop_append:
  "migrateLoop mg (as @ bs) db = (case migrateLoop mg as db of (Some e, db') \<Rightarrow> (Some e, db') | (None, db') \<Rightarrow> migrateLoop mg bs db')"
  by (induction mg as db rule: migrateLoop.induct) (auto split: option.split)

text \<open>The order in which the migrations are listed does not matter.\<close>

lemma migrate_order: "mset es = mset es' \<Longrightarrow> migrate (mg\<lparr>migEntries := Some es\<rparr>) db = migrate (mg\<lparr>migEntries := Some es'\<rparr>) db"
proof -
  assume "mset es = mset es'"
  then have "sort es = sort es'" by (metis mset_sort properties_for_sort sorted_sort)
  moreover have "migrateLoop (mg\<lparr>migEntries := x\<rparr>) ms db = migrateLoop (mg\<lparr>migEntries := y\<rparr>) ms db" for x y ms db
    by (induction ms arbitrary: db) (auto split: option.split)
  ultimately show ?thesis by (simp add: migrate_def)
qed

definition metaOk :: "Meta \<Rightarrow> bool" where
  "metaOk m \<longleftrightarrow> (\<forall>u. mSubs m u \<noteq> None \<longrightarrow> mDisk m u \<noteq> None) \<and> (mLocked m \<longrightarrow> mSubs m = Map.empty)"

lemma metaDB_open: "metaDB mg user m = Some (Inr v, m') \<Longrightarrow> metaOk m \<Longrightarrow> metaOk m' \<and> mSubs m' user = Some v \<and> mDisk m' user \<noteq> None \<and> \<not> mLocked m'"
  by (auto simp: metaDB_def metaOk_def split: if_splits option.splits prod.splits)

lemma metaDB_ok: "metaDB mg user m = Some (r, m') \<Longrightarrow> metaOk m \<Longrightarrow> metaOk m'"
  by (auto simp: metaDB_def metaOk_def split: if_splits option.splits prod.splits)

lemma saveSub_parts:
  "mSubs (snd (saveSub saves user m)) = mSubs m" "mLocked (snd (saveSub saves user m)) = mLocked m"
  "mDisk (snd (saveSub saves user m)) u = None \<longleftrightarrow> mDisk m u = None"
  by (auto simp: saveSub_def split: option.splits prod.splits)

lemma closeLoop_parts:
  "closeLoop saves us None m = (err, m') \<Longrightarrow>
   err = None \<and> mSubs m' = mSubs m \<and> mLocked m' = mLocked m"
proof (induction us arbitrary: m)
  case (Cons u us)
  then show ?case using saveSub_parts [of saves u m] by (auto split: prod.splits bool.splits)
qed simp

lemma execDB_ok:
  assumes "execDB mg user fn m = Some (r, m')" "metaOk m"
  shows "metaOk m'"
proof -
  obtain r1 m1 where m1: "metaDB mg user m = Some (r1, m1)" using assms(1) by (auto simp: execDB_def split: option.splits)
  have "metaOk m1" using metaDB_ok [OF m1 assms(2)] .
  then show ?thesis using assms(1) m1 by (auto simp: execDB_def metaOk_def split: sum.splits prod.splits)
qed

lemma closeMeta_ok: "closeMeta saves order m = Some (r, m') \<Longrightarrow> metaOk m' \<and> mLocked m'"
  by (auto simp: closeMeta_def metaOk_def dest!: closeLoop_parts split: if_splits prod.splits)

lemma metaOk_step: "metaOk m \<Longrightarrow> meta_step mg m m' \<Longrightarrow> metaOk m'"
proof (erule meta_stepE)
  show "metaOk m'" if "metaOk m" "m' = snd (saveSub saves user m)" for saves user
    using that saveSub_parts [of saves user m] by (simp add: metaOk_def)
  show "metaOk m'" if "metaOk m" "m' = updateSub user v m" for user v
    using that by (auto simp: updateSub_def metaOk_def)
qed (simp_all add: metaDB_ok execDB_ok closeMeta_ok)

lemma metaOk_new: "metaOk (newMeta dsk)"
  by (simp add: metaOk_def newMeta_def)

interpretation cache: transition_system "\<lambda>m. \<exists>dsk. m = newMeta dsk" "meta_step mg" metaOk for mg
  by unfold_locales (auto intro: metaOk_step metaOk_new)

text \<open>What \<open>Close\<close> leaves on the disk.\<close>

lemma closeLoop_disk:
  assumes "closeLoop saves us None m = (err, m')" and "distinct us"
  shows "mDisk m' u = (case (mSubs m u, mDisk m u) of
      (Some (lf, off), Some db) \<Rightarrow> if u \<in> set us \<and> saves u then Some (SetMeta lf (uint off) db) else Some db
    | _ \<Rightarrow> mDisk m u)"
  using assms
proof (induction us arbitrary: m)
  case (Cons w us)
  obtain ok m1 where s: "saveSub saves w m = (ok, m1)" by fastforce
  have "closeLoop saves us None m1 = (err, m')" using Cons.prems(1) s by (cases ok) auto
  note ih = Cons.IH [OF this] 
  have "mSubs m1 = mSubs m" using saveSub_parts(1) [of saves w m] s by simp
  moreover have "mDisk m1 u = (if u = w then (case (mSubs m u, mDisk m u) of
      (Some (lf, off), Some db) \<Rightarrow> if saves u then Some (SetMeta lf (uint off) db) else Some db | _ \<Rightarrow> mDisk m u) else mDisk m u)"
    using s by (auto simp: saveSub_def split: option.splits prod.splits if_splits)
  ultimately show ?case using ih Cons.prems(2) by (auto split: option.splits prod.splits)
qed (auto split: option.split prod.split)

lemma locked_step: "meta_step mg m m' \<Longrightarrow> mLocked m \<Longrightarrow> mLocked m'"
  by (erule meta_stepE) (auto simp: metaDB_def execDB_def closeMeta_def updateSub_def saveSub_parts)

lemma locked_steps: "(meta_step mg)\<^sup>*\<^sup>* m m' \<Longrightarrow> mLocked m \<Longrightarrow> mLocked m'"
  by (induction rule: rtranclp_induct) (auto intro: locked_step)

lemma closeMeta_disk:
  assumes "(meta_step mg)\<^sup>*\<^sup>* (newMeta dsk) m" and "closeMeta saves order m = Some (err, m')"
    and "distinct order" and "set order = dom (mSubs m)" and "mSubs m user = Some v"
  shows "if saves user then \<exists>db. mDisk m' user = Some db \<and> syncSub db = v else mDisk m' user = mDisk m user"
proof -
  have ok: "metaOk m" using cache.reachable_inv [OF _ assms(1)] by blast
  obtain m1 where loop: "closeLoop saves order None (m\<lparr>mLocked := True\<rparr>) = (err, m1)" and m': "m' = m1\<lparr>mSubs := Map.empty\<rparr>"
    using assms(2) by (auto simp: closeMeta_def split: if_splits prod.splits)
  obtain db where db: "mDisk m user = Some db" using ok assms(5) unfolding metaOk_def by force
  have "user \<in> set order" using assms(4,5) by auto
  then show ?thesis
    using closeLoop_disk [OF loop assms(3), of user] assms(5) db m' by (cases v) (auto simp: syncSub_def SetMeta_def)
qed

lemma closeMeta_saved:
  assumes "(meta_step mg)\<^sup>*\<^sup>* (newMeta dsk) m" and "closeMeta saves order m = Some (err, m')"
    and "distinct order" and "set order = dom (mSubs m)" and "mSubs m user = Some v" and "saves user"
  shows "\<exists>db. mDisk m' user = Some db \<and> syncSub db = v"
  using closeMeta_disk [OF assms(1-5)] assms(6) by simp

text \<open>C16: the end of a process: \<open>Close\<close> never reports an error; every user whose cache can be saved has it on the disk, so that the next
  process starts with it, and the databases of the others are as they were; and from then on every call waits for ever.\<close>

theorem close_saves_all:
  assumes "(meta_step mg)\<^sup>*\<^sup>* (newMeta dsk) m" and "closeMeta saves order m = Some (err, m')"
    and "distinct order" and "set order = dom (mSubs m)"
  shows "err = None \<and>
    (\<forall>user v. mSubs m user = Some v \<longrightarrow>
       (if saves user then \<exists>db. mDisk m' user = Some db \<and> syncSub db = v else mDisk m' user = mDisk m user)) \<and>
    (\<forall>m'' user. (meta_step mg)\<^sup>*\<^sup>* m' m'' \<longrightarrow> metaDB mg user m'' = None)"
proof -
  have "mLocked m'" using closeMeta_ok [OF assms(2)] by blast
  then have blocked: "metaDB mg user m'' = None" if "(meta_step mg)\<^sup>*\<^sup>* m' m''" for m'' user
    using locked_steps [OF that] by (simp add: metaDB_def)
  have "err = None" using assms(2) by (auto simp: closeMeta_def dest!: closeLoop_parts split: if_splits prod.splits)
  then show ?thesis using closeMeta_disk [OF assms] blocked by blast
qed

text \<open>A process with the store of one user, which cannot be saved.\<close>

definition noMigrations :: migrations where
  "noMigrations = \<lparr>migEntries = Some [], migRead = \<lambda>_. None, migExec = \<lambda>_ _. None\<rparr>"

theorem close_saves_all_witness:
  "\<exists>m m'. metaDB noMigrations ''bob'' (newMeta [''bob'' \<mapsto> newDB]) = Some (Inr ([], 0), m) \<and>
     closeMeta (\<lambda>_. False) [''bob''] m = Some (None, m') \<and> metaDB noMigrations ''bob'' m' = None"
proof -
  let ?old = "newMeta [''bob'' \<mapsto> newDB]" and ?m = "(newMeta [''bob'' \<mapsto> newDB])\<lparr>mSubs := [''bob'' \<mapsto> ([], 0)]\<rparr>"
  have db: "metaDB noMigrations ''bob'' ?old = Some (Inr ([], 0), ?m)"
    by (simp add: metaDB_def newMeta_def migrate_def noMigrations_def syncSub_def newDB_def)
  obtain err m' where cl: "closeMeta (\<lambda>_. False) [''bob''] ?m = Some (err, m')"
    by (simp add: closeMeta_def newMeta_def saveSub_def)
  have "(meta_step noMigrations)\<^sup>*\<^sup>* ?old ?m" using meta_step.db [OF db] by blast
  from close_saves_all [OF this cl] show ?thesis using db cl by auto
qed

end
