(* ===== verification/Atmail_Config.thy ===== *)
theory Atmail_Config
  imports Relay_Session Relay_Rspamd "HOL-Library.List_Lexorder" "HOL-Library.Char_ord"
begin

text \<open>
  The configuration of the server: \<open>src/config.go\<close>.

  What is read from the disk is an argument: the decoded files, the entries of the directories and
  the working directory are the fields of the record \<open>disk\<close>, with the order in which a range over a
  map visits its keys. A file that is not there, or not valid, is told apart, since the first one
  ends the process. A map that is nil and one that is empty are the same partial function. The
  warnings that are logged are left out.
\<close>

section \<open>State\<close>

record appConfig =
  Directory :: string
  MainDomain :: string
  DomainsFolder :: "string option"
  FiltersFolder :: string
  LearnFolder :: string
  RspamdAddress :: "string option"
  MaxEmailSize :: u32
  ConcurrentSender :: u8
  Password :: PasswordConfig
  appDomains :: "string \<rightharpoonup> Config"

datatype 'a decoded = NotExist | Invalid | Decoded 'a

record disk =
  decodeConfig :: "string \<Rightarrow> appConfig decoded"
  decodeDomain :: "string \<Rightarrow> Config option"
  readDir :: "string \<Rightarrow> (string \<times> bool) list option"
  readSource :: "string \<Rightarrow> string option"
  Getwd :: "string option"
  keys :: "string set \<Rightarrow> string list"

datatype configError =
    ExitStatus nat | ErrDecode | ErrReadDir | ErrReadFile | ErrGetwd | ErrNoAuth string | ErrManyAuths string | ErrTwoKeys string
  | ErrReserved string | ErrDefinedTwice string | ErrPassword passwordError | ErrConnect string | ErrFilter parseError | NeverReturns

section \<open>Parsing\<close>

text \<open>\<open>strings.Cut\<close> with a separator of several bytes.\<close>

fun cutAt :: "string \<Rightarrow> string \<Rightarrow> string \<times> string \<times> bool" where
  "cutAt [] sep = (if sep = [] then ([], [], True) else ([], [], False))"
| "cutAt (c # s) sep =
     (if has_prefix (c # s) sep then ([], drop (length sep) (c # s), True)
      else case cutAt s sep of (bef, aft, found) \<Rightarrow> (c # bef, aft, found))"

text \<open>The files of the folder of domains: the name of a file is that of its domain and \<open>.toml\<close>.\<close>

fun loadDomains :: "disk \<Rightarrow> string \<Rightarrow> (string \<times> bool) list \<Rightarrow> (string \<rightharpoonup> Config) \<Rightarrow> configError + (string \<rightharpoonup> Config)" where
  "loadDomains dsk folder [] ds = Inr ds"
| "loadDomains dsk folder ((name, isDir) # entries) ds =
     (case cutAt name ''.toml'' of
        (d, rest, ok) \<Rightarrow>
          if \<not> ok \<or> isDir \<or> length rest \<noteq> 0 then loadDomains dsk folder entries ds
          else
            case decodeDomain dsk (pathJoin [folder, name]) of
              None \<Rightarrow> Inl ErrDecode
            | Some cfg \<Rightarrow> loadDomains dsk folder entries (ds(d \<mapsto> cfg)))"

definition twoKeys :: "Crypto \<Rightarrow> bool" where
  "twoKeys c \<longleftrightarrow> PGPPubKey c \<noteq> None \<and> PGPPubKeyFile c \<noteq> None"

definition checkUser :: "string \<Rightarrow> Admin \<Rightarrow> StaticConfig \<Rightarrow> string \<Rightarrow> configError option" where
  "checkUser domain admin st u =
     (if u \<noteq> adminUser admin \<and> u \<in> set AdminEmails then Some (ErrReserved domain)
      else if SystemUsers st u \<noteq> None then Some (ErrDefinedTwice domain)
      else if staticGroups st u \<noteq> None then Some (ErrDefinedTwice domain)
      else if (case Users st u of None \<Rightarrow> False | Some v \<Rightarrow> twoKeys (staticCrypto v)) then Some (ErrTwoKeys domain)
      else None)"

fun firstError :: "('a \<Rightarrow> configError option) \<Rightarrow> 'a list \<Rightarrow> configError option" where
  "firstError f [] = None"
| "firstError f (x # xs) = (case f x of Some e \<Rightarrow> Some e | None \<Rightarrow> firstError f xs)"

definition checkDomain :: "disk \<Rightarrow> string \<Rightarrow> Config \<Rightarrow> configError option" where
  "checkDomain dsk domain d =
     (if cfgDen d = None \<and> Static d = None \<and> catchAll d = None then Some (ErrNoAuth domain)
      else if (cfgDen d \<noteq> None \<and> Static d \<noteq> None) \<or> (cfgDen d \<noteq> None \<and> catchAll d \<noteq> None) \<or>
              (catchAll d \<noteq> None \<and> Static d \<noteq> None) then Some (ErrManyAuths domain)
      else if (case catchAll d of None \<Rightarrow> False | Some ca \<Rightarrow> twoKeys (catchCrypto ca)) then Some (ErrTwoKeys domain)
      else case Static d of
             None \<Rightarrow> None
           | Some st \<Rightarrow> firstError (checkUser domain (cfgAdmin d) st) (keys dsk (dom (Users st))))"

definition absolute :: "string \<Rightarrow> string \<Rightarrow> string" where
  "absolute base p = (if \<not> has_prefix p ''/'' then pathJoin [base, p] else p)"

definition ParseConfig :: "disk \<Rightarrow> string \<Rightarrow> configError + appConfig" where
  "ParseConfig dsk p =
     (case decodeConfig dsk p of
        NotExist \<Rightarrow> Inl (ExitStatus 1)
      | Invalid \<Rightarrow> Inl ErrDecode
      | Decoded cfg \<Rightarrow>
          let loaded =
            (case DomainsFolder cfg of
               None \<Rightarrow> Inr (appDomains cfg)
             | Some folder \<Rightarrow>
                 (case readDir dsk folder of
                    None \<Rightarrow> Inl ErrReadDir
                  | Some entries \<Rightarrow> loadDomains dsk folder entries (appDomains cfg)))
          in case loaded of
               Inl e \<Rightarrow> Inl e
             | Inr ds \<Rightarrow>
                 (case firstError (\<lambda>d. checkDomain dsk d (the (ds d))) (keys dsk (dom ds)) of
                    Some e \<Rightarrow> Inl e
                  | None \<Rightarrow>
                      (case Getwd dsk of
                         None \<Rightarrow> Inl ErrGetwd
                       | Some base \<Rightarrow>
                           Inr (cfg\<lparr>appDomains := ds, MaxEmailSize := MaxEmailSize cfg * 1024,
                                    Directory := absolute base (Directory cfg),
                                    FiltersFolder := (if FiltersFolder cfg = [] then [] else absolute base (FiltersFolder cfg))\<rparr>))))"

section \<open>Loading\<close>

text \<open>\<open>Config.ParseFilters\<close>: the filters in the order of the directory.\<close>

fun loadFilters :: "disk \<Rightarrow> string \<Rightarrow> (string \<times> bool) list \<Rightarrow> configError + (string \<times> stmt list) list" where
  "loadFilters dsk folder [] = Inr []"
| "loadFilters dsk folder ((name, isDir) # entries) =
     (if isDir then loadFilters dsk folder entries
      else
        case readSource dsk (pathJoin [folder, name]) of
          None \<Rightarrow> Inl ErrReadFile
        | Some src \<Rightarrow>
            (case Parse src of
               None \<Rightarrow> Inl NeverReturns
             | Some (ss, Some e) \<Rightarrow> Inl (ErrFilter e)
             | Some (ss, None) \<Rightarrow>
                 (case loadFilters dsk folder entries of Inl e \<Rightarrow> Inl e | Inr fs \<Rightarrow> Inr ((name, ss) # fs))))"

definition ParseFilters :: "disk \<Rightarrow> appConfig \<Rightarrow> configError + (string \<times> stmt list) list" where
  "ParseFilters dsk cfg =
     (case readDir dsk (FiltersFolder cfg) of None \<Rightarrow> Inl ErrReadDir | Some entries \<Rightarrow> loadFilters dsk (FiltersFolder cfg) entries)"

text \<open>\<open>LoadConfig\<close>; \<open>connect\<close> tells which account services answer. The result has the domains whose service is
  connected, also after an error: nothing closes them then.\<close>

definition usesDen :: "(string \<rightharpoonup> Config) \<Rightarrow> string \<Rightarrow> bool" where
  "usesDen ds d = (case ds d of None \<Rightarrow> False | Some cfg \<Rightarrow> cfgDen cfg \<noteq> None)"

fun connectAll :: "(string \<Rightarrow> bool) \<Rightarrow> string list \<Rightarrow> configError option \<times> string list" where
  "connectAll connect [] = (None, [])"
| "connectAll connect (d # ds) =
     (if connect d then (case connectAll connect ds of (e, up) \<Rightarrow> (e, d # up)) else (Some (ErrConnect d), []))"

definition LoadConfig ::
  "disk \<Rightarrow> hashers \<Rightarrow> (string \<Rightarrow> bool) \<Rightarrow> PasswordDefaults \<Rightarrow> string \<Rightarrow>
   (configError + appConfig \<times> (string \<times> stmt list) list) \<times> PasswordDefaults \<times> string list" where
  "LoadConfig dsk h connect ds p =
     (case ParseConfig dsk p of
        Inl e \<Rightarrow> (Inl e, ds, [])
      | Inr cfg \<Rightarrow>
          (case Load h (Password cfg) ds of
             (Some e, ds') \<Rightarrow> (Inl (ErrPassword e), ds', [])
           | (None, ds') \<Rightarrow>
               (case connectAll connect (filter (usesDen (appDomains cfg)) (keys dsk (dom (appDomains cfg)))) of
                  (Some e, up) \<Rightarrow> (Inl e, ds', up)
                | (None, up) \<Rightarrow>
                    (case ParseFilters dsk cfg of
                       Inl e \<Rightarrow> (Inl e, ds', up)
                     | Inr fs \<Rightarrow> (Inr (cfg, fs), ds', up)))))"

section \<open>Properties\<close>

lemma firstError_None: "firstError f xs = None \<longleftrightarrow> (\<forall>x \<in> set xs. f x = None)"
  by (induction xs) (auto split: option.split)

text \<open>What the checks promise of the configuration of a domain: they are about the kind of its accounts, its users and the
  keys of its users or of the user that catches all. Names that a system user shares with a group, reserved names of these
  and the keys of the administrator are not checked (\<open>unchecked_names\<close> below).\<close>

definition domainChecked :: "Config \<Rightarrow> bool" where
  "domainChecked c \<longleftrightarrow>
     length (filter id [Static c \<noteq> None, catchAll c \<noteq> None, cfgDen c \<noteq> None]) = 1 \<and>
     (\<forall>ca. catchAll c = Some ca \<longrightarrow> \<not> twoKeys (catchCrypto ca)) \<and>
     (\<forall>st. Static c = Some st \<longrightarrow>
        dom (Users st) \<inter> (dom (SystemUsers st) \<union> dom (staticGroups st)) = {} \<and>
        dom (Users st) \<inter> set AdminEmails \<subseteq> {adminUser (cfgAdmin c)} \<and>
        (\<forall>v \<in> ran (Users st). \<not> twoKeys (staticCrypto v)))"

lemma checkUser_ok:
  "checkUser domain admin st u = None \<longleftrightarrow>
     (u \<in> set AdminEmails \<longrightarrow> u = adminUser admin) \<and> u \<notin> dom (SystemUsers st) \<and> u \<notin> dom (staticGroups st) \<and>
     (\<forall>v. Users st u = Some v \<longrightarrow> \<not> twoKeys (staticCrypto v))"
  by (auto simp: checkUser_def domIff split: option.split)

lemma checkDomain_ok:
  assumes "\<forall>S. finite S \<longrightarrow> set (keys dsk S) = S" and "checkDomain dsk domain c = None"
    and "\<forall>st. Static c = Some st \<longrightarrow> finite (dom (Users st))"
  shows "domainChecked c"
proof -
  have one: "length (filter id [Static c \<noteq> None, catchAll c \<noteq> None, cfgDen c \<noteq> None]) = 1"
    and keys: "\<forall>ca. catchAll c = Some ca \<longrightarrow> \<not> twoKeys (catchCrypto ca)"
    using assms(2) by (auto simp: checkDomain_def split: if_splits option.splits)
  have user: "(u \<in> set AdminEmails \<longrightarrow> u = adminUser (cfgAdmin c)) \<and> u \<notin> dom (SystemUsers st) \<and> u \<notin> dom (staticGroups st) \<and>
      \<not> twoKeys (staticCrypto v)" if "Static c = Some st" "Users st u = Some v" for st u v
  proof -
    have "u \<in> set (keys dsk (dom (Users st)))" using assms(1,3) that by auto
    then have "checkUser domain (cfgAdmin c) st u = None"
      using assms(2) that(1) by (auto simp: checkDomain_def firstError_None split: if_splits option.splits)
    then show ?thesis using that(2) by (simp add: checkUser_ok)
  qed
  have "dom (Users st) \<inter> (dom (SystemUsers st) \<union> dom (staticGroups st)) = {} \<and>
        dom (Users st) \<inter> set AdminEmails \<subseteq> {adminUser (cfgAdmin c)} \<and>
        (\<forall>v \<in> ran (Users st). \<not> twoKeys (staticCrypto v))" if "Static c = Some st" for st
    using user [OF that] by (fastforce simp: ran_def)
  then show ?thesis unfolding domainChecked_def using one keys by blast
qed

lemma ParseConfig_checked:
  assumes "ParseConfig dsk p = Inr cfg"
  shows "\<forall>d \<in> set (keys dsk (dom (appDomains cfg))). checkDomain dsk d (the (appDomains cfg d)) = None"
proof -
  obtain c ds base where "appDomains cfg = ds" "firstError (\<lambda>d. checkDomain dsk d (the (ds d))) (keys dsk (dom ds)) = None"
    using assms by (auto simp: ParseConfig_def Let_def split: decoded.splits sum.splits option.splits)
  then show ?thesis by (simp add: firstError_None)
qed

text \<open>Nothing is checked of the system users, the groups and the administrator: with no users, every
  configuration of accounts in the file passes.\<close>

lemma unchecked_names:
  assumes "Static c = Some st" and "catchAll c = None" and "cfgDen c = None" and "Users st = Map.empty" and "keys dsk {} = []"
  shows "checkDomain dsk domain c = None"
  using assms by (simp add: checkDomain_def)

text \<open>C18: a configuration that is parsed has what the checks are for: every domain has exactly one kind of
  accounts; none of the users of a domain has the name of one of its system users, of one of its groups or, unless it is the
  administrator, a reserved name; and no user, nor the user that catches all, has two keys. Every domain whose user to catch
  all has no \<open>@\<close> in the name is then one for which logins stay in their domain.\<close>

theorem parsed_config_ok:
  assumes "\<forall>S. finite S \<longrightarrow> set (keys dsk S) = S" and "ParseConfig dsk p = Inr cfg"
    and "finite (dom (appDomains cfg))" and "appDomains cfg d = Some c"
    and "\<forall>st. Static c = Some st \<longrightarrow> finite (dom (Users st))"
  shows "domainChecked c \<and> ((\<forall>ca. catchAll c = Some ca \<longrightarrow> CHR ''@'' \<notin> set (catchUser ca)) \<longrightarrow> configOk c)"
proof -
  have "d \<in> set (keys dsk (dom (appDomains cfg)))" using assms(1,3,4) by auto
  then have "checkDomain dsk d c = None" using ParseConfig_checked [OF assms(2)] assms(4) by force
  from checkDomain_ok [OF assms(1) this assms(5)] show ?thesis
    by (auto simp: configOk_def domainChecked_def split: option.splits if_splits)
qed

text \<open>The configuration of a server with one domain, in a file of its own.\<close>

definition demoApp :: appConfig where
  "demoApp = \<lparr>Directory = ''/var/mail'', MainDomain = ''a.org'', DomainsFolder = Some ''/etc/d'', FiltersFolder = ''/etc/f'', LearnFolder = [],
     RspamdAddress = None, MaxEmailSize = 16416, ConcurrentSender = 3,
     Password = \<lparr>pwDefault = None, pwBcrypt = None, pwArgon2id = None, pwScrypt = None\<rparr>, appDomains = Map.empty\<rparr>"

definition demoDisk :: disk where
  "demoDisk = \<lparr>decodeConfig = \<lambda>_. Decoded demoApp, decodeDomain = \<lambda>_. Some demoConfig,
     readDir = [''/etc/d'' \<mapsto> [(''a.org.toml'', False)], ''/etc/f'' \<mapsto> [(''spam'', False)]],
     readSource = \<lambda>_. Some ''header = header'', Getwd = Some ''/'', keys = sorted_list_of_set\<rparr>"

lemma demo_parsed: "ParseConfig demoDisk [] = Inr (demoApp\<lparr>appDomains := [''a.org'' \<mapsto> demoConfig], MaxEmailSize := 16809984\<rparr>)"
  by (simp add: ParseConfig_def demoDisk_def demoApp_def Let_def checkDomain_def demoConfig_def checkUser_def AdminEmails_def noCrypto_def
      twoKeys_def absolute_def)

theorem parsed_config_ok_witness: "domainChecked demoConfig \<and> configOk demoConfig"
proof -
  have "\<forall>S. finite S \<longrightarrow> set (keys demoDisk S) = S" by (simp add: demoDisk_def)
  from parsed_config_ok [OF this demo_parsed, of "''a.org''" demoConfig] show ?thesis by (simp add: demoConfig_def)
qed

text \<open>the limit on the size of a mail is given in kibibytes and kept in bytes, at 32 bits: it is the
  one that was meant exactly when that is less than four gibibytes, and otherwise what is left of it
  modulo four gibibytes.\<close>

theorem max_size_wraps:
  assumes "decodeConfig dsk p = Decoded c0" and "ParseConfig dsk p = Inr cfg"
  shows "unat (MaxEmailSize cfg) = unat (MaxEmailSize c0) * 1024 mod 2 ^ 32 \<and>
    (unat (MaxEmailSize cfg) = unat (MaxEmailSize c0) * 1024 \<longleftrightarrow> unat (MaxEmailSize c0) < 2 ^ 22)"
proof -
  have "MaxEmailSize cfg = MaxEmailSize c0 * 1024"
    using assms by (auto simp: ParseConfig_def Let_def split: sum.splits option.splits)
  then have size: "unat (MaxEmailSize cfg) = unat (MaxEmailSize c0) * 1024 mod 2 ^ 32" by (simp add: unat_word_ariths)
  then show ?thesis using div_less_iff_less_mult [of 1024 "2 ^ 32" "unat (MaxEmailSize c0)"] by (auto simp: mod_eq_self_iff_div_eq_0)
qed

theorem max_size_wraps_witness: "unat (MaxEmailSize (demoApp\<lparr>appDomains := [''a.org'' \<mapsto> demoConfig], MaxEmailSize := 16809984\<rparr>)) = 16416 * 1024"
  using max_size_wraps [OF _ demo_parsed, of demoApp] by (simp add: demoDisk_def demoApp_def)

lemma loadFilters_parsed:
  "loadFilters dsk folder entries = Inr fs \<Longrightarrow> (name, ss) \<in> set fs \<Longrightarrow>
   \<exists>src. readSource dsk (pathJoin [folder, name]) = Some src \<and> Parse src = Some (ss, None)"
proof (induction entries arbitrary: fs)
  case (Cons e entries)
  then show ?case by (cases e) (auto split: if_splits option.splits sum.splits)
qed simp

lemma loadFilters_returns: "loadFilters dsk folder entries \<noteq> Inl NeverReturns"
proof (induction entries)
  case (Cons e entries)
  obtain name isDir where e: "e = (name, isDir)" by fastforce
  show ?case
  proof (cases "readSource dsk (pathJoin [folder, name])")
    case (Some src)
    then show ?thesis using Cons by (cases rule: Parse_cases [of src]) (auto simp: e split: option.split sum.split)
  qed (use Cons in \<open>simp add: e\<close>)
qed simp

lemma firstError_Some: "firstError f xs = Some e \<Longrightarrow> \<exists>x. f x = Some e"
  by (induction xs) (auto split: option.splits)

lemma loadDomains_returns: "loadDomains dsk folder entries ds \<noteq> Inl NeverReturns"
proof (induction entries arbitrary: ds)
  case (Cons e entries)
  then show ?case by (cases e) (auto split: option.splits prod.splits)
qed simp

lemma ParseConfig_returns: "ParseConfig dsk p \<noteq> Inl NeverReturns"
proof -
  have "checkUser d a st u \<noteq> Some NeverReturns" for d a st u by (simp add: checkUser_def)
  then have "checkDomain dsk d c \<noteq> Some NeverReturns" for d c
    by (auto simp: checkDomain_def dest!: firstError_Some split: option.splits)
  then show ?thesis using loadDomains_returns
    by (auto simp: ParseConfig_def Let_def dest!: firstError_Some split: decoded.splits sum.splits option.splits)
qed

lemma LoadConfig_cases:
  assumes "LoadConfig dsk h connect ds p = (res, ds', up)"
  shows "res \<noteq> Inl NeverReturns" "res = Inr (cfg, fs) \<Longrightarrow> ParseFilters dsk cfg = Inr fs \<and> ParseConfig dsk p = Inr cfg"
proof -
  have "connectAll connect xs \<noteq> (Some NeverReturns, up)" for xs up
    by (induction xs arbitrary: up) (auto split: prod.splits)
  moreover have "ParseFilters dsk c \<noteq> Inl NeverReturns" for c
    using loadFilters_returns by (auto simp: ParseFilters_def split: option.splits)
  ultimately show "res \<noteq> Inl NeverReturns" "res = Inr (cfg, fs) \<Longrightarrow> ParseFilters dsk cfg = Inr fs \<and> ParseConfig dsk p = Inr cfg"
    using assms ParseConfig_returns [of dsk p] by (auto simp: LoadConfig_def split: sum.splits option.splits prod.splits)
qed


definition demoHashers :: hashers where
  "demoHashers = \<lparr>argonHash = \<lambda>_. True, scryptHash = \<lambda>_. True, bcryptHash = \<lambda>_. True\<rparr>"

abbreviation demoFilter :: "stmt list" where
  "demoFilter \<equiv> [ExpressionStatement (OperatorExpression ''='' (Variable ''header'') (Variable ''header''))]"


text \<open>a server without a folder of filters does not start: the folder that is not set is still
  read, and \<open>os.ReadDir\<close> of no name is an error.\<close>

theorem no_filters_no_start:
  assumes "readDir dsk [] = None" and "\<And>cfg. ParseConfig dsk p = Inr cfg \<Longrightarrow> FiltersFolder cfg = []"
  shows "\<exists>e. fst (LoadConfig dsk h connect ds p) = Inl e"
  using assms by (auto simp: LoadConfig_def ParseFilters_def split: sum.split option.split prod.split)

theorem no_filters_no_start_witness:
  "\<exists>e. fst (LoadConfig (demoDisk\<lparr>decodeConfig := \<lambda>_. Decoded (demoApp\<lparr>FiltersFolder := []\<rparr>)\<rparr>) demoHashers (\<lambda>_. True) passwordDefaults []) = Inl e"
  by (rule no_filters_no_start)
    (auto simp: demoDisk_def ParseConfig_def demoApp_def Let_def split: sum.splits option.splits)

text \<open>a file named \<open>.toml\<close> in the folder of domains makes the server an open relay: it configures the
  domain without a name, the empty sender is then an address of this server, and that of a
  session that has not logged in, so that recipients of other servers are accepted.\<close>

theorem nameless_domain_opens_relay:
  assumes "decodeDomain dsk (pathJoin [folder, ''.toml'']) = Some c"
    and "loadDomains dsk folder [(''.toml'', False)] ds = Inr (Domains b)" and "Domains b (domainOf to) = None"
  shows "case smtpRun w b [MailCommand [], RcptCommand to] of
    (refused, s) \<Rightarrow> \<not> refused \<and> username s = [] \<and> (\<exists>r. sTo s = [r] \<and> rAddress r = to \<and> \<not> rLocal r)"
proof -
  have "Domains b = ds([] \<mapsto> c)" using assms(1,2) by simp
  then have "Domains b [] = Some c" by simp
  with assms(3) show ?thesis
    by (simp add: smtpRun_def Mail_def newSession_def domainOf_def RcptCmd_def rcpt_def noRcpt_def)
qed

theorem nameless_domain_opens_relay_witness:
  "case smtpRun emptyWorld \<lparr>Domains = [[] \<mapsto> demoConfig], Rspamd = None, Filters = []\<rparr>
      [MailCommand [], RcptCommand ''x@b.org''] of
    (refused, s) \<Rightarrow> \<not> refused \<and> username s = [] \<and> (\<exists>r. sTo s = [r] \<and> rAddress r = ''x@b.org'' \<and> \<not> rLocal r)"
  by (rule nameless_domain_opens_relay [where dsk = demoDisk and folder = "''/etc/d''" and ds = Map.empty and c = demoConfig])
    (simp_all add: demoDisk_def domainOf_def)

end
