(* ===== verification/Mailbox_View.thy ===== *)
theory Mailbox_View
  imports Atmail_Prelude
begin

text \<open>
  The view the sessions of a user share of a mailbox: \<open>src/mailbox/view.go\<close>.

  A writer is a number, and what it does with an update, accept it or fail, is an argument. The
  range over the map of writers visits them in the order of the list. Each writer has a channel
  for one error: \<open>vPending\<close> holds the writers whose error has not been received, and a second
  error for the same writer blocks the call, which then keeps the lock it reads under for ever.
  \<open>vStuck\<close> counts the calls that never return. A call that wants to write waits for those that
  hold the lock, and once one waits (\<open>vWaiting\<close>) no other gets the lock, even to read.
\<close>

record View =
  vID :: u32
  vName :: string
  vCount :: u32
  vWriters :: "nat list"
  vPending :: "nat set"
  vStuck :: nat
  vWaiting :: bool

definition NewView :: "u32 \<Rightarrow> string \<Rightarrow> u32 \<Rightarrow> View" where
  "NewView i name n = \<lparr>vID = i, vName = name, vCount = n, vWriters = [], vPending = {}, vStuck = 0, vWaiting = False\<rparr>"

datatype update =
    NumMessages u32
  | Expunged u32
  | MailboxFlags "string list"
  | MessageFlags u32 u32 "string list"

text \<open>\<open>Idle\<close>: a writer is added under the lock, an error may be received for it, and it is removed
  under the lock when its session stops waiting.\<close>

definition withLock :: "(View \<Rightarrow> View) \<Rightarrow> View \<Rightarrow> View" where
  "withLock f v = (if 0 < vStuck v then v\<lparr>vStuck := Suc (vStuck v), vWaiting := True\<rparr> else f v)"

definition idleStart :: "nat \<Rightarrow> View \<Rightarrow> View" where
  "idleStart w = withLock (\<lambda>v. v\<lparr>vWriters := vWriters v @ [w]\<rparr>)"

definition idleReceive :: "nat \<Rightarrow> View \<Rightarrow> View" where
  "idleReceive w v = v\<lparr>vPending := vPending v - {w}\<rparr>"

definition idleEnd :: "nat \<Rightarrow> View \<Rightarrow> View" where
  "idleEnd w = withLock (\<lambda>v. v\<lparr>vWriters := removeAll w (vWriters v), vPending := vPending v - {w}\<rparr>)"

text \<open>What ends the wait: the context of the session, its client, or an error for its writer; and whether \<open>Idle\<close> returns an error.\<close>

datatype wake = CtxDone | Stopped | ErrReceived

definition idleWake :: "nat \<Rightarrow> wake \<Rightarrow> View \<Rightarrow> bool \<times> View" where
  "idleWake w x v =
     (case x of
        CtxDone \<Rightarrow> (True, idleEnd w v)
      | Stopped \<Rightarrow> (False, idleEnd w v)
      | ErrReceived \<Rightarrow> (True, idleEnd w (idleReceive w v)))"

definition sendError :: "nat \<Rightarrow> View \<Rightarrow> View" where
  "sendError w v =
     (if w \<in> vPending v then v\<lparr>vStuck := Suc (vStuck v)\<rparr> else v\<lparr>vPending := insert w (vPending v)\<rparr>)"

text \<open>A loop over the writers, with what it does to the count and sends before each: it stops at
  the first writer that fails.\<close>

fun writeEach :: "(nat \<Rightarrow> update \<Rightarrow> bool) \<Rightarrow> (u32 \<Rightarrow> u32 \<times> update) \<Rightarrow> nat list \<Rightarrow> View \<Rightarrow> View \<times> (nat \<times> update) list" where
  "writeEach accepts f [] v = (v, [])"
| "writeEach accepts f (w # ws) v =
     (case f (vCount v) of
        (n, u) \<Rightarrow>
          let v' = v\<lparr>vCount := n\<rparr> in
          if \<not> accepts w u then (sendError w v', [(w, u)])
          else case writeEach accepts f ws v' of (v'', us) \<Rightarrow> (v'', (w, u) # us))"

definition withRLock :: "(View \<Rightarrow> View \<times> (nat \<times> update) list) \<Rightarrow> View \<Rightarrow> View \<times> (nat \<times> update) list" where
  "withRLock f v = (if vWaiting v then (v\<lparr>vStuck := Suc (vStuck v)\<rparr>, []) else f v)"

definition WriteNewMessages :: "(nat \<Rightarrow> update \<Rightarrow> bool) \<Rightarrow> u32 \<Rightarrow> View \<Rightarrow> View \<times> (nat \<times> update) list" where
  "WriteNewMessages accepts n = withRLock (\<lambda>v. writeEach accepts (\<lambda>c. (c + n, NumMessages (c + n))) (vWriters v) v)"

definition WriteExpunge :: "(nat \<Rightarrow> update \<Rightarrow> bool) \<Rightarrow> u32 \<Rightarrow> View \<Rightarrow> View \<times> (nat \<times> update) list" where
  "WriteExpunge accepts seq = withRLock (\<lambda>v. writeEach accepts (\<lambda>c. (c, Expunged seq)) (vWriters v) v)"

definition WriteMailboxFlags :: "(nat \<Rightarrow> update \<Rightarrow> bool) \<Rightarrow> string list \<Rightarrow> View \<Rightarrow> View \<times> (nat \<times> update) list" where
  "WriteMailboxFlags accepts fs = withRLock (\<lambda>v. writeEach accepts (\<lambda>c. (c, MailboxFlags fs)) (vWriters v) v)"

definition WriteMessageFlags ::
  "(nat \<Rightarrow> update \<Rightarrow> bool) \<Rightarrow> u32 \<Rightarrow> u32 \<Rightarrow> string list \<Rightarrow> View \<Rightarrow> View \<times> (nat \<times> update) list" where
  "WriteMessageFlags accepts i seq fs = withRLock (\<lambda>v. writeEach accepts (\<lambda>c. (c, MessageFlags seq i fs)) (vWriters v) v)"

lemma writeEach_count:
  assumes "\<forall>w \<in> set ws. \<forall>u. accepts w u"
  shows "writeEach accepts (\<lambda>c. (c + n, NumMessages (c + n))) ws v =
    (v\<lparr>vCount := vCount v + of_nat (length ws) * n\<rparr>,
     zip ws (map (\<lambda>k. NumMessages (vCount v + of_nat (Suc k) * n)) [0..<length ws]))"
  using assms
proof (induction ws arbitrary: v)
  case (Cons w ws)
  have "map (\<lambda>k. NumMessages (vCount v + n + of_nat (Suc k) * n)) [0..<length ws] =
      map (\<lambda>k. NumMessages (vCount v + of_nat (Suc k) * n)) [Suc 0..<Suc (length ws)]"
    unfolding map_Suc_upt [symmetric] map_map comp_def by (simp add: algebra_simps)
  then show ?case using Cons by (simp add: upt_conv_Cons algebra_simps del: upt_Suc)
qed simp

lemma writeEach_keeps:
  "(\<And>c. fst (f c) = c) \<Longrightarrow> vCount (fst (writeEach accepts f ws v)) = vCount v \<and>
   vID (fst (writeEach accepts f ws v)) = vID v \<and> vName (fst (writeEach accepts f ws v)) = vName v \<and>
   vWriters (fst (writeEach accepts f ws v)) = vWriters v"
  by (induction ws arbitrary: v) (simp_all add: sendError_def Let_def split_beta)

section \<open>Properties\<close>

text \<open>A wait that ends leaves nothing of its writer, unless a call is stuck.\<close>

lemma idleWake_removes:
  assumes "vStuck v = 0"
  shows "w \<notin> set (vWriters (snd (idleWake w x v))) \<and> w \<notin> vPending (snd (idleWake w x v)) \<and>
    set (vWriters (snd (idleWake w x v))) = set (vWriters v) - {w}"
  using assms by (cases x) (auto simp: idleWake_def idleEnd_def idleReceive_def withLock_def)

text \<open>the count of a view grows with its listeners: one new message is added to the count once
  for every writer that waits, each is told another number, and with none the count is not
  changed.\<close>

theorem count_per_writer:
  assumes "\<forall>w \<in> set (vWriters v). \<forall>u. accepts w u" and "\<not> vWaiting v"
  shows "vCount (fst (WriteNewMessages accepts n v)) = vCount v + of_nat (length (vWriters v)) * n \<and>
    map snd (snd (WriteNewMessages accepts n v)) =
      map (\<lambda>k. NumMessages (vCount v + of_nat (Suc k) * n)) [0..<length (vWriters v)]"
  using writeEach_count [OF assms(1)] assms(2) by (simp add: WriteNewMessages_def withRLock_def)

theorem count_per_writer_witness:
  "vCount (fst (WriteNewMessages (\<lambda>_ _. True) 1 (idleStart 1 (idleStart 0 (NewView 1 ''INBOX'' 5))))) = 7"
  using count_per_writer [of "idleStart 1 (idleStart 0 (NewView 1 ''INBOX'' 5))" "\<lambda>_ _. True" 1]
  by (simp add: idleStart_def withLock_def NewView_def)

text \<open>a second error for a session that has not taken the first blocks its sender for ever; when
  the session then stops waiting it blocks too, and after that no call on the view returns: each
  one more is stuck, whatever it is.\<close>

theorem view_deadlock:
  assumes "vWriters v = w # ws" and "w \<in> vPending v" and "\<forall>u. \<not> accepts w u" and "\<not> vWaiting v"
  shows "let v' = idleEnd w (fst (WriteExpunge accepts seq v)) in
    vStuck v' = vStuck v + 2 \<and> w \<in> set (vWriters v') \<and>
    vStuck (fst (WriteNewMessages accepts' n v')) = Suc (vStuck v') \<and>
    vStuck (fst (WriteMailboxFlags accepts' fs v')) = Suc (vStuck v') \<and>
    vStuck (idleStart x v') = Suc (vStuck v')"
  using assms
  by (simp add: WriteExpunge_def WriteNewMessages_def WriteMailboxFlags_def withRLock_def idleEnd_def idleStart_def
      withLock_def sendError_def Let_def)

theorem view_deadlock_witness:
  "let v = fst (WriteExpunge (\<lambda>_ _. False) 1 (idleStart 0 (NewView 1 ''INBOX'' 5)));
       v' = idleEnd 0 (fst (WriteExpunge (\<lambda>_ _. False) 1 v))
   in vStuck v' = 2 \<and> vStuck (idleStart 1 v') = 3"
  using view_deadlock [of "fst (WriteExpunge (\<lambda>_ _. False) 1 (idleStart 0 (NewView 1 ''INBOX'' 5)))" 0 "[]" "\<lambda>_ _. False" 1]
  by (simp add: WriteExpunge_def withRLock_def idleStart_def withLock_def NewView_def sendError_def Let_def)

end
