(* ===== verification/Rate_Limiter.thy ===== *)
theory Rate_Limiter
  imports Atmail_Prelude "HOL-Library.Multiset"
begin

text \<open>
  The rate limiter of logins: \<open>src/auth/ratelimit.go\<close>.

  The objects \<open>Limited\<close> are in a store, since the map of the limiter and the goroutines of
  \<open>increase\<close> share them; a channel is a number, and \<open>closed\<close> holds those that are closed. A
  goroutine of \<open>increase\<close> has not started, or waits in its first or in its second \<open>select\<close>
  for its timer or for the channel it read there. The step relation interleaves the calls of
  the servers, which hold the lock, with the goroutines, which do not; a goroutine runs from one
  \<open>select\<close> to the next in one step, and so does the loop of the listener on one connection.
\<close>

section \<open>State\<close>

record Limited =
  lim :: bool
  lip :: string
  cancel :: "nat option"
  lacc :: u32

datatype phase = Start | Wait1 nat u32 | Wait2 nat u32

datatype crash = CloseNil | CloseClosed | BadRandom

record RateLimiter =
  entries :: "string \<rightharpoonup> nat"
  objs :: "nat \<Rightarrow> Limited"
  nextObj :: nat
  closed :: "nat set"
  nextChan :: nat
  gos :: "(nat \<times> phase) multiset"
  crashed :: "crash option"

definition noLimited :: Limited where
  "noLimited = \<lparr>lim = False, lip = [], cancel = None, lacc = 0\<rparr>"

definition NewRateLimiter :: RateLimiter where
  "NewRateLimiter = \<lparr>entries = Map.empty, objs = \<lambda>_. noLimited, nextObj = 0, closed = {}, nextChan = 0,
     gos = {#}, crashed = None\<rparr>"

definition setObj :: "nat \<Rightarrow> (Limited \<Rightarrow> Limited) \<Rightarrow> RateLimiter \<Rightarrow> RateLimiter" where
  "setObj i f r = r\<lparr>objs := (objs r)(i := f (objs r i))\<rparr>"

section \<open>Operations\<close>

definition IsLimited :: "string \<Rightarrow> RateLimiter \<Rightarrow> nat option" where
  "IsLimited addr r =
     (case entries r addr of None \<Rightarrow> None | Some v \<Rightarrow> if \<not> lim (objs r v) then None else Some v)"

definition spawn :: "nat \<Rightarrow> RateLimiter \<Rightarrow> RateLimiter" where
  "spawn v r = r\<lparr>gos := add_mset (v, Start) (gos r)\<rparr>"

definition Limit :: "string \<Rightarrow> RateLimiter \<Rightarrow> bool \<times> RateLimiter" where
  "Limit addr r =
     (case entries r addr of
        None \<Rightarrow>
          let v = nextObj r;
              r1 = r\<lparr>nextObj := Suc v, objs := (objs r)(v := noLimited\<lparr>lip := addr\<rparr>), entries := (entries r)(addr \<mapsto> v)\<rparr>
          in (False, spawn v (setObj v (\<lambda>l. l\<lparr>lim := False\<rparr>) r1))
      | Some v \<Rightarrow> (True, spawn v (setObj v (\<lambda>l. l\<lparr>lim := True\<rparr>) r)))"

text \<open>\<open>close(c)\<close>, with its two panics.\<close>

definition closeChan :: "nat option \<Rightarrow> RateLimiter \<Rightarrow> RateLimiter" where
  "closeChan c r =
     (case c of
        None \<Rightarrow> r\<lparr>crashed := Some CloseNil\<rparr>
      | Some n \<Rightarrow> if n \<in> closed r then r\<lparr>crashed := Some CloseClosed\<rparr> else r\<lparr>closed := insert n (closed r)\<rparr>)"

definition AcceptLogin :: "string \<Rightarrow> RateLimiter \<Rightarrow> RateLimiter" where
  "AcceptLogin addr r =
     (case entries r addr of
        None \<Rightarrow> r
      | Some v \<Rightarrow>
          let r1 = closeChan (cancel (objs r v)) r
          in if crashed r1 \<noteq> None then r1 else r1\<lparr>entries := (entries r1)(addr := None)\<rparr>)"

text \<open>\<open>LimiterListener.Accept\<close> on one connection: whether it is let through.\<close>

definition acceptConn :: "string \<Rightarrow> RateLimiter \<Rightarrow> bool \<times> RateLimiter" where
  "acceptConn addr r =
     (case IsLimited addr r of
        None \<Rightarrow> (True, r)
      | Some v \<Rightarrow> (False, spawn v (setObj v (\<lambda>l. l\<lparr>lim := True\<rparr>) r)))"

section \<open>increase\<close>

text \<open>Up to the first \<open>select\<close>; \<open>bon\<close> is the random number below twice the count, which wraps
  around at 32 bits.\<close>

definition increaseStart :: "nat \<Rightarrow> u32 \<Rightarrow> RateLimiter \<Rightarrow> RateLimiter" where
  "increaseStart v bon r =
     (let r1 = setObj v (\<lambda>l. l\<lparr>lacc := lacc l + 1\<rparr>) r;
          r2 = (if cancel (objs r1 v) \<noteq> None then closeChan (cancel (objs r1 v)) r1 else r1);
          c = nextChan r2;
          r3 = setObj v (\<lambda>l. l\<lparr>cancel := Some c\<rparr>) (r2\<lparr>nextChan := Suc c\<rparr>)
      in if crashed r2 \<noteq> None then r2
         else if lacc (objs r3 v) * 2 = 0 then r3\<lparr>crashed := Some BadRandom\<rparr>
         else r3\<lparr>gos := add_mset (v, Wait1 c bon) (gos r3 - {#(v, Start)#})\<rparr>)"

definition increaseTimer1 :: "nat \<Rightarrow> nat \<Rightarrow> u32 \<Rightarrow> RateLimiter \<Rightarrow> RateLimiter" where
  "increaseTimer1 v c bon r =
     (let r1 = setObj v (\<lambda>l. l\<lparr>lim := False\<rparr>) r
      in r1\<lparr>gos := add_mset (v, Wait2 (the (cancel (objs r1 v))) bon) (gos r1 - {#(v, Wait1 c bon)#})\<rparr>)"

definition increaseTimer2 :: "nat \<Rightarrow> nat \<Rightarrow> u32 \<Rightarrow> RateLimiter \<Rightarrow> RateLimiter" where
  "increaseTimer2 v c bon r =
     r\<lparr>entries := (entries r)(lip (objs r v) := None), gos := gos r - {#(v, Wait2 c bon)#}\<rparr>"

definition increaseCancel :: "nat \<Rightarrow> phase \<Rightarrow> RateLimiter \<Rightarrow> RateLimiter" where
  "increaseCancel v p r = r\<lparr>gos := gos r - {#(v, p)#}\<rparr>"

text \<open>How long the two selects wait for their timers: a \<open>time.Duration\<close>, a signed number of 64
  bits that counts nanoseconds.\<close>

definition Minute :: "64 word" where
  "Minute = 60000000000"

definition timer1 :: "u32 \<Rightarrow> 64 word" where
  "timer1 bon = 5 * Minute + ucast bon * Minute"

definition timer2 :: "u32 \<Rightarrow> 64 word" where
  "timer2 bon = 60 * Minute + ucast bon * Minute * 30"

text \<open>What is seen of a step from outside: the call of a server with its answer, or nothing but that
  time passes. \<open>FailedLogin\<close> is a call of \<open>Limit\<close>, with its result; \<open>GoodLogin\<close> one of \<open>Accept\<close>, and
  whether it returns; \<open>Connect\<close> a connection to the listener, and whether it is let through.\<close>

datatype limiterEvent =
    FailedLogin string bool
  | GoodLogin string bool
  | Connect string bool
  | Passing

inductive limiter_step :: "limiterEvent \<Rightarrow> RateLimiter \<Rightarrow> RateLimiter \<Rightarrow> bool" where
  limit: "crashed r = None \<Longrightarrow> limiter_step (FailedLogin addr (fst (Limit addr r))) r (snd (Limit addr r))"
| login: "crashed r = None \<Longrightarrow>
    limiter_step (GoodLogin addr (crashed (AcceptLogin addr r) = None)) r (AcceptLogin addr r)"
| conn: "crashed r = None \<Longrightarrow> limiter_step (Connect addr (fst (acceptConn addr r))) r (snd (acceptConn addr r))"
| starts: "crashed r = None \<Longrightarrow> (v, Start) \<in># gos r \<Longrightarrow>
    (lacc (objs r v) + 1) * 2 = 0 \<or> bon < (lacc (objs r v) + 1) * 2 \<Longrightarrow>
    limiter_step Passing r (increaseStart v bon r)"
| timer1: "crashed r = None \<Longrightarrow> (v, Wait1 c bon) \<in># gos r \<Longrightarrow> limiter_step Passing r (increaseTimer1 v c bon r)"
| timer2: "crashed r = None \<Longrightarrow> (v, Wait2 c bon) \<in># gos r \<Longrightarrow> limiter_step Passing r (increaseTimer2 v c bon r)"
| cancel1: "crashed r = None \<Longrightarrow> (v, Wait1 c bon) \<in># gos r \<Longrightarrow> c \<in> closed r \<Longrightarrow>
    limiter_step Passing r (increaseCancel v (Wait1 c bon) r)"
| cancel2: "crashed r = None \<Longrightarrow> (v, Wait2 c bon) \<in># gos r \<Longrightarrow> c \<in> closed r \<Longrightarrow>
    limiter_step Passing r (increaseCancel v (Wait2 c bon) r)"

section \<open>The abstract limiter\<close>

text \<open>What the limiter is for: the standing of an address, and how every call is answered by it. A
  failed login makes an unknown address monitored and a known one blocked, and is told which; a
  login that succeeds makes the address unknown, or panics; a connection is refused when the
  address is blocked and changes nothing; time may make a blocked address monitored and any
  address unknown, and nothing else.\<close>

datatype standing = Unknown | Monitored | Blocked

definition standingOf :: "RateLimiter \<Rightarrow> string \<Rightarrow> standing" where
  "standingOf r addr =
     (case entries r addr of
        None \<Rightarrow> Unknown
      | Some v \<Rightarrow> if lim (objs r v) then Blocked else Monitored)"

definition worsen :: "standing \<Rightarrow> standing" where
  "worsen s = (if s = Unknown then Monitored else Blocked)"

inductive standing_step :: "limiterEvent \<Rightarrow> (string \<Rightarrow> standing) \<Rightarrow> (string \<Rightarrow> standing) \<Rightarrow> bool" where
  fail: "standing_step (FailedLogin addr (st addr \<noteq> Unknown)) st (st(addr := worsen (st addr)))"
| forgive: "standing_step (GoodLogin addr True) st (st(addr := Unknown))"
| panic: "st addr \<noteq> Unknown \<Longrightarrow> standing_step (GoodLogin addr False) st st"
| connect: "standing_step (Connect addr (st addr \<noteq> Blocked)) st st"
| wait: "standing_step Passing st st"
| relax: "st addr = Blocked \<Longrightarrow> standing_step Passing st (st(addr := Monitored))"
| forget: "standing_step Passing st (st(addr := Unknown))"

text \<open>The entry of an address is an object for that address, and objects are made in order.\<close>

definition limiterOk :: "RateLimiter \<Rightarrow> bool" where
  "limiterOk r \<longleftrightarrow>
     (\<forall>addr v. entries r addr = Some v \<longrightarrow> v < nextObj r \<and> lip (objs r v) = addr) \<and>
     (\<forall>v p. (v, p) \<in># gos r \<longrightarrow> v < nextObj r)"

lemma setObj_simps [simp]:
  "entries (setObj v f r) = entries r" "gos (setObj v f r) = gos r" "crashed (setObj v f r) = crashed r"
  "nextObj (setObj v f r) = nextObj r" "closed (setObj v f r) = closed r" "nextChan (setObj v f r) = nextChan r"
  "objs (setObj v f r) = (objs r)(v := f (objs r v))"
  by (simp_all add: setObj_def)

lemma closeChan_simps [simp]:
  "entries (closeChan c r) = entries r" "gos (closeChan c r) = gos r" "objs (closeChan c r) = objs r"
  "nextObj (closeChan c r) = nextObj r" "nextChan (closeChan c r) = nextChan r"
  by (simp_all add: closeChan_def split: option.splits)

lemma spawn_simps [simp]:
  "entries (spawn v r) = entries r" "objs (spawn v r) = objs r" "nextObj (spawn v r) = nextObj r"
  "gos (spawn v r) = add_mset (v, Start) (gos r)" "crashed (spawn v r) = crashed r"
  by (simp_all add: spawn_def)

text \<open>A change of one object that keeps its address and its flag, and of the goroutines, shows
  nowhere.\<close>

lemma increaseStart_keeps:
  "entries (increaseStart v bon r) = entries r" "nextObj (increaseStart v bon r) = nextObj r"
  "lim (objs (increaseStart v bon r) w) = lim (objs r w)" "lip (objs (increaseStart v bon r) w) = lip (objs r w)"
  "(w, p) \<in># gos (increaseStart v bon r) \<Longrightarrow> w = v \<or> (w, p) \<in># gos r"
  by (auto simp: increaseStart_def Let_def split: if_splits dest: in_diffD)

lemma Limit_new:
  assumes "entries r addr = None"
  shows "fst (Limit addr r) = False" "entries (snd (Limit addr r)) = (entries r)(addr \<mapsto> nextObj r)"
    "objs (snd (Limit addr r)) = (objs r)(nextObj r := noLimited\<lparr>lip := addr\<rparr>)"
    "nextObj (snd (Limit addr r)) = Suc (nextObj r)" "gos (snd (Limit addr r)) = add_mset (nextObj r, Start) (gos r)"
    "crashed (snd (Limit addr r)) = crashed r"
  using assms by (simp_all add: Limit_def Let_def noLimited_def)

lemma Limit_known:
  assumes "entries r addr = Some v"
  shows "fst (Limit addr r) = True" "entries (snd (Limit addr r)) = entries r"
    "objs (snd (Limit addr r)) = (objs r)(v := (objs r v)\<lparr>lim := True\<rparr>)"
    "nextObj (snd (Limit addr r)) = nextObj r" "gos (snd (Limit addr r)) = add_mset (v, Start) (gos r)"
    "crashed (snd (Limit addr r)) = crashed r"
  using assms by (simp_all add: Limit_def)

lemma limiterOk_entry: "limiterOk r \<Longrightarrow> entries r a = Some v \<Longrightarrow> v < nextObj r \<and> lip (objs r v) = a"
  unfolding limiterOk_def by blast

lemma limiterOk_go: "limiterOk r \<Longrightarrow> (v, p) \<in># gos r \<Longrightarrow> v < nextObj r"
  unfolding limiterOk_def by blast

lemma limiterOk_Limit: "limiterOk r \<Longrightarrow> limiterOk (snd (Limit addr r))"
proof (cases "entries r addr")
  case None
  assume ok: "limiterOk r"
  show ?thesis unfolding limiterOk_def Limit_new [OF None]
    using limiterOk_entry [OF ok] limiterOk_go [OF ok]
    by (auto simp: less_Suc_eq noLimited_def)
next
  case (Some v)
  assume ok: "limiterOk r"
  show ?thesis unfolding limiterOk_def Limit_known [OF Some]
    using limiterOk_entry [OF ok] limiterOk_go [OF ok] Some by auto
qed

lemma limiterOk_step: "limiter_step l r r' \<Longrightarrow> limiterOk r \<Longrightarrow> limiterOk r'"
proof (induction rule: limiter_step.induct)
  case (limit r addr)
  then show ?case using limiterOk_Limit by blast
next
  case (login r addr)
  then show ?case by (auto simp: limiterOk_def AcceptLogin_def Let_def split: option.splits)
next
  case (conn r addr)
  then show ?case
    by (fastforce simp: limiterOk_def acceptConn_def IsLimited_def split: option.splits if_splits)
next
  case (starts r v bon)
  then show ?case
    by (auto simp: limiterOk_def increaseStart_keeps(1-4) dest!: increaseStart_keeps(5))
next
  case (timer1 r v c bon)
  have ok: "limiterOk r" by fact
  show ?case
    unfolding limiterOk_def increaseTimer1_def Let_def
    using limiterOk_entry [OF ok] limiterOk_go [OF ok] timer1(2) by (auto dest!: in_diffD)
next
  case (timer2 r v c bon)
  have ok: "limiterOk r" by fact
  show ?case
    unfolding limiterOk_def increaseTimer2_def
    using limiterOk_entry [OF ok] limiterOk_go [OF ok] timer2(2) by (auto dest!: in_diffD)
qed (auto simp: limiterOk_def increaseCancel_def dest!: in_diffD)

lemma entry_unique:
  "limiterOk r \<Longrightarrow> entries r a = Some v \<Longrightarrow> entries r b = Some v \<Longrightarrow> a = b"
  using limiterOk_entry by blast

lemma standing_Limit:
  assumes "limiterOk r"
  shows "standingOf (snd (Limit addr r)) = (standingOf r)(addr := worsen (standingOf r addr))"
proof
  fix a
  show "standingOf (snd (Limit addr r)) a = ((standingOf r)(addr := worsen (standingOf r addr))) a"
  proof (cases "entries r addr")
    case None
    have "entries r a = Some w \<Longrightarrow> w \<noteq> nextObj r" for w
      using limiterOk_entry [OF assms] by blast
    with None show ?thesis
      by (auto simp: standingOf_def Limit_new worsen_def noLimited_def split: option.split)
  next
    case (Some v)
    show ?thesis
    proof (cases "a = addr")
      case True
      then show ?thesis using Some by (simp add: standingOf_def Limit_known worsen_def)
    next
      case False
      then have "entries r a \<noteq> Some v" using entry_unique [OF assms Some] by blast
      then show ?thesis using Some False by (simp add: standingOf_def Limit_known split: option.split)
    qed
  qed
qed

lemma standing_AcceptLogin:
  assumes "crashed r = None"
  shows "standing_step (GoodLogin addr (crashed (AcceptLogin addr r) = None)) (standingOf r) (standingOf (AcceptLogin addr r))"
proof (cases "entries r addr")
  case None
  then have "AcceptLogin addr r = r" and "standingOf r = (standingOf r)(addr := Unknown)"
    by (auto simp: AcceptLogin_def standingOf_def fun_eq_iff)
  then show ?thesis using assms standing_step.forgive [of addr "standingOf r"] by simp
next
  case (Some v)
  let ?r = "closeChan (cancel (objs r v)) r"
  have known: "standingOf r addr \<noteq> Unknown" using Some by (simp add: standingOf_def)
  show ?thesis
  proof (cases "crashed ?r = None")
    case True
    then have "AcceptLogin addr r = ?r\<lparr>entries := (entries ?r)(addr := None)\<rparr>" using Some by (simp add: AcceptLogin_def Let_def)
    moreover from this have "standingOf (AcceptLogin addr r) = (standingOf r)(addr := Unknown)"
      by (simp add: standingOf_def fun_eq_iff split: option.split)
    ultimately show ?thesis using True standing_step.forgive [of addr "standingOf r"] by simp
  next
    case False
    then have "AcceptLogin addr r = ?r" using Some by (simp add: AcceptLogin_def Let_def)
    moreover from this have "standingOf (AcceptLogin addr r) = standingOf r" by (simp add: standingOf_def fun_eq_iff split: option.split)
    ultimately show ?thesis using False standing_step.panic [of "standingOf r" addr, OF known] by auto
  qed
qed

lemma standing_timer1:
  assumes "limiterOk r"
  shows "standingOf (increaseTimer1 v c bon r) = standingOf r \<or>
    (\<exists>a. standingOf r a = Blocked \<and> standingOf (increaseTimer1 v c bon r) = (standingOf r)(a := Monitored))"
proof (cases "\<exists>a. entries r a = Some v \<and> lim (objs r v)")
  case True
  then obtain a where a: "entries r a = Some v" "lim (objs r v)" by blast
  have "standingOf (increaseTimer1 v c bon r) b = ((standingOf r)(a := Monitored)) b" for b
  proof (cases "b = a")
    case True
    then show ?thesis using a by (simp add: standingOf_def increaseTimer1_def)
  next
    case False
    then have "entries r b \<noteq> Some v" using entry_unique [OF assms a(1)] by blast
    then show ?thesis using False by (simp add: standingOf_def increaseTimer1_def split: option.split)
  qed
  then have "standingOf (increaseTimer1 v c bon r) = (standingOf r)(a := Monitored)" by blast
  moreover have "standingOf r a = Blocked" using a by (simp add: standingOf_def)
  ultimately show ?thesis by blast
next
  case False
  have "standingOf (increaseTimer1 v c bon r) b = standingOf r b" for b
  proof (cases "entries r b = Some v")
    case True
    then have "\<not> lim (objs r v)" using False by blast
    then show ?thesis using True by (simp add: standingOf_def increaseTimer1_def)
  next
    case False
    then show ?thesis by (auto simp: standingOf_def increaseTimer1_def split: option.split)
  qed
  then show ?thesis by blast
qed

lemma standing_increaseCancel: "standingOf (increaseCancel v p r) = standingOf r"
  by (simp add: standingOf_def increaseCancel_def fun_eq_iff split: option.split)

lemma fst_Limit: "fst (Limit addr r) \<longleftrightarrow> standingOf r addr \<noteq> Unknown"
  by (cases "entries r addr") (simp_all add: Limit_new Limit_known standingOf_def)

lemma fst_acceptConn: "fst (acceptConn addr r) \<longleftrightarrow> standingOf r addr \<noteq> Blocked"
  by (simp add: acceptConn_def IsLimited_def standingOf_def split: option.split)

lemma limiter_simulates:
  "limiterOk r \<Longrightarrow> limiter_step l r r' \<Longrightarrow> standing_step l (standingOf r) (standingOf r')"
proof (rotate_tac, induction rule: limiter_step.induct)
  case (limit r addr)
  then show ?case unfolding fst_Limit by (simp only: standing_Limit standing_step.fail)
next
  case (login r addr)
  then show ?case using standing_AcceptLogin by blast
next
  case (conn r addr)
  have "standingOf (snd (acceptConn addr r)) = standingOf r"
    by (auto simp: standingOf_def acceptConn_def IsLimited_def fun_eq_iff split: option.splits if_splits)
  then show ?case unfolding fst_acceptConn by (simp only: standing_step.connect)
next
  case (starts r v bon)
  have "standingOf (increaseStart v bon r) = standingOf r"
    by (simp add: standingOf_def increaseStart_keeps fun_eq_iff split: option.split)
  then show ?case using standing_step.wait by metis
next
  case (timer1 r v c bon)
  then show ?case using standing_timer1 by (metis standing_step.relax standing_step.wait)
next
  case (timer2 r v c bon)
  have "standingOf (increaseTimer2 v c bon r) = (standingOf r)(lip (objs r v) := Unknown)"
    by (simp add: standingOf_def increaseTimer2_def fun_eq_iff split: option.split)
  then show ?case by (metis standing_step.forget)
next
  case (cancel1 r v c bon)
  then show ?case by (simp add: standing_increaseCancel standing_step.wait)
next
  case (cancel2 r v c bon)
  then show ?case by (simp add: standing_increaseCancel standing_step.wait)
qed

interpretation rl: refinement "\<lambda>r. r = NewRateLimiter" limiter_step limiterOk standingOf standing_step
proof
  show "limiterOk s" if "s = NewRateLimiter" for s using that by (simp add: limiterOk_def NewRateLimiter_def)
  show "limiterOk s'" if "limiterOk s" "\<exists>l. limiter_step l s s'" for s s' using that limiterOk_step by blast
  show "standing_step l (standingOf s) (standingOf s')" if "limiterOk s" "limiter_step l s s'" for l s s'
    using that by (rule limiter_simulates)
qed

section \<open>Properties\<close>

text \<open>C15: the limiter with its goroutines implements the abstract one: whatever the servers and the
  goroutines do, the calls and their answers are, one by one, those the abstract limiter gives by
  the standing of the addresses. So the first failure of an unknown address is answered with
  false and does not block it, the next one blocks it, a connection is refused exactly while its
  address is blocked, and only time or a login that succeeds makes an address better.\<close>

theorem limiter_refines:
  "traced limiter_step NewRateLimiter events r \<Longrightarrow> traced standing_step (\<lambda>_. Unknown) events (standingOf r)"
proof -
  assume "traced limiter_step NewRateLimiter events r"
  moreover have "standingOf NewRateLimiter = (\<lambda>_. Unknown)"
    by (simp add: standingOf_def NewRateLimiter_def fun_eq_iff)
  ultimately show ?thesis using rl.reachable_simulated [OF refl] by metis
qed

definition failedTwice :: "string \<Rightarrow> RateLimiter" where
  "failedTwice addr = snd (Limit addr (snd (Limit addr NewRateLimiter)))"

lemma failedTwice_traced:
  "traced limiter_step NewRateLimiter [FailedLogin addr False, FailedLogin addr True] (failedTwice addr)"
proof -
  let ?r = "snd (Limit addr NewRateLimiter)"
  have n: "entries NewRateLimiter addr = None" "crashed NewRateLimiter = None" by (simp_all add: NewRateLimiter_def)
  have r: "entries ?r addr = Some 0" "crashed ?r = None" using Limit_new [OF n(1)] n(2) by (simp_all add: NewRateLimiter_def)
  have "traced limiter_step NewRateLimiter ([] @ [FailedLogin addr False]) ?r"
    using limiter_step.limit [OF n(2), of addr] Limit_new(1) [OF n(1)] traced_snoc [OF traced_nil] by metis
  moreover have "limiter_step (FailedLogin addr True) ?r (failedTwice addr)"
    using limiter_step.limit [OF r(2), of addr] Limit_known(1) [OF r(1)] unfolding failedTwice_def by metis
  ultimately show ?thesis using traced_snoc [of limiter_step _ "[FailedLogin addr False]"] by fastforce
qed

theorem limiter_refines_witness:
  "traced standing_step (\<lambda>_. Unknown) [FailedLogin ''192.0.2.1'' False, FailedLogin ''192.0.2.1'' True]
     (standingOf (failedTwice ''192.0.2.1''))"
  by (rule limiter_refines [OF failedTwice_traced])

text \<open>in every state of the limiter, a failed login is told whether it is the first one its
  address is known for; afterwards the address is let through after a first failure and refused
  after a second, and the other addresses keep what they had.\<close>

theorem second_failure_blocks:
  assumes "traced limiter_step NewRateLimiter events r"
  shows "(fst (Limit addr r) \<longleftrightarrow> entries r addr \<noteq> None) \<and>
    (IsLimited addr (snd (Limit addr r)) = None \<longleftrightarrow> entries r addr = None) \<and>
    (\<forall>a. a \<noteq> addr \<longrightarrow> (IsLimited a (snd (Limit addr r)) = None \<longleftrightarrow> IsLimited a r = None))"
proof (intro conjI)
  have ok: "limiterOk r" using rl.traced_inv [OF assms rl.init_inv [OF refl]] .
  have lim: "IsLimited a r' = None \<longleftrightarrow> standingOf r' a \<noteq> Blocked" for a r'
    by (simp add: IsLimited_def standingOf_def split: option.split)
  have unk: "standingOf r addr = Unknown \<longleftrightarrow> entries r addr = None"
    by (simp add: standingOf_def split: option.split)
  show "fst (Limit addr r) \<longleftrightarrow> entries r addr \<noteq> None"
    by (cases "entries r addr") (simp_all add: Limit_new Limit_known)
  show "IsLimited addr (snd (Limit addr r)) = None \<longleftrightarrow> entries r addr = None"
    using unk by (simp add: lim standing_Limit [OF ok] worsen_def)
  show "\<forall>a. a \<noteq> addr \<longrightarrow> (IsLimited a (snd (Limit addr r)) = None \<longleftrightarrow> IsLimited a r = None)"
    by (simp add: lim standing_Limit [OF ok])
qed

theorem second_failure_blocks_witness:
  "IsLimited ''192.0.2.1'' (snd (Limit ''192.0.2.1'' (failedTwice ''192.0.2.1''))) \<noteq> None \<and>
   IsLimited ''192.0.2.7'' (snd (Limit ''192.0.2.7'' (failedTwice ''192.0.2.1''))) = None"
  using second_failure_blocks [OF failedTwice_traced [of "''192.0.2.1''"], of "''192.0.2.1''"]
    second_failure_blocks [OF failedTwice_traced [of "''192.0.2.1''"], of "''192.0.2.7''"]
  by (simp add: failedTwice_def Limit_def NewRateLimiter_def Let_def spawn_def setObj_def)

text \<open>\<open>Accept\<close> panics when the goroutine of the failure it forgives has not run: a login
  that succeeds right after a first failure closes the channel of the entry, which is still nil.\<close>

theorem accept_panics:
  assumes "entries r addr = None" and "crashed r = None"
  shows "crashed (AcceptLogin addr (snd (Limit addr r))) = Some CloseNil"
  using assms by (simp add: AcceptLogin_def Limit_def Let_def noLimited_def spawn_def setObj_def closeChan_def)

theorem accept_panics_witness:
  "crashed (AcceptLogin ''192.0.2.1'' (snd (Limit ''192.0.2.1'' NewRateLimiter))) = Some CloseNil"
  by (rule accept_panics) (simp_all add: NewRateLimiter_def)

lemma sint_of_nat: "n < 2 ^ 63 \<Longrightarrow> sint (of_nat n :: 64 word) = int n"
  by (simp add: signed_of_nat signed_take_bit_int_eq_self)

lemma timer1_of_nat: "timer1 bon = of_nat ((5 + unat bon) * 60000000000)"
  by (simp add: timer1_def Minute_def algebra_simps)

lemma timer2_of_nat: "timer2 bon = of_nat ((60 + unat bon * 30) * 60000000000)"
  by (simp add: timer2_def Minute_def algebra_simps)

lemma minutes_bounds:
  "n < 2 * m \<Longrightarrow> 5 * 60000000000 \<le> int ((5 + n) * 60000000000) \<and>
     int ((5 + n) * 60000000000) < (5 + 2 * int m) * 60000000000 \<and>
     60 * 60000000000 \<le> int ((60 + n * 30) * 60000000000) \<and>
     int ((60 + n * 30) * 60000000000) < (60 + 2 * int m * 30) * 60000000000"
  by simp

text \<open>as long as an address has failed less than two and a half million times, neither timer
  of its goroutine overflows: the first is between five minutes and five minutes and twice the
  number of failures, the second between an hour and an hour and that many half hours.\<close>

theorem timers_bounded:
  assumes "acc \<le> 2500000" and "bon < acc * 2"
  shows "5 * sint Minute \<le> sint (timer1 bon) \<and> sint (timer1 bon) < (5 + 2 * uint acc) * sint Minute \<and>
    60 * sint Minute \<le> sint (timer2 bon) \<and> sint (timer2 bon) < (60 + 2 * uint acc * 30) * sint Minute"
proof -
  have b: "unat bon < 5000000" "unat bon < 2 * unat acc"
    using assms by (simp_all add: word_less_nat_alt word_le_nat_alt unat_word_ariths)
  have "sint (timer1 bon) = int ((5 + unat bon) * 60000000000)"
    unfolding timer1_of_nat using b(1) by (intro sint_of_nat) simp
  moreover have "sint (timer2 bon) = int ((60 + unat bon * 30) * 60000000000)"
    unfolding timer2_of_nat using b(1) by (intro sint_of_nat) simp
  moreover have "sint Minute = 60000000000" by (simp add: Minute_def)
  moreover have "uint acc = int (unat acc)" by simp
  ultimately show ?thesis using minutes_bounds [OF b(2)] by (simp only:)
qed

theorem timers_bounded_witness:
  "5 * sint Minute \<le> sint (timer1 2) \<and> sint (timer2 2) < (60 + 2 * uint (3 :: u32) * 30) * sint Minute"
  using timers_bounded [of 3 2] by simp

end
