(* ===== verification/Imap_Session.thy ===== *)
theory Imap_Session
  imports Store_Search Mailbox_View Relay_Session Rate_Limiter
begin

text \<open>
  The IMAP server: what it keeps (\<open>src/display/server.go\<close>), the login
  (\<open>src/display/session.go\<close>) and the commands of a session that needs no selected mailbox
  (\<open>src/display/session_auth.go\<close>).

  Views and the maps of views are shared by the sessions of a user, so they are in a store:
  \<open>iViews\<close> holds the views and \<open>iBoxes\<close> the maps. \<open>iStores\<close> is what the storage package keeps
  for each user. The domains are those of the backend of the relay, which gets the same. A
  handler is a function of the server and the session, with the answer and what it leaves.
  \<open>accepts\<close> tells which updates the connections of waiting sessions take, and \<open>takes\<close> what the
  connection of the session itself takes: the error is \<open>ErrConn\<close> where it does not. A panic is
  \<open>NilPointer\<close>, \<open>PanicSet\<close>, \<open>PanicClose\<close> or \<open>PanicOp\<close>, and \<open>Blocked\<close> is a call that never returns.
\<close>

section \<open>State\<close>

record imapServer =
  iViews :: "nat \<Rightarrow> View"
  iNextView :: nat
  iBoxes :: "nat \<Rightarrow> string \<Rightarrow> nat option"
  iNextBoxes :: nat
  iUserBoxes :: "string \<Rightarrow> nat option"
  iStores :: "string \<Rightarrow> mailStore"
  iMaxEmailSize :: u32
  iLimiter :: RateLimiter

record imapSession =
  iUser :: string
  iMailboxes :: "nat option"
  iSelected :: "nat option"
  iReadOnly :: bool
  iSubscribed :: "string list"

datatype imapError =
    ErrInternal | ErrNotFound | ErrLogin | ErrExists | ErrBadName | ErrTooBig | ErrFrom | ErrSameMailbox
  | ErrStore storeError | ErrMessage | ErrSearch searchError | ErrConn | NilPointer | PanicSet | PanicClose | PanicOp | Blocked

definition newImapSession :: imapSession where
  "newImapSession = \<lparr>iUser = [], iMailboxes = None, iSelected = None, iReadOnly = False, iSubscribed = []\<rparr>"

definition GetUserBoxes :: "imapServer \<Rightarrow> string \<Rightarrow> nat option" where
  "GetUserBoxes B user = iUserBoxes B user"

definition SetUserBoxes :: "string \<Rightarrow> nat \<Rightarrow> imapServer \<Rightarrow> imapServer" where
  "SetUserBoxes user bx B = B\<lparr>iUserBoxes := (iUserBoxes B)(user \<mapsto> bx)\<rparr>"

text \<open>\<open>Boxes.Get\<close>, \<open>Boxes.Add\<close> and \<open>Boxes.Delete\<close>.\<close>

definition BoxesGet :: "imapServer \<Rightarrow> nat \<Rightarrow> string \<Rightarrow> nat option" where
  "BoxesGet B bx name = iBoxes B bx name"

definition BoxesAdd :: "nat \<Rightarrow> View \<Rightarrow> imapServer \<Rightarrow> imapServer" where
  "BoxesAdd bx v B =
     B\<lparr>iViews := (iViews B)(iNextView B := v), iNextView := Suc (iNextView B),
       iBoxes := (iBoxes B)(bx := (iBoxes B bx)(vName v \<mapsto> iNextView B))\<rparr>"

definition BoxesDelete :: "nat \<Rightarrow> string \<Rightarrow> imapServer \<Rightarrow> imapServer" where
  "BoxesDelete bx name B = B\<lparr>iBoxes := (iBoxes B)(bx := (iBoxes B bx)(name := None))\<rparr>"

definition getBox :: "imapServer \<Rightarrow> imapSession \<Rightarrow> string \<Rightarrow> imapError + nat" where
  "getBox B s name =
     (case iMailboxes s of
        None \<Rightarrow> Inl NilPointer
      | Some bx \<Rightarrow> (case BoxesGet B bx name of None \<Rightarrow> Inl ErrNotFound | Some v \<Rightarrow> Inr v))"

definition userStore :: "imapServer \<Rightarrow> imapSession \<Rightarrow> mailStore" where
  "userStore B s = iStores B (iUser s)"

definition setStore :: "imapSession \<Rightarrow> mailStore \<Rightarrow> imapServer \<Rightarrow> imapServer" where
  "setStore s st B = B\<lparr>iStores := (iStores B)(iUser s := st)\<rparr>"

definition setView :: "nat \<Rightarrow> View \<Rightarrow> imapServer \<Rightarrow> imapServer" where
  "setView i v B = B\<lparr>iViews := (iViews B)(i := v)\<rparr>"

text \<open>Telling the sessions that wait on a view, which may block.\<close>

definition tell :: "nat \<Rightarrow> (View \<Rightarrow> View \<times> (nat \<times> update) list) \<Rightarrow> imapServer \<Rightarrow> imapError option \<times> imapServer" where
  "tell v f B =
     (let v' = fst (f (iViews B v)) in
      ((if vStuck (iViews B v) < vStuck v' then Some Blocked else None), setView v v' B))"

section \<open>Login\<close>

text \<open>The views of the mailboxes of a user, added to a new map one by one.\<close>

fun loadViews :: "nat \<Rightarrow> (int \<times> string \<times> nat) list \<Rightarrow> imapServer \<Rightarrow> imapServer" where
  "loadViews bx [] B = B"
| "loadViews bx ((i, name, n) # rows) B = loadViews bx rows (BoxesAdd bx (NewView (of_int i) name (of_nat n)) B)"

definition loadBoxes :: "string \<Rightarrow> imapServer \<Rightarrow> nat \<times> imapServer" where
  "loadBoxes user B =
     (let bx = iNextBoxes B;
          B1 = B\<lparr>iNextBoxes := Suc bx, iBoxes := (iBoxes B)(bx := Map.empty)\<rparr>
      in (bx, SetUserBoxes user bx (loadViews bx (LoadMailbox (iStores B user)) B1)))"

text \<open>\<open>Session.Login\<close> from the address \<open>addr\<close>; the rate limiter counts a login that fails, and the
  connection of one that is limited is closed without an error. \<open>loaded\<close> tells whether the mailboxes
  could be loaded: when they could not, the session keeps the user name it has.\<close>

definition Login ::
  "world \<Rightarrow> Backend \<Rightarrow> string \<Rightarrow> string \<Rightarrow> string list \<Rightarrow> bool \<Rightarrow> string \<Rightarrow> string \<Rightarrow> imapServer \<Rightarrow> imapSession \<Rightarrow>
   imapError option \<times> imapServer \<times> imapSession" where
  "Login w b local addr ds loaded user password B s =
     (let s1 = (if tryDomains w b local user password ds then s\<lparr>iUser := user\<rparr> else s) in
      if iUser s1 = [] then
        (case Limit addr (iLimiter B) of
           (limited, r) \<Rightarrow> ((if limited then None else Some ErrLogin), B\<lparr>iLimiter := r\<rparr>, s1))
      else
        let B1 = B\<lparr>iLimiter := AcceptLogin addr (iLimiter B)\<rparr> in
        if crashed (iLimiter B1) \<noteq> None then (Some PanicClose, B1, s1)
        else
          case GetUserBoxes B1 (iUser s1) of
            Some bx \<Rightarrow> (None, B1, s1\<lparr>iMailboxes := Some bx\<rparr>)
          | None \<Rightarrow>
              if \<not> loaded then (Some ErrInternal, B1, s1)
              else case loadBoxes user B1 of (bx, B') \<Rightarrow> (None, B', s1\<lparr>iMailboxes := Some bx\<rparr>))"

text \<open>The logins a session was asked for until it has mailboxes, each with its answer; what the
  other sessions do to the server between them is left open.\<close>

record loginTry =
  tryLocal :: string
  tryDs :: "string list"
  tryUser :: string
  tryPassword :: string
  tryErr :: "imapError option"

inductive login_run :: "world \<Rightarrow> Backend \<Rightarrow> loginTry list \<Rightarrow> imapSession \<Rightarrow> bool" for w b where
  new: "login_run w b [] newImapSession"
| login: "login_run w b tries s \<Longrightarrow> iMailboxes s = None \<Longrightarrow>
    Login w b local addr ds loaded user password B s = (err, B', s') \<Longrightarrow>
    login_run w b (tries @ [\<lparr>tryLocal = local, tryDs = ds, tryUser = user, tryPassword = password, tryErr = err\<rparr>]) s'"

definition tryVerified :: "world \<Rightarrow> Backend \<Rightarrow> loginTry \<Rightarrow> bool" where
  "tryVerified w b t \<longleftrightarrow>
     (\<exists>d \<in> set (tryDs t). \<exists>cfg. Domains b d = Some cfg \<and> VerifyUser w cfg (tryLocal t) d (tryUser t) (tryPassword t))"

section \<open>Mailboxes\<close>

definition Select :: "string \<Rightarrow> bool \<Rightarrow> imapServer \<Rightarrow> imapSession \<Rightarrow> (imapError + SelectData) \<times> imapServer \<times> imapSession" where
  "Select name readOnly B s =
     (case getBox B s name of
        Inl err \<Rightarrow> (Inl err, B, s)
      | Inr v \<Rightarrow>
          (case DescribeMailbox name (userStore B s) of
             (Inl err, st) \<Rightarrow> (Inl ErrInternal, setStore s st B, s)
           | (Inr res, st) \<Rightarrow>
               (Inr res, setView v ((iViews B v)\<lparr>vCount := sdNumMessages res\<rparr>) (setStore s st B),
                s\<lparr>iSelected := Some v, iReadOnly := readOnly\<rparr>)))"

definition Unselect :: "imapSession \<Rightarrow> imapSession" where
  "Unselect s = s\<lparr>iSelected := None\<rparr>"

definition trimSlash :: "string \<Rightarrow> string" where
  "trimSlash name = (if has_prefix name ''/'' then tl name else name)"

definition badName :: "string \<Rightarrow> bool" where
  "badName name \<longleftrightarrow> name = [] \<or> last name = CHR ''/'' \<or> contains name ''//''"

definition Create :: "string \<Rightarrow> imapServer \<Rightarrow> imapSession \<Rightarrow> imapError option \<times> imapServer" where
  "Create name B s =
     (case getBox B s name of
        Inr v \<Rightarrow> (Some ErrExists, B)
      | Inl NilPointer \<Rightarrow> (Some NilPointer, B)
      | Inl _ \<Rightarrow>
          if badName name then (Some ErrBadName, B)
          else
            case CreateMailbox (trimSlash name) (userStore B s) of
              (Inl err, st) \<Rightarrow> (Some (ErrStore (DBErr err)), setStore s st B)
            | (Inr i, st) \<Rightarrow> (None, BoxesAdd (the (iMailboxes s)) (NewView (of_int i) (trimSlash name) 0) (setStore s st B)))"

definition Delete :: "string \<Rightarrow> imapServer \<Rightarrow> imapSession \<Rightarrow> imapError option \<times> imapServer" where
  "Delete name B s =
     (case getBox B s name of
        Inl err \<Rightarrow> (Some err, B)
      | Inr v \<Rightarrow>
          (case DeleteMailbox (uint (vID (iViews B v))) (userStore B s) of
             (Some err, st) \<Rightarrow> (Some ErrInternal, setStore s st B)
           | (None, st) \<Rightarrow>
               let B1 = setStore s st B in
               case GetUserBoxes B1 (iUser s) of
                 None \<Rightarrow> (Some NilPointer, B1)
               | Some bx \<Rightarrow> (None, BoxesDelete bx name B1)))"

definition Rename :: "string \<Rightarrow> string \<Rightarrow> imapServer \<Rightarrow> imapSession \<Rightarrow> imapError option \<times> imapServer" where
  "Rename name newName B s =
     (case getBox B s name of
        Inl err \<Rightarrow> (Some err, B)
      | Inr v \<Rightarrow>
          (case RenameMailbox (uint (vID (iViews B v))) newName (userStore B s) of
             (Some err, st) \<Rightarrow> (Some ErrInternal, setStore s st B)
           | (None, st) \<Rightarrow> (None, setStore s st B)))"

definition Subscribe :: "string \<Rightarrow> imapServer \<Rightarrow> imapSession \<Rightarrow> imapError option \<times> imapSession" where
  "Subscribe name B s =
     (case getBox B s name of
        Inl err \<Rightarrow> (Some err, s)
      | Inr v \<Rightarrow> (None, s\<lparr>iSubscribed := List.insert name (iSubscribed s)\<rparr>))"

definition Unsubscribe :: "string \<Rightarrow> imapSession \<Rightarrow> imapSession" where
  "Unsubscribe name s = s\<lparr>iSubscribed := removeAll name (iSubscribed s)\<rparr>"

definition Status :: "string \<Rightarrow> StatusOptions \<Rightarrow> imapServer \<Rightarrow> imapSession \<Rightarrow> (imapError + StatusData) \<times> imapServer" where
  "Status name opt B s =
     (case getBox B s name of
        Inl err \<Rightarrow> (Inl err, B)
      | Inr v \<Rightarrow>
          (case StatusMailbox name opt (userStore B s) of
             (Inl NilCount, st) \<Rightarrow> (Inl NilPointer, setStore s st B)
           | (Inl _, st) \<Rightarrow> (Inl ErrInternal, setStore s st B)
           | (Inr d, st) \<Rightarrow> (Inr d, setStore s st B)))"

record ListData =
  ldMailbox :: string
  ldAttrs :: "MailboxAttr list"
  ldStatus :: "StatusData option"

text \<open>The status the client asked for, if it did: an error of \<open>Status\<close> is an internal one, its panics
  are not caught.\<close>

definition listStatus ::
  "StatusOptions option \<Rightarrow> string \<Rightarrow> imapServer \<Rightarrow> imapSession \<Rightarrow> (imapError + StatusData option) \<times> imapServer" where
  "listStatus ret box B s =
     (case ret of
        None \<Rightarrow> (Inr None, B)
      | Some opt \<Rightarrow>
          (case Status box opt B s of
             (Inl NilPointer, B') \<Rightarrow> (Inl NilPointer, B')
           | (Inl _, B') \<Rightarrow> (Inl ErrInternal, B')
           | (Inr d, B') \<Rightarrow> (Inr (Some d), B')))"

text \<open>The loop of \<open>List\<close> on the pairs of a pattern and a mailbox; \<open>matches\<close> is the library's
  \<open>MatchList\<close>.\<close>

fun listLoop ::
  "(string \<Rightarrow> string \<Rightarrow> bool) \<Rightarrow> (ListData \<Rightarrow> bool) \<Rightarrow> StatusOptions option \<Rightarrow> (string \<times> string) list \<Rightarrow> imapServer \<Rightarrow> imapSession \<Rightarrow>
   (imapError option \<times> ListData list) \<times> imapServer" where
  "listLoop matches takes ret [] B s = ((None, []), B)"
| "listLoop matches takes ret ((p, box) # rest) B s =
     (if \<not> matches box p then listLoop matches takes ret rest B s
      else
        case GetMailboxAttributes box (userStore B s) of
          (Inl err, st) \<Rightarrow> ((Some ErrInternal, []), setStore s st B)
        | (Inr attrs, st) \<Rightarrow>
            let attrs' = (if box \<in> set (iSubscribed s) then [AttrSubscribed] else []) @ attrs in
            (case listStatus ret box (setStore s st B) s of
               (Inl err, B2) \<Rightarrow> ((Some err, []), B2)
             | (Inr d, B2) \<Rightarrow>
                 let data = \<lparr>ldMailbox = box, ldAttrs = attrs', ldStatus = d\<rparr> in
                 if \<not> takes data then ((Some ErrConn, []), B2)
                 else (case listLoop matches takes ret rest B2 s of ((err, ds), B') \<Rightarrow> ((err, data # ds), B'))))"

text \<open>\<open>names\<close> is the order in which the keys of the map are visited.\<close>

definition ListCmd ::
  "(string \<Rightarrow> string \<Rightarrow> bool) \<Rightarrow> (ListData \<Rightarrow> bool) \<Rightarrow> string list \<Rightarrow> string list \<Rightarrow> bool \<Rightarrow> StatusOptions option \<Rightarrow> imapServer \<Rightarrow> imapSession \<Rightarrow>
   (imapError option \<times> ListData list) \<times> imapServer" where
  "ListCmd matches takes names patterns subscribed ret B s =
     listLoop matches takes ret (Zip patterns (if subscribed then iSubscribed s else names)) B s"

section \<open>Append\<close>

record AppendData =
  adUID :: u32
  adUIDValidity :: u32

text \<open>\<open>parse\<close> is the library on the bytes of the message: the address of the sender and the field
  of the recipient, or none when the message or the address is not valid.\<close>

definition addrPair :: "string \<Rightarrow> string" where
  "addrPair a = fst (ParseAddress a) @ ''@'' @ snd (ParseAddress a)"

definition Append ::
  "(bytes \<Rightarrow> bytes) \<Rightarrow> string \<Rightarrow> int \<Rightarrow> (bytes \<Rightarrow> (string \<times> string) option) \<Rightarrow> (nat \<Rightarrow> update \<Rightarrow> bool) \<Rightarrow> string \<Rightarrow> bytes \<Rightarrow>
   imapServer \<Rightarrow> imapSession \<Rightarrow> (imapError + AppendData) \<times> imapServer" where
  "Append gzip now time parse accepts name b B s =
     (if (of_nat (length b) :: u32) \<ge> iMaxEmailSize B then (Inl ErrTooBig, B)
      else
        case getBox B s name of
          Inl err \<Rightarrow> (Inl err, B)
        | Inr v \<Rightarrow>
            (case parse b of
               None \<Rightarrow> (Inl ErrMessage, B)
             | Some (frm, to) \<Rightarrow>
                 if frm \<noteq> iUser s then (Inl ErrFrom, B)
                 else
                   let row = \<lparr>eID = 0, mailFrom = addrPair frm, rcptTo = addrPair to, spamScore = None,
                              fileName = [], fileOffset = 0, internalDate = time\<rparr>;
                       box = iViews B v
                   in case StoreEmail gzip now row b False (AddMailboxEmail (uint (vID box))) (userStore B s) of
                        (Inl err, st) \<Rightarrow> (Inl ErrInternal, setStore s st B)
                      | (Inr i, st) \<Rightarrow>
                          (case tell v (WriteNewMessages accepts 1) (setStore s st B) of
                             (Some err, B') \<Rightarrow> (Inl err, B')
                           | (None, B') \<Rightarrow> (Inr \<lparr>adUID = of_int i, adUIDValidity = vID box\<rparr>, B'))))"

section \<open>What the commands keep\<close>

text \<open>What a session does to the stores: steps on that of its user, and nothing to the others.\<close>

definition userSteps :: "(bytes \<Rightarrow> bytes) \<Rightarrow> string \<Rightarrow> imapServer \<Rightarrow> imapServer \<Rightarrow> bool" where
  "userSteps gzip user B B' \<longleftrightarrow> (box_step gzip)\<^sup>*\<^sup>* (iStores B user) (iStores B' user) \<and>
     (\<forall>u. u \<noteq> user \<longrightarrow> iStores B' u = iStores B u)"

lemma iStores_kept [simp]:
  "iStores (setView v x B) = iStores B" "iStores (BoxesAdd bx y B) = iStores B" "iStores (BoxesDelete bx n B) = iStores B"
  "iStores (SetUserBoxes u bx B) = iStores B" "iStores (snd (tell v f B)) = iStores B"
  by (simp_all add: setView_def BoxesAdd_def BoxesDelete_def SetUserBoxes_def tell_def Let_def)

lemma iStores_loadViews [simp]: "iStores (loadViews bx rows B) = iStores B"
  by (induction bx rows B rule: loadViews.induct) simp_all

lemma userSteps_same: "iStores B' = iStores B \<Longrightarrow> userSteps gzip u B B'"
  by (simp add: userSteps_def)

lemma userSteps_refl [simp]: "userSteps gzip u B B"
  by (simp add: userSteps_def)

lemma userSteps_trans: "userSteps gzip u B B' \<Longrightarrow> userSteps gzip u B' B'' \<Longrightarrow> userSteps gzip u B B''"
  unfolding userSteps_def by (auto intro: rtranclp_trans)

lemma userSteps_cong: "iStores B' = iStores C \<Longrightarrow> userSteps gzip u B B' \<longleftrightarrow> userSteps gzip u B C"
  by (simp add: userSteps_def)

lemma userSteps_setStore: "box_step gzip (userStore B s) st \<Longrightarrow> userSteps gzip (iUser s) B (setStore s st B)"
  by (simp add: userSteps_def setStore_def userStore_def)

text \<open>A handler that leaves the stores alone, or makes one step.\<close>

lemma userSteps_one:
  "box_step gzip (userStore B s) st \<Longrightarrow> iStores B' \<in> {iStores B, iStores (setStore s st B)} \<Longrightarrow> userSteps gzip (iUser s) B B'"
  using userSteps_setStore [of gzip B s st] userSteps_cong [of B'] userSteps_same [of B' B] by blast

lemma iStores_tell: "tell v f B = (err, B') \<Longrightarrow> iStores B' = iStores B"
  by (auto simp: tell_def Let_def)

lemma iStores_setStore: "iStores (setStore s st B) = (iStores B)(iUser s := st)"
  by (simp add: setStore_def)

lemma userSteps_Select: "userSteps gzip (iUser s) B (fst (snd (Select name ro B s)))"
  by (rule userSteps_one [OF box_step.describe [of _ _ name]]) (auto simp: Select_def split: sum.split prod.split)

lemma userSteps_Create: "userSteps gzip (iUser s) B (snd (Create name B s))"
  by (rule userSteps_one [OF box_step.creation [of _ _ "trimSlash name"]]) (auto simp: Create_def split: sum.split prod.split imapError.split)

lemma userSteps_Delete: "userSteps gzip (iUser s) B (snd (Delete name B s))"
proof (cases "getBox B s name")
  case (Inr v)
  show ?thesis
    by (rule userSteps_one [OF box_step.mailboxDeletion [of _ _ "uint (vID (iViews B v))"]])
      (auto simp: Delete_def Inr Let_def split: option.split prod.split)
qed (simp add: Delete_def)

lemma userSteps_Rename: "userSteps gzip (iUser s) B (snd (Rename name newName B s))"
proof (cases "getBox B s name")
  case (Inr v)
  show ?thesis
    by (rule userSteps_one [OF box_step.renaming [of _ _ "uint (vID (iViews B v))" newName]])
      (auto simp: Rename_def Inr split: option.split prod.split)
qed (simp add: Rename_def)

lemma userSteps_Status: "userSteps gzip (iUser s) B (snd (Status name opt B s))"
  by (rule userSteps_one [OF box_step.status [of _ _ name opt]]) (auto simp: Status_def split: sum.split prod.split boxError.split)

lemma userSteps_attributes:
  "GetMailboxAttributes box (userStore B s) = (x, st) \<Longrightarrow> userSteps gzip (iUser s) B (setStore s st B)"
  using userSteps_setStore [OF box_step.attributes [of gzip "userStore B s" box]] by simp

lemma userSteps_listStatus: "userSteps gzip (iUser s) B (snd (listStatus ret box B s))"
  using userSteps_Status [of gzip s B box "the ret"]
  by (auto simp: listStatus_def split: option.split prod.split sum.split imapError.split)

lemma userSteps_listLoop: "userSteps gzip (iUser s) B (snd (listLoop matches takes ret pairs B s))"
proof (induction pairs arbitrary: B)
  case (Cons pb rest)
  obtain p box where pb: "pb = (p, box)" by fastforce
  obtain x st where attrs: "GetMailboxAttributes box (userStore B s) = (x, st)" by fastforce
  obtain y B2 where y: "listStatus ret box (setStore s st B) s = (y, B2)" by fastforce
  note 1 = userSteps_attributes [OF attrs, of gzip]
  have 2: "userSteps gzip (iUser s) B B2"
    using userSteps_trans [OF 1 userSteps_listStatus [of gzip s "setStore s st B" ret box]] y by simp
  show ?case
    using 1 2 Cons.IH [of B] userSteps_trans [OF 2 Cons.IH] attrs y
    by (simp add: pb Let_def split: sum.split prod.split) (metis snd_conv)
qed simp

lemma userSteps_ListCmd: "userSteps gzip (iUser s) B (snd (ListCmd matches takes names patterns sub ret B s))"
  unfolding ListCmd_def by (rule userSteps_listLoop)

lemma userSteps_Append:
  assumes "length b < MaxEmailSizeInFile" and "now \<noteq> []"
    and "unat (sOffset (userStore B s)) + recordSize (recordOf gzip False b) < 2 ^ 32"
  shows "userSteps gzip (iUser s) B (snd (Append gzip now time parse accepts name b B s))"
proof (cases "\<exists>v frm to. getBox B s name = Inr v \<and> parse b = Some (frm, to)")
  case True
  then obtain v frm to where v: "getBox B s name = Inr v" "parse b = Some (frm, to)" by blast
  let ?row = "\<lparr>eID = 0, mailFrom = addrPair frm, rcptTo = addrPair to, spamScore = None,
                              fileName = [], fileOffset = 0, internalDate = time\<rparr>"
  have "box_step gzip (userStore B s)
     (snd (StoreEmail gzip now ?row b False (AddMailboxEmail (uint (vID (iViews B v)))) (userStore B s)))"
    by (rule box_step.mail) (rule mail_step.append [OF assms])
  from userSteps_one [OF this] show ?thesis
    by (rule meta_mp) (auto simp: Append_def v Let_def dest: iStores_tell split: sum.split prod.split option.split)
qed (auto simp: Append_def split: sum.split option.split)

lemma Login_stores: "iStores (fst (snd (Login w b local addr ds loaded user password B s))) = iStores B"
  by (simp add: Login_def loadBoxes_def Let_def split: option.split prod.split)

section \<open>Properties\<close>

lemma Login_cases:
  assumes "Login w b local addr ds loaded user password B s = (err, B', s')" and "iMailboxes s = None"
  shows "iUser s' = (if tryDomains w b local user password ds then user else iUser s)"
    "iUser s' = [] \<longrightarrow> iMailboxes s' = None"
    "iUser s' \<noteq> [] \<longrightarrow> iMailboxes s' = None \<longrightarrow> err = Some ErrInternal \<or> err = Some PanicClose"
    "iMailboxes s' \<noteq> None \<longrightarrow> iUser s' = user \<or> iUser s' = iUser s"
    "iMailboxes s' \<noteq> None \<longrightarrow> iUser s' = user \<longrightarrow> GetUserBoxes B' (iUser s') = iMailboxes s'"
  using assms
  by (auto simp: Login_def loadBoxes_def Let_def GetUserBoxes_def SetUserBoxes_def split: if_splits option.splits prod.splits)

text \<open>The user name of a session is one it gave with a password that was verified; and a session
  with a user name and no mailboxes has had a login that failed after it was verified.\<close>

lemma login_run_user:
  assumes "login_run w b tries s"
  shows "(iUser s \<noteq> [] \<longrightarrow> (\<exists>t \<in> set tries. tryUser t = iUser s \<and> tryVerified w b t)) \<and>
    (iUser s \<noteq> [] \<longrightarrow> iMailboxes s = None \<longrightarrow> (\<exists>t \<in> set tries. tryErr t = Some ErrInternal \<or> tryErr t = Some PanicClose))"
  using assms
proof (induction rule: login_run.induct)
  case new
  show ?case by (simp add: newImapSession_def)
next
  case (login tries s local addr ds loaded user password B err B' s')
  note c = Login_cases [OF login(3,2)]
  show ?case
    using c(1,3) login(2,4) tryDomains_verified [of w b local user password ds]
    by (auto simp: tryVerified_def split: if_splits)
qed

text \<open>C35: no session sees mailboxes without a password. Whatever logins a session was asked for, when
  it has mailboxes one of them was with the name of its user and a password that a domain of the
  server verified. The mailboxes are then those of that user, unless an earlier login of the
  session failed after it had been verified (the theorem \<open>failed_load_opens_session\<close>). A login never
  touches what is stored.\<close>

theorem imap_login_safe:
  assumes "login_run w b tries s" and "iMailboxes s = None"
    and "Login w b local addr ds loaded user password B s = (err, B', s')"
  shows "iStores B' = iStores B \<and>
    (iMailboxes s' \<noteq> None \<longrightarrow>
      (\<exists>t \<in> set (tries @ [\<lparr>tryLocal = local, tryDs = ds, tryUser = user, tryPassword = password, tryErr = err\<rparr>]).
         tryUser t = iUser s' \<and> tryVerified w b t) \<and>
      (GetUserBoxes B' (iUser s') = iMailboxes s' \<or>
       (\<exists>t \<in> set tries. tryErr t = Some ErrInternal \<or> tryErr t = Some PanicClose)))"
proof (intro conjI impI)
  show "iStores B' = iStores B" using Login_stores [of w b local addr ds loaded user password B s] assms(3) by simp
next
  assume m: "iMailboxes s' \<noteq> None"
  note c = Login_cases [OF assms(3,2)]
  show "\<exists>t \<in> set (tries @ [\<lparr>tryLocal = local, tryDs = ds, tryUser = user, tryPassword = password, tryErr = err\<rparr>]).
      tryUser t = iUser s' \<and> tryVerified w b t"
    using login_run_user [OF login_run.login [OF assms]] c(2) m by blast
  show "GetUserBoxes B' (iUser s') = iMailboxes s' \<or>
      (\<exists>t \<in> set tries. tryErr t = Some ErrInternal \<or> tryErr t = Some PanicClose)"
    using login_run_user [OF assms(1)] assms(2) c(1,2,5) m by (cases "iUser s = []") (auto split: if_splits)
qed

text \<open>a login that was verified and whose mailboxes could not be loaded leaves the session with its
  user name: another login then needs no password, and gives the session the mailboxes of
  whatever user it names.\<close>

theorem failed_load_opens_session:
  assumes "tryDomains w b local user password ds" and "user \<noteq> []" and "GetUserBoxes B user = None"
    and "crashed (AcceptLogin addr (iLimiter B)) = None" and "crashed (AcceptLogin addr (AcceptLogin addr (iLimiter B))) = None"
    and "\<not> tryDomains w b local user2 password2 ds"
    and "Login w b local addr ds False user password B s = (err, B1, s1)"
    and "Login w b local addr ds True user2 password2 B1 s1 = (err2, B2, s2)"
  shows "err = Some ErrInternal \<and> err2 = None \<and> iUser s2 = user \<and> iMailboxes s2 \<noteq> None \<and>
    GetUserBoxes B2 user2 = iMailboxes s2"
  using assms
  by (auto simp: Login_def loadBoxes_def Let_def GetUserBoxes_def SetUserBoxes_def split: prod.splits)

lemma fresh_mailbox_empty:
  "dbOk db \<Longrightarrow> insertMailbox name db = (i, db') \<Longrightarrow> CountMailboxEmails db' i = 0"
  using nextId_fresh [of "map fst (tMailbox db)"]
  by (fastforce simp: insertMailbox_def Let_def CountMailboxEmails_def boxIds_def filter_empty_conv dbOk_def referencesOk_def mailboxIds_def)

lemma GetOrCreateMailbox_new:
  assumes "dbOk db" "name \<noteq> []" "name \<notin> set (map snd (tMailbox db))"
  shows "\<exists>i db'. GetOrCreateMailbox name db = Inr ((i, name), db') \<and> CountMailboxEmails db' i = 0"
proof -
  have "find (\<lambda>(i, n). n = name) (tMailbox db) = None" using assms(3) by (force simp: find_None_iff)
  then show ?thesis
    using assms(2) fresh_mailbox_empty [OF assms(1), of name] unfolding GetOrCreateMailbox_def
    by (cases "insertMailbox name db") simp
qed

lemma RenameMailboxRow_name:
  assumes "dbOk db" "(i, name) \<in> set (tMailbox db)" "name \<noteq> newName" "RenameMailboxRow newName i db = Inr db'"
  shows "name \<notin> set (map snd (tMailbox db'))" "name \<noteq> []"
proof -
  have d: "distinct (map snd (tMailbox db))" and "[] \<notin> set (map snd (tMailbox db))"
    using assms(1) by (auto simp: dbOk_def mailboxRowsOk_def)
  then show "name \<noteq> []" using assms(2) by force
  have one: "j = i" if "(j, name) \<in> set (tMailbox db)" for j
    using inj_onD [of snd "set (tMailbox db)" "(j, name)" "(i, name)"] d that assms(2) by (simp add: distinct_map)
  have "tMailbox db' = map (\<lambda>(j, n). if j = i then (j, newName) else (j, n)) (tMailbox db)"
    using assms(4) by (auto simp: RenameMailboxRow_def Let_def split: if_splits)
  moreover have "snd (if j = i then (j, newName) else (j, n)) \<noteq> name" if "(j, n) \<in> set (tMailbox db)" for j n
    using one that assms(3) by auto
  ultimately show "name \<notin> set (map snd (tMailbox db'))" by fastforce
qed

text \<open>RENAME hides the mailbox: after it has succeeded the new name is not found, and the old
  one, which is, selects another mailbox that is created then and is empty.\<close>

theorem rename_hides_mailbox:
  assumes "dbOk (sDB (userStore B s))" and "iMailboxes s = Some bx"
    and "BoxesGet B bx name = Some v" and "BoxesGet B bx newName = None"
    and "(uint (vID (iViews B v)), name) \<in> set (tMailbox (sDB (userStore B s)))"
    and "Rename name newName B s = (None, B')"
  shows "fst (Select newName ro B' s) = Inl ErrNotFound \<and>
    (\<exists>res. fst (Select name ro B' s) = Inr res \<and> sdNumMessages res = 0)"
proof -
  let ?i = "uint (vID (iViews B v))" and ?db = "sDB (userStore B s)"
  obtain db where db: "RenameMailboxRow newName ?i ?db = Inr db"
    and B': "B' = setStore s ((userStore B s)\<lparr>sDB := db\<rparr>) B" and free: "\<not> sBusy (userStore B s)"
    using assms(2,3,6) by (auto simp: Rename_def getBox_def RenameMailbox_def onDB_def split: sum.splits if_splits)
  have boxes: "BoxesGet B' = BoxesGet B" by (simp add: B' setStore_def BoxesGet_def fun_eq_iff)
  have "name \<noteq> newName" using assms(3,4) by auto
  note gone = RenameMailboxRow_name [OF assms(1,5) this db]
  have "sDB (userStore B' s) = db" "\<not> sBusy (userStore B' s)" using free by (simp_all add: B' userStore_def setStore_def)
  then have "\<exists>res st. DescribeMailbox name (userStore B' s) = (Inr res, st) \<and> sdNumMessages res = 0"
    using GetOrCreateMailbox_new [OF dbOk_RenameMailboxRow [OF assms(1) db] gone(2,1)]
    by (auto simp: DescribeMailbox_def onDB_def)
  then show ?thesis using assms(2-4) by (auto simp: Select_def getBox_def boxes)
qed

text \<open>A server with one user, who has one mail and is logged in.\<close>

definition demoServer :: imapServer where
  "demoServer =
     fst (snd (Login emptyWorld demoBackend [] ''192.0.2.1'' [''a.org''] True ''bob@a.org'' ''pw''
       \<lparr>iViews = \<lambda>_. NewView 0 [] 0, iNextView = 0, iBoxes = \<lambda>_. Map.empty, iNextBoxes = 0, iUserBoxes = Map.empty,
        iStores = (\<lambda>_. demoStore), iMaxEmailSize = 1000, iLimiter = NewRateLimiter\<rparr> newImapSession))"

definition demoSession :: imapSession where
  "demoSession = newImapSession\<lparr>iUser := ''bob@a.org'', iMailboxes := Some 0\<rparr>"

lemma demo_login:
  "Login emptyWorld demoBackend [] ''192.0.2.1'' [''a.org''] True ''bob@a.org'' ''pw''
       \<lparr>iViews = \<lambda>_. NewView 0 [] 0, iNextView = 0, iBoxes = \<lambda>_. Map.empty, iNextBoxes = 0, iUserBoxes = Map.empty,
        iStores = (\<lambda>_. demoStore), iMaxEmailSize = 1000, iLimiter = NewRateLimiter\<rparr> newImapSession =
     (None, demoServer, demoSession)"
  by (simp add: demoServer_def demoSession_def newImapSession_def Login_def demoBackend_def VerifyUser_def demoConfig_def emptyWorld_def
      NewRateLimiter_def AcceptLogin_def GetUserBoxes_def loadBoxes_def Let_def)

theorem imap_login_safe_witness:
  "iStores demoServer = (\<lambda>_. demoStore) \<and>
   tryVerified emptyWorld demoBackend
     \<lparr>tryLocal = [], tryDs = [''a.org''], tryUser = ''bob@a.org'', tryPassword = ''pw'', tryErr = None\<rparr> \<and>
   GetUserBoxes demoServer ''bob@a.org'' = Some 0"
  using imap_login_safe [OF login_run.new _ demo_login] by (simp add: newImapSession_def demoSession_def)

theorem failed_load_opens_session_witness:
  "let B = \<lparr>iViews = \<lambda>_. NewView 0 [] 0, iNextView = 0, iBoxes = \<lambda>_. Map.empty, iNextBoxes = 0, iUserBoxes = Map.empty,
        iStores = (\<lambda>_. demoStore), iMaxEmailSize = 1000, iLimiter = NewRateLimiter\<rparr>
   in case Login emptyWorld demoBackend [] ''192.0.2.1'' [''a.org''] False ''bob@a.org'' ''pw'' B newImapSession of
        (err, B1, s1) \<Rightarrow>
          (case Login emptyWorld demoBackend [] ''192.0.2.1'' [''a.org''] True ''eve@a.org'' ''x'' B1 s1 of
             (err2, B2, s2) \<Rightarrow> err2 = None \<and> GetUserBoxes B2 ''eve@a.org'' = iMailboxes s2)"
proof -
  let ?B = "\<lparr>iViews = \<lambda>_. NewView 0 [] 0, iNextView = 0, iBoxes = \<lambda>_. Map.empty, iNextBoxes = 0, iUserBoxes = Map.empty,
        iStores = (\<lambda>_. demoStore), iMaxEmailSize = 1000, iLimiter = NewRateLimiter\<rparr>"
  obtain err B1 s1 where 1: "Login emptyWorld demoBackend [] ''192.0.2.1'' [''a.org''] False ''bob@a.org'' ''pw'' ?B newImapSession = (err, B1, s1)"
    using prod_cases3 by blast
  obtain err2 B2 s2 where 2: "Login emptyWorld demoBackend [] ''192.0.2.1'' [''a.org''] True ''eve@a.org'' ''x'' B1 s1 = (err2, B2, s2)"
    using prod_cases3 by blast
  have v: "tryDomains emptyWorld demoBackend [] ''bob@a.org'' ''pw'' [''a.org'']" "\<not> tryDomains emptyWorld demoBackend [] ''eve@a.org'' ''x'' [''a.org'']"
    by (simp_all add: demoBackend_def VerifyUser_def demoConfig_def emptyWorld_def)
  have a: "AcceptLogin ''192.0.2.1'' NewRateLimiter = NewRateLimiter" "crashed NewRateLimiter = None"
    by (simp_all add: AcceptLogin_def NewRateLimiter_def)
  show ?thesis
    using failed_load_opens_session [OF v(1) _ _ _ _ v(2) 1 2] a by (simp add: 1 2 GetUserBoxes_def)
qed

lemma demo_fields:
  "iStores demoServer = (\<lambda>_. demoStore)" "iMaxEmailSize demoServer = 1000"
  "iBoxes demoServer 0 = [''INBOX'' \<mapsto> 0, ''Junk'' \<mapsto> 1, ''Sent'' \<mapsto> 2, ''Trash'' \<mapsto> 3]"
  "iViews demoServer 0 = NewView 1 ''INBOX'' 1" "iUserBoxes demoServer = [''bob@a.org'' \<mapsto> 0]"
  "iViews demoServer 2 = NewView 3 ''Sent'' 0"
  by (simp_all add: demoServer_def newImapSession_def Login_def demoBackend_def VerifyUser_def demoConfig_def emptyWorld_def
      NewRateLimiter_def AcceptLogin_def GetUserBoxes_def loadBoxes_def Let_def LoadMailbox_def ListMailboxRows_def demoStore_files
      newDB_def BoxesAdd_def NewView_def SetUserBoxes_def numeral_2_eq_2 numeral_3_eq_3)

theorem rename_hides_mailbox_witness:
  "\<exists>B'. Rename ''Sent'' ''Old'' demoServer demoSession = (None, B') \<and> fst (Select ''Old'' False B' demoSession) = Inl ErrNotFound"
proof -
  obtain B' where r: "Rename ''Sent'' ''Old'' demoServer demoSession = (None, B')"
    by (simp add: Rename_def getBox_def demoSession_def newImapSession_def BoxesGet_def demo_fields userStore_def RenameMailbox_def
        onDB_def RenameMailboxRow_def demoStore_files newDB_def NewView_def)
  have "fst (Select ''Old'' False B' demoSession) = Inl ErrNotFound"
    using rename_hides_mailbox [OF _ _ _ _ _ r, of 0 2 False] storeOk_dbOk [OF storeOk_demoStore]
    by (simp add: demoSession_def newImapSession_def BoxesGet_def demo_fields userStore_def demoStore_files newDB_def NewView_def)
  then show ?thesis using r by blast
qed

lemma no_inbox:
  assumes "InboxMailbox \<notin> mailboxIds (sDB st)"
  shows "\<exists>err. fst (StoreEmailInbox gzip now row b [] enc st) = Inl err"
proof -
  have "AddMailboxEmail InboxMailbox i db \<noteq> Inr db'" if "NewEmail row' (sDB st) = Inr (i, db)" for i db db' row'
    using assms NewEmail_Inr [OF that] by (simp add: AddMailboxEmail_def mailboxIds_def)
  then show ?thesis
    by (auto simp: StoreEmailInbox_def StoreEmail_def inboxCallback_def onDB_def Let_def split: sum.split)
qed

text \<open>DELETE takes the inbox too, and then no mail is delivered to the user any more: every
  mail for the inbox fails to be stored, after its content has been written.\<close>

theorem deleted_inbox_loses_mail:
  assumes "getBox B s ''INBOX'' = Inr v" and "vID (iViews B v) = 1" and "GetUserBoxes B (iUser s) = Some bx"
    and "\<not> sBusy (userStore B s)"
  shows "fst (Delete ''INBOX'' B s) = None \<and>
    (\<exists>err. fst (StoreEmailInbox gzip now row b [] enc (userStore (snd (Delete ''INBOX'' B s)) s)) = Inl err)"
proof -
  let ?B = "snd (Delete ''INBOX'' B s)"
  have "fst (Delete ''INBOX'' B s) = None" and st: "userStore ?B s = snd (DeleteMailbox 1 (userStore B s))"
    using assms by (simp_all add: DeleteMailbox_eq Delete_def Let_def GetUserBoxes_def setStore_def userStore_def BoxesDelete_def)
  moreover have "InboxMailbox \<notin> mailboxIds (sDB (userStore ?B s))"
    using assms(4) unfolding st by (auto simp: DeleteMailbox_eq CleanEmails_def deleteEmails_def DeleteMailboxRow_def mailboxIds_def InboxMailbox_def)
  ultimately show ?thesis using no_inbox by blast
qed

theorem deleted_inbox_loses_mail_witness:
  "\<exists>err. fst (StoreEmailInbox (\<lambda>b. b) ''2'' demoRow [66] [] False
     (userStore (snd (Delete ''INBOX'' demoServer demoSession)) demoSession)) = Inl err"
  using deleted_inbox_loses_mail [of demoServer demoSession 0 0 "\<lambda>b. b" "''2''" demoRow "[66]" False]
  by (simp add: getBox_def demoSession_def newImapSession_def BoxesGet_def GetUserBoxes_def demo_fields NewView_def userStore_def demoStore_files)

lemma AddMailboxEmail_in: "AddMailboxEmail box i db = Inr db' \<Longrightarrow> (box, i) \<in> set (tMailboxEmails db')"
  by (auto simp: AddMailboxEmail_def split: if_splits)

text \<open>C25: APPEND stores what the user sent and nothing of others: when it succeeds the message is
  one of the user, it is read back under the UID that is answered, it is in the mailbox that was named, and
  every other mail is read as before. The message is of less than five mebibytes and ends below the offset of four
  gibibytes (a bigger one is recorded in the wrong place, \<open>big_mail_misplaced\<close> of \<open>Store_Mail\<close>).\<close>

theorem appended_mail_is_read:
  assumes "gunzip (gzip b) = Some b" and "storeOk gzip (userStore B s)"
    and "length b < MaxEmailSizeInFile" and "now \<noteq> []"
    and "unat (sOffset (userStore B s)) + recordSize (recordOf gzip False b) < 2 ^ 32"
    and "Append gzip now time parse accepts name b B s = (Inr d, B')"
  shows "\<exists>v to i h. getBox B s name = Inr v \<and> parse b = Some (iUser s, to) \<and> adUID d = of_int i \<and>
    (uint (vID (iViews B v)), i) \<in> set (tMailboxEmails (sDB (userStore B' s))) \<and>
    Read gunzip i (userStore B' s) = Inr (Some (b, h)) \<and>
    (\<forall>e \<in> set (tEmails (sDB (userStore B s))). Read gunzip (eID e) (userStore B' s) = Read gunzip (eID e) (userStore B s))"
proof -
  obtain v to row i st where v: "getBox B s name = Inr v" "parse b = Some (iUser s, to)" "adUID d = of_int i"
    and run: "StoreEmail gzip now row b False (AddMailboxEmail (uint (vID (iViews B v)))) (userStore B s) = (Inr i, st)"
    and B': "userStore B' s = st"
    using assms(6) by (auto simp: Append_def Let_def userStore_def setStore_def dest!: iStores_tell split: if_splits sum.splits option.splits prod.splits)
  obtain db where "AddMailboxEmail (uint (vID (iViews B v))) i db = Inr (sDB st)" using StoreEmail_callback [OF run] by blast
  then have "(uint (vID (iViews B v)), i) \<in> set (tMailboxEmails (sDB st))"
    by (rule AddMailboxEmail_in)
  then show ?thesis
    using StoreEmail_reads [where gunzip = gunzip, OF assms(1-4) goodCallback_AddMailboxEmail assms(5) run] v unfolding B' by auto
qed

theorem appended_mail_is_read_witness:
  "\<exists>d B' i h. Append (\<lambda>b. b) ''2'' 0 (\<lambda>_. Some (''bob@a.org'', [])) (\<lambda>_ _. True) ''Sent'' [66] demoServer demoSession = (Inr d, B') \<and>
     Read Some i (userStore B' demoSession) = Inr (Some ([66], h))"
proof -
  let ?run = "Append (\<lambda>b. b) ''2'' 0 (\<lambda>_. Some (''bob@a.org'', [])) (\<lambda>_ _. True) ''Sent'' [66] demoServer demoSession"
  have st: "userStore demoServer demoSession = demoStore" by (simp add: userStore_def demo_fields)
  have "getBox demoServer demoSession ''Sent'' = Inr 2"
    by (simp add: getBox_def demoSession_def newImapSession_def BoxesGet_def demo_fields)
  moreover obtain st' where "StoreEmail (\<lambda>b. b) ''2'' \<lparr>eID = 0, mailFrom = addrPair ''bob@a.org'', rcptTo = addrPair [], spamScore = None,
      fileName = [], fileOffset = 0, internalDate = 0\<rparr> [66] False (AddMailboxEmail 3) demoStore = (Inr 2, st')"
    by (simp add: StoreEmail_def onDB_def OpenFile_def WriteEmail_def Let_def NewEmail_def nextId_def AddMailboxEmail_def demoStore_files
        demoStore_emails MaxFileSize_def MaxEmailSizeInFile_def CompressEmailBiggerThan_def newDB_def demoRow_def)
  moreover have "iUser demoSession = ''bob@a.org''" by (simp add: demoSession_def)
  ultimately have "\<exists>d B'. ?run = (Inr d, B')"
    by (simp add: Append_def st demo_fields NewView_def Let_def tell_def setStore_def WriteNewMessages_def withRLock_def word_le_nat_alt)
  then obtain d B' where run: "?run = (Inr d, B')" by blast
  from appended_mail_is_read [OF _ _ _ _ _ run, of Some]
  have "\<exists>i h. Read Some i (userStore B' demoSession) = Inr (Some ([66], h))"
    by (simp add: st storeOk_demoStore MaxEmailSizeInFile_def demoStore_files recordSize_def recordOf_def CompressEmailBiggerThan_def)
      blast
  then show ?thesis using run by blast
qed

end
