(* ===== verification/Imap_Selected.thy ===== *)
theory Imap_Selected
  imports Imap_Session
begin

text \<open>
  The commands of an IMAP session on its selected mailbox: \<open>src/display/session_selected.go\<close>.

  What the IMAP library extracts from a message is an argument, \<open>fetchLib\<close>. A handler gives what
  it wrote to the connection, the error or the panic it ended with, and the server it leaves. A
  response of \<open>Fetch\<close> that is begun and not closed stays in what was written, with
  \<open>fiClosed\<close> false.
\<close>

section \<open>Closing and expunging\<close>

text \<open>\<open>s.selected\<close>, which the handlers dereference.\<close>

definition selectedView :: "imapServer \<Rightarrow> imapSession \<Rightarrow> imapError + View" where
  "selectedView B s = (case iSelected s of None \<Rightarrow> Inl NilPointer | Some v \<Rightarrow> Inr (iViews B v))"

definition selectedID :: "View \<Rightarrow> int" where
  "selectedID v = uint (vID v)"

definition CloseCmd :: "imapServer \<Rightarrow> imapSession \<Rightarrow> imapError option \<times> imapServer \<times> imapSession" where
  "CloseCmd B s =
     (if iSelected s = None then (None, B, s)
      else
        case DeleteEmailsWithFlag DeletedFlag (userStore B s) of
          (Inl err, st) \<Rightarrow> (Some ErrInternal, setStore s st B, s)
        | (Inr _, st) \<Rightarrow> (None, setStore s st B, s\<lparr>iSelected := None\<rparr>))"

text \<open>A loop of writes, up to the first one the connection does not take.\<close>

fun writeAll :: "('a \<Rightarrow> bool) \<Rightarrow> 'a list \<Rightarrow> imapError option \<times> 'a list" where
  "writeAll takes [] = (None, [])"
| "writeAll takes (x # xs) =
     (if \<not> takes x then (Some ErrConn, []) else case writeAll takes xs of (err, ys) \<Rightarrow> (err, x # ys))"

text \<open>\<open>uids.Nums()\<close> is nil when the set is dynamic.\<close>

definition numsOf :: "numbers \<Rightarrow> u32 list" where
  "numsOf v = (if Dynamic v then [] else Nums v)"

definition Expunge ::
  "(u32 \<Rightarrow> bool) \<Rightarrow> numbers option \<Rightarrow> imapServer \<Rightarrow> imapSession \<Rightarrow> (imapError option \<times> u32 list) \<times> imapServer" where
  "Expunge takes uids B s =
     (case uids of
        None \<Rightarrow>
          (case DeleteEmailsWithFlag DeletedFlag (userStore B s) of
             (Inl err, st) \<Rightarrow> ((Some ErrInternal, []), setStore s st B)
           | (Inr deleted, st) \<Rightarrow> (writeAll takes (Map deleted (\<lambda>d. of_int (eID d))), setStore s st B))
      | Some v \<Rightarrow>
          (case selectedView B s of
             Inl err \<Rightarrow> ((Some err, []), B)
           | Inr sel \<Rightarrow>
               (case RemoveMailboxEmails (selectedID sel) (Map (numsOf v) (\<lambda>u. uint u)) (userStore B s) of
                  (Some err, st) \<Rightarrow> ((Some ErrInternal, []), setStore s st B)
                | (None, st) \<Rightarrow> (writeAll takes (numsOf v), setStore s st B))))"

definition SearchCmd ::
  "(string \<Rightarrow> int \<Rightarrow> dbError + (int \<times> string \<times> int) list) \<Rightarrow> SearchCriteria \<Rightarrow> SearchOptions \<Rightarrow> imapServer \<Rightarrow> imapSession \<Rightarrow>
   imapError + SearchData" where
  "SearchCmd sqlite criteria options B s =
     (case selectedView B s of
        Inl err \<Rightarrow> Inl err
      | Inr sel \<Rightarrow> (case Search sqlite (selectedID sel) criteria options of Inl err \<Rightarrow> Inl (ErrSearch err) | Inr d \<Rightarrow> Inr d))"

section \<open>Fetching\<close>

record bodySection =
  secPeek :: bool
  secSpec :: string

record FetchOptions =
  fUID :: bool
  fFlags :: bool
  fInternalDate :: bool
  fEnvelope :: bool
  fRFC822Size :: bool
  fBodyStructure :: bool
  fBodySection :: "bodySection list"
  fBinarySection :: "bodySection list"
  fBinarySectionSize :: "string list"

record fetchLib =
  ExtractEnvelope :: "bytes \<Rightarrow> bytes"
  ExtractBodyStructure :: "bytes \<Rightarrow> bytes"
  ExtractBodySection :: "bytes \<Rightarrow> bodySection \<Rightarrow> bytes"
  ExtractBinarySection :: "bytes \<Rightarrow> bodySection \<Rightarrow> bytes"
  ExtractBinarySectionSize :: "bytes \<Rightarrow> string \<Rightarrow> u32"

datatype fetchData =
    DataUID u32
  | DataFlags "string list"
  | DataInternalDate int
  | DataEnvelope bytes
  | DataRFC822Size int
  | DataBodyStructure bytes
  | DataBodySection bodySection bytes
  | DataBinarySection bodySection bytes
  | DataBinarySectionSize string u32

record FetchItem =
  fiSeq :: u32
  fiData :: "fetchData list"
  fiClosed :: bool

text \<open>What the connection takes: the content of a section, and the end of a response.\<close>

record fetchConn =
  takesSection :: "fetchData \<Rightarrow> bool"
  takesItem :: "FetchItem \<Rightarrow> bool"

definition markSeen :: "FetchOptions \<Rightarrow> bool" where
  "markSeen opt =
     fold (\<lambda>sec m. m \<and> \<not> secPeek sec) (fBodySection opt) (fold (\<lambda>sec m. m \<and> \<not> secPeek sec) (fBinarySection opt) True)"

definition needsContent :: "FetchOptions \<Rightarrow> bool" where
  "needsContent opt \<longleftrightarrow> fRFC822Size opt \<or> fBodyStructure opt \<or> fBodySection opt \<noteq> [] \<or> fBinarySection opt \<noteq> [] \<or>
     fBinarySectionSize opt \<noteq> []"

text \<open>Marking a mail as seen, and telling the sessions that wait on the mailbox of that name.\<close>

definition seeMail :: "(nat \<Rightarrow> update \<Rightarrow> bool) \<Rightarrow> View \<Rightarrow> Email \<Rightarrow> imapServer \<Rightarrow> imapSession \<Rightarrow> imapError option \<times> imapServer" where
  "seeMail accepts sel e B s =
     (case AddEmailFlag (eID e) SeenFlag (userStore B s) of
        (Some err, st) \<Rightarrow> (Some ErrInternal, setStore s st B)
      | (None, st) \<Rightarrow>
          let B1 = setStore s st B in
          (case getBox B1 s (vName sel) of
             Inl _ \<Rightarrow> (Some NilPointer, B1)
           | Inr v \<Rightarrow> tell v (WriteMailboxFlags accepts [sysFlag ''Seen'']) B1))"

text \<open>What is written of a message before its content is read, and after.\<close>

definition dataBefore :: "FetchOptions \<Rightarrow> Email \<Rightarrow> mailStore \<Rightarrow> fetchData list" where
  "dataBefore opt e st =
     (if fUID opt then [DataUID (of_int (eID e))] else []) @
     (if fFlags opt then [DataFlags (Map (ListEmailFlags (eID e) st) (\<lambda>f. snd f))] else []) @
     (if fInternalDate opt then [DataInternalDate (internalDate e)] else [])"

definition dataHead :: "fetchLib \<Rightarrow> FetchOptions \<Rightarrow> bytes \<Rightarrow> fetchData list" where
  "dataHead lib opt r =
     (let b = (if needsContent opt then r else []) in
      (if fEnvelope opt then [DataEnvelope (ExtractEnvelope lib r)] else []) @
      (if fRFC822Size opt then [DataRFC822Size (int (length b))] else []) @
      (if fBodyStructure opt then [DataBodyStructure (ExtractBodyStructure lib b)] else []))"

definition dataSections :: "fetchLib \<Rightarrow> FetchOptions \<Rightarrow> bytes \<Rightarrow> fetchData list" where
  "dataSections lib opt r =
     Map (fBodySection opt) (\<lambda>bs. DataBodySection bs (ExtractBodySection lib r bs)) @
     Map (fBinarySection opt) (\<lambda>bs. DataBinarySection bs (ExtractBinarySection lib r bs))"

definition dataSizes :: "fetchLib \<Rightarrow> FetchOptions \<Rightarrow> bytes \<Rightarrow> fetchData list" where
  "dataSizes lib opt r = Map (fBinarySectionSize opt) (\<lambda>bss. DataBinarySectionSize bss (ExtractBinarySectionSize lib r bss))"

text \<open>The response for one message whose sequence number is known. A record that is cut in its header is
  skipped, without its response being closed; the reader of a deleted one is nil.\<close>

definition fetchItem ::
  "(bytes \<Rightarrow> bytes option) \<Rightarrow> fetchLib \<Rightarrow> fetchConn \<Rightarrow> FetchOptions \<Rightarrow> u32 \<Rightarrow> Email \<Rightarrow> mailStore \<Rightarrow>
   imapError option \<times> FetchItem" where
  "fetchItem gunzip lib conn opt seq e st =
     (let before = dataBefore opt e st;
          part = \<lparr>fiSeq = seq, fiData = before, fiClosed = False\<rparr>
      in case ReadEmail gunzip st e of
           Inl (FileErr ErrUnexpectedEOF) \<Rightarrow> (None, part)
         | Inl _ \<Rightarrow> (Some ErrInternal, part)
         | Inr None \<Rightarrow> (Some NilPointer, part)
         | Inr (Some (r, h)) \<Rightarrow>
             (case writeAll (takesSection conn) (dataSections lib opt r) of
                (Some err, ds) \<Rightarrow> (Some err, part\<lparr>fiData := before @ dataHead lib opt r @ ds\<rparr>)
              | (None, ds) \<Rightarrow>
                  let item = \<lparr>fiSeq = seq, fiData = before @ dataHead lib opt r @ ds @ dataSizes lib opt r, fiClosed = True\<rparr>
                  in if takesItem conn item then (None, item) else (Some ErrConn, item\<lparr>fiClosed := False\<rparr>)))"

fun fetchLoop ::
  "(bytes \<Rightarrow> bytes option) \<Rightarrow> fetchLib \<Rightarrow> fetchConn \<Rightarrow> (nat \<Rightarrow> update \<Rightarrow> bool) \<Rightarrow> FetchOptions \<Rightarrow> View \<Rightarrow> Email list \<Rightarrow> imapServer \<Rightarrow> imapSession \<Rightarrow>
   (imapError option \<times> FetchItem list) \<times> imapServer" where
  "fetchLoop gunzip lib conn accepts opt sel [] B s = ((None, []), B)"
| "fetchLoop gunzip lib conn accepts opt sel (e # es) B s =
     (case if markSeen opt then seeMail accepts sel e B s else (None, B) of
        (Some err, B1) \<Rightarrow> ((Some err, []), B1)
      | (None, B1) \<Rightarrow>
          (case fetchItem gunzip lib conn opt (ToSequence (selectedID sel) (eID e) (userStore B1 s)) e (userStore B1 s) of
             (Some err, item) \<Rightarrow> ((Some err, [item]), B1)
           | (None, item) \<Rightarrow>
               (case fetchLoop gunzip lib conn accepts opt sel es B1 s of
                  ((err, items), B2) \<Rightarrow> ((err, item # items), B2))))"

text \<open>\<open>GetIds\<close> panics inside \<open>ListMailboxEmails\<close>.\<close>

definition Fetch ::
  "(bytes \<Rightarrow> bytes option) \<Rightarrow> fetchLib \<Rightarrow> fetchConn \<Rightarrow> (nat \<Rightarrow> update \<Rightarrow> bool) \<Rightarrow> NumSet \<Rightarrow> FetchOptions \<Rightarrow> imapServer \<Rightarrow> imapSession \<Rightarrow>
   (imapError option \<times> FetchItem list) \<times> imapServer" where
  "Fetch gunzip lib conn accepts S opt B s =
     (case selectedView B s of
        Inl err \<Rightarrow> ((Some err, []), B)
      | Inr sel \<Rightarrow>
          (case ListMailboxEmails (selectedID sel) (Some S) (userStore B s) of
             Inl _ \<Rightarrow> ((Some PanicSet, []), B)
           | Inr emails \<Rightarrow> fetchLoop gunzip lib conn accepts opt sel emails B s))"

section \<open>Flags\<close>

datatype StoreOp = StoreFlagsSet | StoreFlagsAdd | StoreFlagsDel | StoreFlagsOther

record StoreFlags =
  sfOp :: StoreOp
  sfSilent :: bool
  sfFlags :: "string list"

definition applyFlags :: "StoreFlags \<Rightarrow> int \<Rightarrow> mailStore \<Rightarrow> dbError option \<times> mailStore" where
  "applyFlags flags i st =
     (case sfOp flags of
        StoreFlagsSet \<Rightarrow>
          (case RemoveEmailAllFlags i st of
             (Some err, st1) \<Rightarrow> (Some err, st1)
           | (None, st1) \<Rightarrow> AddEmailFlags i (sfFlags flags) st1)
      | StoreFlagsAdd \<Rightarrow> AddEmailFlags i (sfFlags flags) st
      | _ \<Rightarrow> RemoveEmailFlags i (sfFlags flags) st)"

text \<open>The sequence number goes where \<open>WriteMessageFlags\<close> expects the identifier of the mail, and the identifier
  of the mailbox where it expects the sequence number.\<close>

fun storeLoop ::
  "(nat \<Rightarrow> update \<Rightarrow> bool) \<Rightarrow> StoreFlags \<Rightarrow> View \<Rightarrow> Email list \<Rightarrow> imapServer \<Rightarrow> imapSession \<Rightarrow> imapError option \<times> imapServer" where
  "storeLoop accepts flags sel [] B s = (None, B)"
| "storeLoop accepts flags sel (e # es) B s =
     (if sfOp flags = StoreFlagsOther then (Some PanicOp, B)
      else
        case applyFlags flags (eID e) (userStore B s) of
          (Some err, st) \<Rightarrow> (Some ErrInternal, setStore s st B)
        | (None, st) \<Rightarrow>
            let B1 = setStore s st B; seq = ToSequence (selectedID sel) (eID e) st in
            (case getBox B1 s (vName sel) of
               Inl _ \<Rightarrow> (Some NilPointer, B1)
             | Inr v \<Rightarrow>
                 (case tell v (WriteMessageFlags accepts seq (vID sel) (sfFlags flags)) B1 of
                    (Some err, B2) \<Rightarrow> (Some err, B2)
                  | (None, B2) \<Rightarrow> storeLoop accepts flags sel es B2 s)))"

definition flagsOnly :: FetchOptions where
  "flagsOnly = \<lparr>fUID = False, fFlags = True, fInternalDate = False, fEnvelope = False, fRFC822Size = False, fBodyStructure = False,
     fBodySection = [], fBinarySection = [], fBinarySectionSize = []\<rparr>"

definition StoreCmd ::
  "(bytes \<Rightarrow> bytes option) \<Rightarrow> fetchLib \<Rightarrow> fetchConn \<Rightarrow> (nat \<Rightarrow> update \<Rightarrow> bool) \<Rightarrow> NumSet \<Rightarrow> StoreFlags \<Rightarrow> imapServer \<Rightarrow> imapSession \<Rightarrow>
   (imapError option \<times> FetchItem list) \<times> imapServer" where
  "StoreCmd gunzip lib conn accepts S flags B s =
     (case selectedView B s of
        Inl err \<Rightarrow> ((Some err, []), B)
      | Inr sel \<Rightarrow>
          (case ListMailboxEmails (selectedID sel) (Some S) (userStore B s) of
             Inl _ \<Rightarrow> ((Some PanicSet, []), B)
           | Inr emails \<Rightarrow>
               (case storeLoop accepts flags sel emails B s of
                  (Some err, B1) \<Rightarrow> ((Some err, []), B1)
                | (None, B1) \<Rightarrow>
                    if \<not> sfSilent flags then Fetch gunzip lib conn accepts S flagsOnly B1 s else ((None, []), B1))))"

section \<open>Copying and moving\<close>

record CopyData =
  cdUIDValidity :: u32
  cdSourceUIDs :: "u32 list"
  cdDestUIDs :: "u32 list"

definition Copy :: "NumSet \<Rightarrow> string \<Rightarrow> imapServer \<Rightarrow> imapSession \<Rightarrow> (imapError + CopyData) \<times> imapServer" where
  "Copy S dest B s =
     (case selectedView B s of
        Inl err \<Rightarrow> (Inl err, B)
      | Inr sel \<Rightarrow>
          if dest = vName sel then (Inl ErrSameMailbox, B)
          else
            case getBox B s dest of
              Inl err \<Rightarrow> (Inl err, B)
            | Inr v \<Rightarrow>
                (case ListMailboxEmails (selectedID sel) (Some S) (userStore B s) of
                   Inl _ \<Rightarrow> (Inl PanicSet, B)
                 | Inr mails \<Rightarrow>
                     (case AddMailboxEmails (uint (vID (iViews B v))) (Map mails eID) (userStore B s) of
                        (Some err, st) \<Rightarrow> (Inl ErrInternal, setStore s st B)
                      | (None, st) \<Rightarrow>
                          let uids = Map mails (\<lambda>m. of_int (eID m)) in
                          (Inr \<lparr>cdUIDValidity = vID (iViews B v), cdSourceUIDs = uids, cdDestUIDs = uids\<rparr>, setStore s st B))))"

definition Move ::
  "(CopyData \<Rightarrow> bool) \<Rightarrow> NumSet \<Rightarrow> string \<Rightarrow> imapServer \<Rightarrow> imapSession \<Rightarrow> (imapError option \<times> CopyData option) \<times> imapServer" where
  "Move takes S dest B s =
     (case Copy S dest B s of
        (Inl err, B1) \<Rightarrow> ((Some err, None), B1)
      | (Inr v, B1) \<Rightarrow>
          if \<not> takes v then ((Some ErrConn, None), B1)
          else
            case selectedView B1 s of
              Inl err \<Rightarrow> ((Some err, Some v), B1)
            | Inr sel \<Rightarrow>
                (case GetIds (selectedID sel) S (userStore B1 s) of
                   Inl _ \<Rightarrow> ((Some PanicSet, Some v), B1)
                 | Inr ids \<Rightarrow>
                     (case RemoveMailboxEmails (selectedID sel) ids (userStore B1 s) of
                        (Some err, st) \<Rightarrow> ((Some ErrInternal, Some v), setStore s st B1)
                      | (None, st) \<Rightarrow> ((None, Some v), setStore s st B1))))"

text \<open>The two halves of \<open>Idle\<close>, whose writer is \<open>w\<close>.\<close>

definition IdleCmd :: "(nat \<Rightarrow> View \<Rightarrow> View) \<Rightarrow> nat \<Rightarrow> imapServer \<Rightarrow> imapSession \<Rightarrow> imapError option \<times> imapServer" where
  "IdleCmd half w B s =
     (case iSelected s of None \<Rightarrow> (Some NilPointer, B) | Some v \<Rightarrow> tell v (\<lambda>x. (half w x, [])) B)"

section \<open>What the commands keep\<close>

lemma userSteps_Close: "userSteps gzip (iUser s) B (fst (snd (CloseCmd B s)))"
  by (rule userSteps_one [OF box_step.expunge [of _ _ DeletedFlag]]) (auto simp: CloseCmd_def split: sum.split prod.split)

lemma userSteps_Expunge: "userSteps gzip (iUser s) B (snd (Expunge takes uids B s))"
proof (cases uids)
  case None
  show ?thesis
    by (rule userSteps_one [OF box_step.expunge [of _ _ DeletedFlag]]) (auto simp: Expunge_def None split: sum.split prod.split)
next
  case (Some v)
  show ?thesis
  proof (cases "selectedView B s")
    case (Inr sel)
    show ?thesis
      by (rule userSteps_one [OF box_step.removal [of _ _ "selectedID sel" "Map (numsOf v) uint"]])
        (auto simp: Expunge_def Some Inr split: option.split prod.split)
  qed (simp add: Expunge_def Some)
qed

lemma userSteps_tell: "userSteps gzip u B B1 \<Longrightarrow> tell v f B1 = (err, B2) \<Longrightarrow> userSteps gzip u B B2"
  using userSteps_cong iStores_tell by metis

lemma userSteps_seeMail: "userSteps gzip (iUser s) B (snd (seeMail accepts sel e B s))"
  by (rule userSteps_one [OF box_step.flagAdded [of _ _ "eID e" SeenFlag]])
    (auto simp: seeMail_def Let_def split: option.split prod.split sum.split)

lemma userSteps_fetchLoop: "userSteps gzip (iUser s) B (snd (fetchLoop gunzip lib conn accepts opt sel es B s))"
proof (induction es arbitrary: B)
  case (Cons e es)
  obtain err B1 where see: "(if markSeen opt then seeMail accepts sel e B s else (None, B)) = (err, B1)" by fastforce
  have 1: "userSteps gzip (iUser s) B B1"
    using see userSteps_seeMail [of gzip s B accepts sel e] by (auto split: if_splits)
  show ?case
    using 1 userSteps_trans [OF 1 Cons.IH [of B1]] see by (simp split: option.split prod.split) (metis snd_conv)
qed simp

lemma userSteps_Fetch: "userSteps gzip (iUser s) B (snd (Fetch gunzip lib conn accepts S opt B s))"
  using userSteps_fetchLoop [of gzip s B] by (simp add: Fetch_def split: sum.split)

lemma userSteps_applyFlags:
  "applyFlags flags i (userStore B s) = (err, st) \<Longrightarrow> userSteps gzip (iUser s) B (setStore s st B)"
proof -
  assume a: "applyFlags flags i (userStore B s) = (err, st)"
  obtain err1 st1 where clear: "RemoveEmailAllFlags i (userStore B s) = (err1, st1)" by fastforce
  have "(box_step gzip)\<^sup>*\<^sup>* (userStore B s) (snd (applyFlags flags i (userStore B s)))"
    using box_step.flagsAdded [of gzip _ i "sfFlags flags"] box_step.flagsRemoved [of gzip "userStore B s" i "sfFlags flags"]
      box_step.flagsCleared [of gzip "userStore B s" i]
    by (auto simp: applyFlags_def clear split: StoreOp.split option.split intro: converse_rtranclp_into_rtranclp)
  then show ?thesis using a by (simp add: userSteps_def setStore_def userStore_def)
qed

lemma userSteps_storeLoop: "userSteps gzip (iUser s) B (snd (storeLoop accepts flags sel es B s))"
proof (induction es arbitrary: B)
  case (Cons e es)
  obtain err st where a: "applyFlags flags (eID e) (userStore B s) = (err, st)" by fastforce
  note 1 = userSteps_applyFlags [OF a, of gzip]
  have "userSteps gzip (iUser s) B (snd (storeLoop accepts flags sel es B2 s))"
    if "tell v f (setStore s st B) = (x, B2)" for v f x B2
    using userSteps_trans [OF userSteps_tell [OF 1 that] Cons.IH] .
  then show ?case
    using 1 userSteps_tell [OF 1] by (simp add: a Let_def split: option.split prod.split sum.split)
qed simp

lemma userSteps_StoreCmd: "userSteps gzip (iUser s) B (snd (StoreCmd gunzip lib conn accepts S flags B s))"
proof (cases "\<exists>sel es. selectedView B s = Inr sel \<and> ListMailboxEmails (selectedID sel) (Some S) (userStore B s) = Inr es")
  case True
  then obtain sel es where sel: "selectedView B s = Inr sel" "ListMailboxEmails (selectedID sel) (Some S) (userStore B s) = Inr es"
    by blast
  obtain err B1 where "storeLoop accepts flags sel es B s = (err, B1)" by fastforce
  then show ?thesis
    using userSteps_storeLoop [of gzip s B accepts flags sel es] userSteps_trans [OF _ userSteps_Fetch [of gzip s B1]] sel
    by (simp add: StoreCmd_def split: option.split)
qed (auto simp: StoreCmd_def split: sum.split)

lemma userSteps_Copy: "userSteps gzip (iUser s) B (snd (Copy S dest B s))"
proof (cases "\<exists>sel v es. selectedView B s = Inr sel \<and> getBox B s dest = Inr v \<and>
    ListMailboxEmails (selectedID sel) (Some S) (userStore B s) = Inr es")
  case True
  then obtain sel v es where sel: "selectedView B s = Inr sel" "getBox B s dest = Inr v"
    "ListMailboxEmails (selectedID sel) (Some S) (userStore B s) = Inr es" by blast
  show ?thesis
    by (rule userSteps_one [OF box_step.copying [of _ _ "uint (vID (iViews B v))" "Map es eID"]])
      (auto simp: Copy_def sel Let_def split: option.split prod.split)
qed (auto simp: Copy_def split: sum.split)

lemma userSteps_Move: "userSteps gzip (iUser s) B (snd (Move takes S dest B s))"
proof -
  obtain x B1 where copy: "Copy S dest B s = (x, B1)" by fastforce
  have 1: "userSteps gzip (iUser s) B B1" using userSteps_Copy [of gzip s B S dest] copy by simp
  have 2: "userSteps gzip (iUser s) B (setStore s st B1)"
    if "RemoveMailboxEmails box ids (userStore B1 s) = (err, st)" for box ids err st
    using userSteps_trans [OF 1 userSteps_setStore [OF box_step.removal [of gzip "userStore B1 s" box ids]]] that by simp
  show ?thesis using 1 2 by (simp add: Move_def copy split: sum.split prod.split option.split)
qed

lemma userSteps_Idle: "userSteps gzip (iUser s) B (snd (IdleCmd half w B s))"
  by (rule userSteps_same) (simp add: IdleCmd_def split: option.split)

section \<open>The server at work\<close>

text \<open>Commands of any sessions and deliveries, in any order, one after the other: a step is a whole
  command or a whole delivery, and those that overlap are not in it (they are in \<open>Store_Race\<close>). The mails that are
  delivered or appended are of less than five mebibytes, and those of a user of four gibibytes in all: a bigger mail is
  recorded in the wrong place (\<open>big_mail_misplaced\<close> of \<open>Store_Mail\<close>).\<close>

inductive imap_step :: "(bytes \<Rightarrow> bytes) \<Rightarrow> (bytes \<Rightarrow> bytes option) \<Rightarrow> string option \<Rightarrow> imapServer \<Rightarrow> imapServer \<Rightarrow> bool"
  for gzip gunzip where
  delivery: "mail_step gzip (iStores B u) st \<Longrightarrow> imap_step gzip gunzip None B (B\<lparr>iStores := (iStores B)(u := st)\<rparr>)"
| login: "imap_step gzip gunzip (Some user) B (fst (snd (Login w b local addr ds loaded user password B s)))"
| selection: "imap_step gzip gunzip (Some (iUser s)) B (fst (snd (Select name ro B s)))"
| creation: "imap_step gzip gunzip (Some (iUser s)) B (snd (Create name B s))"
| deletion: "imap_step gzip gunzip (Some (iUser s)) B (snd (Delete name B s))"
| renaming: "imap_step gzip gunzip (Some (iUser s)) B (snd (Rename name newName B s))"
| listing: "imap_step gzip gunzip (Some (iUser s)) B (snd (ListCmd matches takesList names patterns sub ret B s))"
| status: "imap_step gzip gunzip (Some (iUser s)) B (snd (Status name opt B s))"
| appending: "length mail < MaxEmailSizeInFile \<Longrightarrow> now \<noteq> [] \<Longrightarrow>
    unat (sOffset (userStore B s)) + recordSize (recordOf gzip False mail) < 2 ^ 32 \<Longrightarrow>
    imap_step gzip gunzip (Some (iUser s)) B (snd (Append gzip now time parse accepts name mail B s))"
| closing: "imap_step gzip gunzip (Some (iUser s)) B (fst (snd (CloseCmd B s)))"
| expunge: "imap_step gzip gunzip (Some (iUser s)) B (snd (Expunge takes uids B s))"
| fetching: "imap_step gzip gunzip (Some (iUser s)) B (snd (Fetch gunzip lib conn accepts S fetchOpt B s))"
| flags: "imap_step gzip gunzip (Some (iUser s)) B (snd (StoreCmd gunzip lib conn accepts S storeFlags B s))"
| copying: "imap_step gzip gunzip (Some (iUser s)) B (snd (Copy S dest B s))"
| moving: "imap_step gzip gunzip (Some (iUser s)) B (snd (Move takesCopy S dest B s))"
| idling: "imap_step gzip gunzip (Some (iUser s)) B (snd (IdleCmd half w B s))"

lemmas userSteps_commands = userSteps_Select userSteps_Create userSteps_Delete userSteps_Rename userSteps_ListCmd userSteps_Status
  userSteps_Append userSteps_Close userSteps_Expunge userSteps_Fetch userSteps_StoreCmd userSteps_Copy userSteps_Move userSteps_Idle

lemma imap_step_who: "imap_step gzip gunzip who B B' \<Longrightarrow> who \<noteq> None \<Longrightarrow> userSteps gzip (the who) B B'"
  by (induction rule: imap_step.induct) (simp_all add: userSteps_commands userSteps_same [OF Login_stores])

lemma imap_step_userSteps: "imap_step gzip gunzip (Some u) B B' \<Longrightarrow> userSteps gzip u B B'"
  using imap_step_who by fastforce

definition serverOk :: "(bytes \<Rightarrow> bytes) \<Rightarrow> imapServer \<Rightarrow> bool" where
  "serverOk gzip B \<longleftrightarrow> (\<forall>u. storeOk gzip (iStores B u))"

lemma storeOk_box_steps: "(box_step gzip)\<^sup>*\<^sup>* st st' \<Longrightarrow> storeOk gzip st \<Longrightarrow> storeOk gzip st'"
  by (induction rule: rtranclp_induct) (auto intro: storeOk_box_step)

lemma serverOk_userSteps: "serverOk gzip B \<Longrightarrow> userSteps gzip u B B' \<Longrightarrow> serverOk gzip B'"
  unfolding serverOk_def userSteps_def using storeOk_box_steps by metis

inductive_cases deliveryE: "imap_step gzip gunzip None B B'"

lemma serverOk_delivery: "imap_step gzip gunzip None B B' \<Longrightarrow> serverOk gzip B \<Longrightarrow> serverOk gzip B'"
proof (erule deliveryE)
  fix u st
  assume "serverOk gzip B" "B' = B\<lparr>iStores := (iStores B)(u := st)\<rparr>" "mail_step gzip (iStores B u) st"
  then show "serverOk gzip B'" using msys.step_inv [of gzip "iStores B u" st] by (simp add: serverOk_def)
qed

lemma serverOk_step: "imap_step gzip gunzip who B B' \<Longrightarrow> serverOk gzip B \<Longrightarrow> serverOk gzip B'"
  using serverOk_delivery serverOk_userSteps imap_step_userSteps by (cases who) blast+

interpretation isys: transition_system "\<lambda>B. iStores B = (\<lambda>_. emptyStore)" "\<lambda>B B'. \<exists>who. imap_step gzip gunzip who B B'" "serverOk gzip"
  for gzip gunzip
proof
  show "serverOk gzip B" if "iStores B = (\<lambda>_. emptyStore)" for B using that storeOk_emptyStore by (simp add: serverOk_def)
  show "serverOk gzip B'" if "serverOk gzip B" "\<exists>who. imap_step gzip gunzip who B B'" for B B' using that serverOk_step by blast
qed

lemma keepsContent_delivery:
  "imap_step gzip gunzip None B B' \<Longrightarrow> serverOk gzip B \<Longrightarrow> keepsContent gunzip (iStores B u) (iStores B' u)"
  by (erule deliveryE) (auto simp: serverOk_def keepsContent_mail_step)

lemma keepsContent_userSteps:
  "userSteps gzip u' B B' \<Longrightarrow> serverOk gzip B \<Longrightarrow> keepsContent gunzip (iStores B u) (iStores B' u)"
  unfolding userSteps_def serverOk_def using keepsContent_box_steps keepsContent_refl by metis

lemma keepsContent_step:
  "imap_step gzip gunzip who B B' \<Longrightarrow> serverOk gzip B \<Longrightarrow> keepsContent gunzip (iStores B u) (iStores B' u)"
  by (cases who) (auto intro: keepsContent_delivery keepsContent_userSteps dest: imap_step_userSteps)

lemma keepsContent_steps:
  assumes "(\<lambda>B B'. \<exists>who. imap_step gzip gunzip who B B')\<^sup>*\<^sup>* B B'" and "serverOk gzip B"
  shows "keepsContent gunzip (iStores B u) (iStores B' u) \<and> serverOk gzip B'"
  using assms
proof (induction rule: rtranclp_induct)
  case (step B1 B2)
  then obtain who where "imap_step gzip gunzip who B1 B2" by blast
  then show ?case using step keepsContent_step serverOk_step keepsContent_trans by blast
qed simp

section \<open>Properties\<close>

text \<open>C3: whatever the sessions of all the users do, in any order and whether it succeeds, fails or
  panics, and however mails are delivered meanwhile, every mail that a user has is read back, and reads the same
  for as long as the user has it. The mails are of less than five mebibytes each and of four gibibytes in all for a
  user, and commands and deliveries run one after the other.\<close>

theorem imap_keeps_mails:
  assumes "\<forall>b. gunzip (gzip b) = Some b" and "iStores B0 = (\<lambda>_. emptyStore)"
    and "(\<lambda>B B'. \<exists>who. imap_step gzip gunzip who B B')\<^sup>*\<^sup>* B0 B" and "e \<in> set (tEmails (sDB (iStores B u)))"
    and "(\<lambda>B B'. \<exists>who. imap_step gzip gunzip who B B')\<^sup>*\<^sup>* B B'"
  shows "\<exists>b h. Read gunzip (eID e) (iStores B u) = Inr (Some (b, h)) \<and>
    (e \<in> set (tEmails (sDB (iStores B' u))) \<longrightarrow> Read gunzip (eID e) (iStores B' u) = Inr (Some (b, h)))"
proof -
  have server: "serverOk gzip B" using isys.reachable_inv [where s = B0, OF assms(2,3)] .
  then have ok: "storeOk gzip (iStores B u)" unfolding serverOk_def by blast
  have "keepsContent gunzip (iStores B u) (iStores B' u)" using keepsContent_steps [OF assms(5) server] by blast
  from keepsContent_Read [OF this ok assms(4)] readable_row [OF assms(1) ok assms(4)] show ?thesis by metis
qed

theorem imap_keeps_mails_witness:
  "let B = demoServer\<lparr>iStores := (\<lambda>_. emptyStore)(''bob@a.org'' := demoStore)\<rparr>;
       B' = snd (Create ''Work'' B demoSession) in
   Read Some 1 (iStores B' ''bob@a.org'') = Read Some 1 (iStores B ''bob@a.org'')"
proof -
  let ?start = "demoServer\<lparr>iStores := \<lambda>_. emptyStore\<rparr>" and ?e = "demoRow\<lparr>eID := 1\<rparr>"
  let ?B = "demoServer\<lparr>iStores := (\<lambda>_. emptyStore)(''bob@a.org'' := demoStore)\<rparr>"
  let ?B' = "snd (Create ''Work'' ?B demoSession)"
  have "imap_step (\<lambda>b. b) Some None ?start (?start\<lparr>iStores := (iStores ?start)(''bob@a.org'' := demoStore)\<rparr>)"
    using imap_step.delivery [of "\<lambda>b. b" ?start "''bob@a.org''" demoStore] demoStore_step by simp
  then have 1: "(\<lambda>B B'. \<exists>who. imap_step (\<lambda>b. b) Some who B B')\<^sup>*\<^sup>* ?start ?B" by (intro r_into_rtranclp) (auto simp: exI)
  have 2: "(\<lambda>B B'. \<exists>who. imap_step (\<lambda>b. b) Some who B B')\<^sup>*\<^sup>* ?B ?B'"
    using imap_step.creation by (intro r_into_rtranclp) blast
  have rows: "?e \<in> set (tEmails (sDB (iStores ?B ''bob@a.org'')))" "?e \<in> set (tEmails (sDB (iStores ?B' ''bob@a.org'')))"
    by (simp_all add: demoStore_emails Create_def getBox_def demoSession_def newImapSession_def BoxesGet_def demo_fields badName_def
        trimSlash_def userStore_def setStore_def CreateMailbox_def onDB_def demoStore_files NewMailbox_def insertMailbox_def newDB_def Let_def
        split: prod.split)
  show ?thesis using imap_keeps_mails [OF _ _ 1 rows(1) 2] rows(2) by (auto simp: Let_def)
qed

text \<open>C6: users are apart: a command of a session leaves the stores of all other users as they
  are.\<close>

theorem imap_isolation: "imap_step gzip gunzip (Some u) B B' \<Longrightarrow> u' \<noteq> u \<Longrightarrow> iStores B' u' = iStores B u'"
  using imap_step_userSteps unfolding userSteps_def by blast

theorem imap_isolation_witness:
  "iStores (snd (Create ''Work'' demoServer demoSession)) ''eve@a.org'' = iStores demoServer ''eve@a.org''"
  by (rule imap_isolation [OF imap_step.creation [of "\<lambda>b. b" Some]]) (simp add: demoSession_def)

lemma selectedView_setStore [simp]: "selectedView (setStore s' st B) s = selectedView B s"
  by (simp add: selectedView_def setStore_def split: option.split)

lemma iViews_setStore [simp]: "iViews (setStore s st B) = iViews B"
  by (simp add: setStore_def)

lemma getBox_kept [simp]: "getBox (setStore s' st B) s n = getBox B s n" "getBox (setView v x B) s n = getBox B s n"
  by (simp_all add: getBox_def BoxesGet_def setStore_def setView_def split: option.split)

lemma userStore_setView [simp]: "userStore (setView v x B) s = userStore B s"
  by (simp add: userStore_def)

lemma userStore_setStore [simp]: "userStore (setStore s st B) s = st"
  by (simp add: userStore_def setStore_def)

text \<open>CLOSE deletes more than it should: it succeeds, and every mail that is marked as deleted goes,
  in all mailboxes of the user, whichever is selected and also when it was only to be read.\<close>

theorem close_expunges_all_mailboxes:
  assumes "storeOk gzip (userStore B s)" and "iSelected s = Some v" and "\<not> sBusy (userStore B s)"
  shows "\<exists>B' s'. CloseCmd B s = (None, B', s') \<and> iSelected s' = None \<and>
    set (tEmails (sDB (userStore B' s))) =
      {e \<in> set (tEmails (sDB (userStore B s))). (eID e, DeletedFlag) \<notin> set (tEmailsFlags (sDB (userStore B s)))}"
  using DeleteEmailsWithFlag_outcome [OF assms(1,3), of DeletedFlag] assms(2) by (auto simp: CloseCmd_def)

theorem close_expunges_all_mailboxes_witness:
  "\<exists>B' s'. CloseCmd demoServer (demoSession\<lparr>iSelected := Some 2, iReadOnly := True\<rparr>) = (None, B', s') \<and> iSelected s' = None"
  using close_expunges_all_mailboxes [of "\<lambda>b. b" demoServer "demoSession\<lparr>iSelected := Some 2, iReadOnly := True\<rparr>" 2] storeOk_demoStore
  by (auto simp: userStore_def demo_fields demoStore_files)

text \<open>UID EXPUNGE does not ask whether a mail is marked as deleted: every mail it names leaves the
  selected mailbox.\<close>

theorem uid_expunge_ignores_flags:
  assumes "storeOk gzip (userStore B s)" and "iSelected s = Some v" and "\<not> Dynamic uids" and "\<not> sBusy (userStore B s)"
  shows "fst (fst (Expunge takes (Some uids) B s)) \<in> {None, Some ErrConn} \<and>
    set (tMailboxEmails (sDB (userStore (snd (Expunge takes (Some uids) B s)) s))) =
      {r \<in> set (tMailboxEmails (sDB (userStore B s))). \<not> (fst r = uint (vID (iViews B v)) \<and> snd r \<in> uint ` set (Nums uids))}"
proof -
  obtain st where st: "RemoveMailboxEmails (selectedID (iViews B v)) (Map (Nums uids) uint) (userStore B s) = (None, st)"
    "set (tMailboxEmails (sDB st)) = {r \<in> set (tMailboxEmails (sDB (userStore B s))).
       \<not> (fst r = selectedID (iViews B v) \<and> snd r \<in> set (Map (Nums uids) uint))}"
    using RemoveMailboxEmails_outcome [OF assms(1,4)] by blast
  have "fst (writeAll takes ws) \<in> {None, Some ErrConn}" for ws :: "u32 list"
    by (induction ws) (auto split: prod.splits)
  moreover have "Expunge takes (Some uids) B s = (writeAll takes (Nums uids), setStore s st B)"
    using st(1) assms(2,3) by (simp add: Expunge_def selectedView_def numsOf_def)
  ultimately show ?thesis
    using st(2) by (simp add: selectedID_def Map_def)
qed

theorem uid_expunge_ignores_flags_witness:
  "set (tMailboxEmails (sDB (userStore (snd (Expunge (\<lambda>_. True) (Some \<lparr>Dynamic = False, Nums = [1], Contains = \<lambda>n. n = 1\<rparr>) demoServer
     (demoSession\<lparr>iSelected := Some 0\<rparr>))) (demoSession\<lparr>iSelected := Some 0\<rparr>)))) = {}"
proof -
  let ?s = "demoSession\<lparr>iSelected := Some 0\<rparr>"
  have st: "userStore demoServer ?s = demoStore" by (simp add: userStore_def demo_fields)
  have "tMailboxEmails (sDB demoStore) = [(1, 1)]" "uint (vID (iViews demoServer 0)) = 1"
    by (simp_all add: demoStore_files demo_fields NewView_def)
  then have "{r \<in> set (tMailboxEmails (sDB demoStore)). \<not> (fst r = uint (vID (iViews demoServer 0)) \<and> snd r \<in> uint ` set [1 :: u32])} = {}"
    by auto
  then show ?thesis
    using uid_expunge_ignores_flags [of "\<lambda>b. b" demoServer ?s 0 "\<lparr>Dynamic = False, Nums = [1], Contains = \<lambda>n. n = 1\<rparr>" "\<lambda>_. True"]
      storeOk_demoStore demoStore_files(7) unfolding st by (simp del: set_empty)
qed

section \<open>Moving\<close>

lemma Copy_outcome:
  assumes "iSelected s = Some v0" and "getBox B s dest = Inr v" and "Copy S dest B s = (Inr d, B1)"
  obtains mails st1 where "ListMailboxEmails (uint (vID (iViews B v0))) (Some S) (userStore B s) = Inr mails"
    "AddMailboxEmails (uint (vID (iViews B v))) (map eID mails) (userStore B s) = (None, st1)" "B1 = setStore s st1 B"
  using assms
  by (auto simp: Copy_def selectedView_def selectedID_def Map_def Let_def split: if_splits sum.splits option.splits prod.splits)

text \<open>The mails of a mailbox that a set of UIDs names.\<close>

definition namedMails :: "DB \<Rightarrow> int \<Rightarrow> numbers \<Rightarrow> int set" where
  "namedMails db box uids = {i. (box, i) \<in> set (tMailboxEmails db) \<and> i \<in> uint ` set (Nums uids)}"

lemma listed_ids:
  assumes "dbOk (sDB st)" and "\<not> Dynamic uids" and "ListMailboxEmails box (Some (UIDSet uids)) st = Inr mails"
  shows "eID ` set mails = namedMails (sDB st) box uids"
proof -
  have "mails = GetMailboxEmails (sDB st) box (map uint (Nums uids))"
    using assms(2,3) by (simp add: ListMailboxEmails_def GetIds_def Map_def Let_def)
  then have "eID ` set mails = eID ` set (ListMailboxEmailsRows (sDB st) box) \<inter> uint ` set (Nums uids)"
    by (auto simp: GetMailboxEmails_def)
  also have "eID ` set (ListMailboxEmailsRows (sDB st) box) = {i. (box, i) \<in> set (tMailboxEmails (sDB st))}"
    unfolding ListMailboxEmailsRows_ids [OF assms(1)] by (force simp: boxIds_def)
  finally show ?thesis by (auto simp: namedMails_def)
qed

lemma snd_moved: "i \<in> snd ` X \<Longrightarrow> i \<in> snd ` (X - A \<times> M \<union> {d} \<times> M)"
  by (cases "i \<in> M") force+

text \<open>C21: MOVE with a set of UIDs that has no \<open>*\<close> moves the mails: when it succeeds, those of the selected mailbox
  whose UID is in the set are in the target and no longer in the selected mailbox, no other mailbox changes, and every mail
  that was in a mailbox is kept and read as before. (A set of sequence numbers names other mails than it should, see
  \<open>sequence_gives_mirror\<close> of \<open>Store_Mailbox\<close>.)\<close>

theorem move_moves:
  assumes "storeOk gzip (userStore B s)" and "iSelected s = Some v0" and "getBox B s dest = Inr v" and "\<not> Dynamic uids"
    and "Move takes (UIDSet uids) dest B s = ((None, d), B')"
  shows "let db = sDB (userStore B s); db' = sDB (userStore B' s); src = uint (vID (iViews B v0));
             moved = {i. (src, i) \<in> set (tMailboxEmails db) \<and> i \<in> uint ` set (Nums uids)}
    in set (tMailboxEmails db') = (set (tMailboxEmails db) - {src} \<times> moved) \<union> {uint (vID (iViews B v))} \<times> moved \<and>
       (\<forall>e \<in> set (tEmails db). eID e \<in> snd ` set (tMailboxEmails db) \<longrightarrow>
          e \<in> set (tEmails db') \<and> Read gunzip (eID e) (userStore B' s) = Read gunzip (eID e) (userStore B s))"
proof -
  let ?src = "uint (vID (iViews B v0))" and ?dst = "uint (vID (iViews B v))" and ?db = "sDB (userStore B s)"
  let ?moved = "namedMails ?db ?src uids" and ?ids = "map uint (Nums uids)"
  obtain c B1 where copy: "Copy (UIDSet uids) dest B s = (Inr c, B1)"
    using assms(5) by (auto simp: Move_def split: sum.splits prod.splits)
  obtain mails st1 where mails: "ListMailboxEmails ?src (Some (UIDSet uids)) (userStore B s) = Inr mails"
    and add: "AddMailboxEmails ?dst (map eID mails) (userStore B s) = (None, st1)" and B1: "B1 = setStore s st1 B"
    using Copy_outcome [OF assms(2,3) copy] by blast
  have moved: "eID ` set mails = ?moved" using listed_ids [OF storeOk_dbOk [OF assms(1)] assms(4) mails] .
  have st1: "st1 = (userStore B s)\<lparr>sDB := ?db\<lparr>tMailboxEmails := tMailboxEmails ?db @ map (Pair ?dst) (map eID mails)\<rparr>\<rparr>"
    using AddMailboxEmails_outcome [OF add] .
  have same: "tEmails (sDB st1) = tEmails ?db" "Read gunzip i st1 = Read gunzip i (userStore B s)" for i
    unfolding st1 by (simp_all add: Read_db)
  have rows1: "set (tMailboxEmails (sDB st1)) = set (tMailboxEmails ?db) \<union> {?dst} \<times> ?moved"
    unfolding moved [symmetric] st1 by auto
  have new: "sBusy st1 \<Longrightarrow> ?moved = {}" "?dst = ?src \<Longrightarrow> ?moved = {}"
    using AddMailboxEmails_new [OF add] moved unfolding st1 namedMails_def by auto
  have ok1: "storeOk gzip st1" using storeOk_box_step [OF box_step.copying assms(1)] add by (metis snd_conv)
  have "GetIds ?src (UIDSet uids) st1 = Inr ?ids" using assms(4) by (simp add: GetIds_def Map_def)
  then have remove: "RemoveMailboxEmails ?src ?ids st1 = (None, userStore B' s)"
    using assms(2,5) copy B1 by (auto simp: Move_def selectedView_def selectedID_def split: if_splits prod.splits option.splits)
  have "sBusy st1 \<Longrightarrow> set (tMailboxEmails (sDB st1)) \<inter> {?src} \<times> set ?ids = {}"
    using new(1) unfolding rows1 by (auto simp: namedMails_def)
  note removed = RemoveMailboxEmails_success [OF ok1 remove this, of gunzip, unfolded same]
  have boxes: "set (tMailboxEmails (sDB (userStore B' s))) = (set (tMailboxEmails ?db) - {?src} \<times> ?moved) \<union> {?dst} \<times> ?moved"
  proof (cases "?dst = ?src")
    case True
    then show ?thesis using removed new(2) unfolding rows1 by (auto simp: namedMails_def)
  next
    case False
    then show ?thesis using removed unfolding rows1 by (auto simp: namedMails_def)
  qed
  then show ?thesis
    using removed snd_moved [of _ "set (tMailboxEmails ?db)" "{?src}" ?moved ?dst] unfolding namedMails_def Let_def by simp
qed

theorem move_moves_witness:
  "\<exists>d B'. Move (\<lambda>_. True) (UIDSet \<lparr>Dynamic = False, Nums = [1], Contains = \<lambda>n. n = 1\<rparr>) ''Sent'' demoServer (demoSession\<lparr>iSelected := Some 0\<rparr>) =
     ((None, d), B') \<and> set (tMailboxEmails (sDB (userStore B' (demoSession\<lparr>iSelected := Some 0\<rparr>)))) = {(3, 1)}"
proof -
  let ?S = "UIDSet \<lparr>Dynamic = False, Nums = [1], Contains = \<lambda>n. n = 1\<rparr>" and ?s = "demoSession\<lparr>iSelected := Some 0\<rparr>"
  have st: "userStore demoServer ?s = demoStore" by (simp add: userStore_def demo_fields)
  have box: "getBox demoServer ?s ''Sent'' = Inr 2"
    by (simp add: getBox_def demoSession_def newImapSession_def BoxesGet_def demo_fields)
  let ?st1 = "demoStore\<lparr>sDB := (sDB demoStore)\<lparr>tMailboxEmails := [(1, 1), (3, 1)]\<rparr>\<rparr>"
  have add: "AddMailboxEmails 3 [1] demoStore = (None, ?st1)"
    by (simp add: AddMailboxEmails_def inTx_def onDB_def AddMailboxEmail_def newDB_def demoStore_files demoStore_emails)
  have ids: "GetIds 1 ?S st' = Inr [1]" for st' by (simp add: GetIds_def Map_def)
  have "ListMailboxEmails 1 (Some ?S) demoStore = Inr [demoRow\<lparr>eID := 1\<rparr>]"
    by (simp add: ListMailboxEmails_def ids GetMailboxEmails_def ListMailboxEmailsRows_def demoStore_emails boxIds_def demoStore_files)
  then have copy: "\<exists>c. Copy ?S ''Sent'' demoServer ?s = (Inr c, setStore ?s ?st1 demoServer)"
    using add by (simp add: Copy_def selectedView_def st box demo_fields NewView_def selectedID_def Map_def Let_def)
  have "storeOk (\<lambda>b. b) ?st1"
    using storeOk_box_step [OF box_step.copying [of "\<lambda>b. b" demoStore 3 "[1]"] storeOk_demoStore] add by simp
  moreover have "\<not> sBusy ?st1" using demoStore_files(7) by simp
  ultimately obtain st' where "RemoveMailboxEmails 1 [1] ?st1 = (None, st')" using RemoveMailboxEmails_outcome by blast
  then obtain d B' where move: "Move (\<lambda>_. True) ?S ''Sent'' demoServer ?s = ((None, d), B')"
    using copy ids by (auto simp: Move_def selectedView_def demo_fields NewView_def selectedID_def)
  have "set (tMailboxEmails (sDB demoStore)) = {(1, 1)}" by (simp add: demoStore_files)
  with move_moves [OF _ _ box _ move, of "\<lambda>b. b" 0] storeOk_demoStore
  have "set (tMailboxEmails (sDB (userStore B' ?s))) = {(1, 1)} - {1} \<times> {i. i = 1} \<union> {3} \<times> {i. i = 1}"
    by (simp add: st demo_fields NewView_def Let_def)
  then show ?thesis using move by auto
qed

text \<open>MOVE with a set that has a \<open>*\<close> panics after it has copied: the mails are then in both mailboxes.\<close>

theorem move_dynamic_panics:
  assumes "iSelected s = Some v0" and "Dynamic (numbersOf S)" and "Copy S dest B s = (Inr d, B')" and "takes d"
  shows "Move takes S dest B s = ((Some PanicSet, Some d), B')"
  using assms by (simp add: Move_def selectedView_def GetIds_def)

theorem move_dynamic_panics_witness:
  "\<exists>d B'. Move (\<lambda>_. True) (UIDSet \<lparr>Dynamic = True, Nums = [], Contains = \<lambda>n. True\<rparr>) ''Sent'' demoServer (demoSession\<lparr>iSelected := Some 0\<rparr>) =
     ((Some PanicSet, Some d), B') \<and> set (tMailboxEmails (sDB (userStore B' (demoSession\<lparr>iSelected := Some 0\<rparr>)))) = {(1, 1), (3, 1)}"
proof -
  let ?S = "UIDSet \<lparr>Dynamic = True, Nums = [], Contains = \<lambda>n. True\<rparr>" and ?s = "demoSession\<lparr>iSelected := Some 0\<rparr>"
  let ?st1 = "demoStore\<lparr>sDB := (sDB demoStore)\<lparr>tMailboxEmails := [(1, 1), (3, 1)]\<rparr>\<rparr>"
  have st: "userStore demoServer ?s = demoStore" by (simp add: userStore_def demo_fields)
  have box: "getBox demoServer ?s ''Sent'' = Inr 2"
    by (simp add: getBox_def demoSession_def newImapSession_def BoxesGet_def demo_fields)
  have "AddMailboxEmails 3 [1] demoStore = (None, ?st1)"
    by (simp add: AddMailboxEmails_def inTx_def onDB_def AddMailboxEmail_def newDB_def demoStore_files demoStore_emails)
  moreover have "ListMailboxEmails 1 (Some ?S) demoStore = Inr [demoRow\<lparr>eID := 1\<rparr>]"
    by (simp add: ListMailboxEmails_def ListMailboxEmailsRows_def demoStore_emails boxIds_def demoStore_files)
  ultimately obtain c where "Copy ?S ''Sent'' demoServer ?s = (Inr c, setStore ?s ?st1 demoServer)"
    by (simp add: Copy_def selectedView_def st box demo_fields NewView_def selectedID_def Map_def Let_def)
  from move_dynamic_panics [OF _ _ this] show ?thesis by simp
qed

section \<open>Marks\<close>

abbreviation flagsOf :: "imapServer \<Rightarrow> imapSession \<Rightarrow> (int \<times> int) set" where
  "flagsOf B s \<equiv> set (tEmailsFlags (sDB (userStore B s)))"

lemma userStore_tell: "tell v f B = (err, B') \<Longrightarrow> userStore B' s = userStore B s"
  by (simp add: userStore_def iStores_tell)

lemma seeMail_flags:
  assumes "seeMail accepts sel e B s = (None, B')"
  shows "flagsOf B' s = insert (eID e, SeenFlag) (flagsOf B s)"
proof -
  obtain db where "AddEmailFlagRow (eID e) SeenFlag (sDB (userStore B s)) = Inr db"
    and B': "userStore B' s = (userStore B s)\<lparr>sDB := db\<rparr>"
    using assms by (auto simp: seeMail_def AddEmailFlag_def onDB_def Let_def dest!: userStore_tell [of _ _ _ _ _ s] split: sum.splits option.splits prod.splits if_splits)
  then show ?thesis by (auto simp: B' AddEmailFlagRow_def split: if_splits)
qed

lemma fetchLoop_flags:
  "fetchLoop gunzip lib conn accepts opt sel es B s = ((None, items), B') \<Longrightarrow> markSeen opt \<Longrightarrow>
   flagsOf B' s = flagsOf B s \<union> (\<lambda>e. (eID e, SeenFlag)) ` set es"
proof (induction es arbitrary: B items)
  case (Cons e es)
  obtain B1 where B1: "seeMail accepts sel e B s = (None, B1)"
    using Cons.prems by (auto split: option.splits prod.splits)
  then obtain items' where "fetchLoop gunzip lib conn accepts opt sel es B1 s = ((None, items'), B')"
    using Cons.prems by (auto split: option.splits prod.splits)
  then show ?case using Cons.IH Cons.prems(2) seeMail_flags [OF B1] by auto
qed simp

lemma markSeen_iff: "markSeen opt \<longleftrightarrow> (\<forall>sec \<in> set (fBodySection opt) \<union> set (fBinarySection opt). \<not> secPeek sec)"
proof -
  have "fold (\<lambda>sec m. m \<and> \<not> secPeek sec) secs m \<longleftrightarrow> m \<and> (\<forall>sec \<in> set secs. \<not> secPeek sec)" for secs :: "bodySection list" and m
    by (induction secs arbitrary: m) auto
  then show ?thesis by (auto simp: markSeen_def)
qed

lemma applyFlags_keeps:
  assumes "applyFlags flags i st = (err, st')"
  shows "tEmails (sDB st') = tEmails (sDB st)" "tMailboxEmails (sDB st') = tMailboxEmails (sDB st)"
proof -
  let ?P = "\<lambda>db. tEmails db = tEmails (sDB st) \<and> tMailboxEmails db = tMailboxEmails (sDB st)"
  have add: "?P db'" if "execTx (AddEmailFlagName i) names db = Inr db'" "?P db" for names db db'
    by (rule execTx_inv [where P = ?P, OF _ that])
      (auto simp: AddEmailFlagName_def AddEmailFlagRow_def split: option.splits if_splits)
  have del: "?P db'" if "execTx (\<lambda>n db. Inr (RemoveEmailFlagName i n db)) names db = Inr db'" "?P db" for names db db'
    by (rule execTx_inv [where P = ?P, OF _ that]) (auto simp: RemoveEmailFlagName_def)
  have clear: "?P (RemoveEmailFlagRows i (sDB st))" by (simp add: RemoveEmailFlagRows_def)
  show "tEmails (sDB st') = tEmails (sDB st)" "tMailboxEmails (sDB st') = tMailboxEmails (sDB st)"
    using assms add [OF _ clear] add [of _ "sDB st"] del [of _ "sDB st"] clear
    by (auto simp: applyFlags_def AddEmailFlags_def RemoveEmailFlags_def RemoveEmailAllFlags_def inTx_def onDB_def split: StoreOp.splits sum.splits if_splits)
qed

lemma storeLoop_keeps:
  "storeLoop accepts flags sel es B s = (err, B') \<Longrightarrow>
   tEmails (sDB (userStore B' s)) = tEmails (sDB (userStore B s)) \<and>
   tMailboxEmails (sDB (userStore B' s)) = tMailboxEmails (sDB (userStore B s))"
proof (induction es arbitrary: B)
  case (Cons e es)
  obtain x st where a: "applyFlags flags (eID e) (userStore B s) = (x, st)" by fastforce
  note 1 = applyFlags_keeps [OF a]
  have "userStore B2 s = st" if "tell v f (setStore s st B) = (y, B2)" for v f y B2
    using userStore_tell [OF that, of s] by simp
  then show ?case using Cons 1 a by (auto simp: Let_def split: if_splits option.splits sum.splits prod.splits)
qed simp

lemma Fetch_flags:
  assumes "iSelected s = Some v" and "ListMailboxEmails (uint (vID (iViews B v))) (Some S) (userStore B s) = Inr es"
    and "Fetch gunzip lib conn accepts S opt B s = ((None, items), B')"
    and "\<forall>sec \<in> set (fBodySection opt) \<union> set (fBinarySection opt). \<not> secPeek sec"
  shows "flagsOf B' s = flagsOf B s \<union> (\<lambda>e. (eID e, SeenFlag)) ` set es"
  using assms fetchLoop_flags [of gunzip lib conn accepts opt "iViews B v" es B s items B']
  by (simp add: Fetch_def selectedView_def selectedID_def markSeen_iff)

text \<open>FETCH marks mails as seen that the client did not read: unless a section is peeked at, all
  the mails it names are marked, also when only flags or sizes are asked for, and when the mailbox is only to be
  read; no other flag changes.\<close>

theorem fetch_marks_seen:
  assumes "iSelected s = Some v" and "ListMailboxEmails (uint (vID (iViews B v))) (Some S) (userStore B s) = Inr es"
    and "Fetch gunzip lib conn accepts S opt B s = ((None, items), B')"
    and "\<forall>sec \<in> set (fBodySection opt) \<union> set (fBinarySection opt). \<not> secPeek sec"
  shows "set (tEmailsFlags (sDB (userStore B' s))) =
    set (tEmailsFlags (sDB (userStore B s))) \<union> (\<lambda>e. (eID e, SeenFlag)) ` set es"
  using Fetch_flags [OF assms] .

lemma iViews_ids:
  "vID (iViews (snd (tell v f B)) i) = vID (iViews B i)" if "\<And>x. vID (fst (f x)) = vID x"
  using that by (simp add: tell_def setView_def Let_def)

lemma storeLoop_ids: "storeLoop accepts flags sel es B s = (err, B') \<Longrightarrow> vID (iViews B' i) = vID (iViews B i)"
proof (induction es arbitrary: B)
  case (Cons e es)
  have "vID (fst (WriteMessageFlags accepts seq x fs y)) = vID y" for seq x fs y
    using writeEach_keeps [of "\<lambda>c. (c, MessageFlags x seq fs)"] by (simp add: WriteMessageFlags_def withRLock_def)
  then have "vID (iViews B2 i) = vID (iViews B1 i)" if "tell v (WriteMessageFlags accepts seq x fs) B1 = (y, B2)" for v seq x fs y B1 B2
    using iViews_ids [of "WriteMessageFlags accepts seq x fs" v B1 i] that by simp
  then show ?case using Cons by (fastforce simp: Let_def split: if_splits option.splits sum.splits prod.splits)
qed simp

text \<open>C38: STORE marks mails as seen, whatever it was asked: unless it is silent, all the mails it names are
  marked when it succeeds, also when it was to remove that mark.\<close>

theorem store_marks_seen:
  assumes "iSelected s = Some v" and "ListMailboxEmails (uint (vID (iViews B v))) (Some S) (userStore B s) = Inr es"
    and "StoreCmd gunzip lib conn accepts S flags B s = ((None, items), B')" and "\<not> sfSilent flags"
  shows "\<forall>e \<in> set es. (eID e, SeenFlag) \<in> set (tEmailsFlags (sDB (userStore B' s)))"
proof -
  let ?box = "uint (vID (iViews B v))"
  obtain B1 where loop: "storeLoop accepts flags (iViews B v) es B s = (None, B1)"
    and fetch: "Fetch gunzip lib conn accepts S flagsOnly B1 s = ((None, items), B')"
    using assms by (auto simp: StoreCmd_def selectedView_def selectedID_def split: option.splits prod.splits)
  have "boxIds (sDB (userStore B1 s)) ?box = boxIds (sDB (userStore B s)) ?box"
    using storeLoop_keeps [OF loop] by (simp add: boxIds_def)
  from ListMailboxEmails_cong [OF this] have "ListMailboxEmails (uint (vID (iViews B1 v))) (Some S) (userStore B1 s) = Inr es"
    using storeLoop_keeps [OF loop] storeLoop_ids [OF loop, of v] assms(2) by simp
  from Fetch_flags [OF assms(1) this fetch] show ?thesis by (simp add: flagsOnly_def)
qed

text \<open>A session on the inbox of the user with one mail.\<close>

definition inboxSession :: imapSession where
  "inboxSession = demoSession\<lparr>iSelected := Some 0\<rparr>"

definition firstMail :: NumSet where
  "firstMail = UIDSet \<lparr>Dynamic = False, Nums = [1], Contains = \<lambda>n. n = 1\<rparr>"

definition demoLib :: fetchLib where
  "demoLib = \<lparr>ExtractEnvelope = \<lambda>b. b, ExtractBodyStructure = \<lambda>b. b, ExtractBodySection = \<lambda>b _. b, ExtractBinarySection = \<lambda>b _. b,
     ExtractBinarySectionSize = \<lambda>b _. 0\<rparr>"

definition demoConn :: fetchConn where
  "demoConn = \<lparr>takesSection = \<lambda>_. True, takesItem = \<lambda>_. True\<rparr>"

lemma demo_listed:
  "ListMailboxEmails (uint (vID (iViews demoServer 0))) (Some firstMail) (userStore demoServer inboxSession) = Inr [demoRow\<lparr>eID := 1\<rparr>]"
  by (simp add: firstMail_def userStore_def demo_fields NewView_def ListMailboxEmails_def GetIds_def Map_def GetMailboxEmails_def
      ListMailboxEmailsRows_def demoStore_emails boxIds_def demoStore_files)

lemma demo_read: "ReadEmail Some (demoStore\<lparr>sDB := db\<rparr>) (demoRow\<lparr>eID := 1\<rparr>) = Inr (Some ([65], 0))"
  by (simp add: ReadEmail_def openEmailFile_def Reader_def demoRow_def demoStore_files offsetOf_def EmailDeleted_def EmailCompressed_def Let_def)

lemma demo_flags: "tEmailsFlags (sDB demoStore) = []" "tFlags (sDB demoStore) = flagTable"
  by (simp_all add: demoStore_def store_eval)

lemma writeAll_taken: "writeAll (\<lambda>_. True) xs = (None, xs)"
  by (induction xs) simp_all

lemma demo_fetchItem: "\<exists>item. fetchItem Some demoLib demoConn opt seq (demoRow\<lparr>eID := 1\<rparr>) (demoStore\<lparr>sDB := db\<rparr>) = (None, item)"
  by (simp add: fetchItem_def demo_read demoConn_def writeAll_taken Let_def)

lemma demo_seeMail:
  assumes "userStore B inboxSession = demoStore\<lparr>sDB := db\<rparr>" "tEmails db = [demoRow\<lparr>eID := 1\<rparr>]" "tFlags db = flagTable"
    and "getBox B inboxSession ''INBOX'' = Inr 0" "iViews B 0 = NewView 1 ''INBOX'' 1"
  shows "\<exists>db' B'. seeMail (\<lambda>_ _. True) (NewView 1 ''INBOX'' 1) (demoRow\<lparr>eID := 1\<rparr>) B inboxSession = (None, B') \<and>
    userStore B' inboxSession = demoStore\<lparr>sDB := db'\<rparr>"
proof -
  obtain db' where "AddEmailFlag 1 SeenFlag (demoStore\<lparr>sDB := db\<rparr>) = (None, demoStore\<lparr>sDB := db'\<rparr>)"
    using assms(2,3) by (cases "(1, SeenFlag) \<in> set (tEmailsFlags db)") (simp_all add: AddEmailFlag_def onDB_def demoStore_files AddEmailFlagRow_def flagTable_def SeenFlag_def)
  then show ?thesis
    using assms(1,4,5) by (auto simp: seeMail_def tell_def NewView_def WriteMailboxFlags_def withRLock_def Let_def)
qed

lemma demo_box: "getBox demoServer inboxSession ''INBOX'' = Inr 0"
  by (simp add: getBox_def inboxSession_def demoSession_def newImapSession_def BoxesGet_def demo_fields)

lemma demo_Fetch:
  assumes "userStore B inboxSession = demoStore\<lparr>sDB := db\<rparr>" "tEmails db = [demoRow\<lparr>eID := 1\<rparr>]" "tFlags db = flagTable"
    "getBox B inboxSession ''INBOX'' = Inr 0" "iViews B 0 = NewView 1 ''INBOX'' 1"
    and "ListMailboxEmails 1 (Some firstMail) (userStore B inboxSession) = Inr [demoRow\<lparr>eID := 1\<rparr>]"
  shows "\<exists>items B'. Fetch Some demoLib demoConn (\<lambda>_ _. True) firstMail flagsOnly B inboxSession = ((None, items), B')"
proof -
  obtain db' B1 where see: "seeMail (\<lambda>_ _. True) (NewView 1 ''INBOX'' 1) (demoRow\<lparr>eID := 1\<rparr>) B inboxSession = (None, B1)"
    "userStore B1 inboxSession = demoStore\<lparr>sDB := db'\<rparr>"
    using demo_seeMail [OF assms(1-5)] by blast
  obtain item where "fetchItem Some demoLib demoConn flagsOnly (ToSequence 1 1 (demoStore\<lparr>sDB := db'\<rparr>)) (demoRow\<lparr>eID := 1\<rparr>)
      (demoStore\<lparr>sDB := db'\<rparr>) = (None, item)"
    using demo_fetchItem by blast
  moreover have "selectedView B inboxSession = Inr (NewView 1 ''INBOX'' 1)" "selectedID (NewView 1 ''INBOX'' 1) = 1"
    by (simp_all add: selectedView_def inboxSession_def assms(5) selectedID_def NewView_def)
  ultimately show ?thesis using see assms(6) by (simp add: Fetch_def markSeen_def flagsOnly_def)
qed

theorem fetch_marks_seen_witness:
  "\<exists>items B'. Fetch Some demoLib demoConn (\<lambda>_ _. True) firstMail flagsOnly demoServer inboxSession = ((None, items), B') \<and>
     set (tEmailsFlags (sDB (userStore B' inboxSession))) = {(1, SeenFlag)}"
proof -
  have st: "userStore demoServer inboxSession = demoStore" by (simp add: userStore_def demo_fields)
  obtain items B' where run: "Fetch Some demoLib demoConn (\<lambda>_ _. True) firstMail flagsOnly demoServer inboxSession = ((None, items), B')"
    using demo_Fetch [of demoServer "sDB demoStore"] demo_listed by (auto simp: st demo_flags demoStore_emails demo_box demo_fields NewView_def)
  have inbox: "iSelected inboxSession = Some 0" by (simp add: inboxSession_def)
  then show ?thesis using run
    using fetch_marks_seen [OF _ demo_listed run, unfolded st] inbox by (simp add: demo_flags flagsOnly_def)
qed

theorem store_marks_seen_witness:
  "\<exists>items B'. StoreCmd Some demoLib demoConn (\<lambda>_ _. True) firstMail
      \<lparr>sfOp = StoreFlagsDel, sfSilent = False, sfFlags = [sysFlag ''Seen'']\<rparr> demoServer inboxSession = ((None, items), B') \<and>
     (1, SeenFlag) \<in> set (tEmailsFlags (sDB (userStore B' inboxSession)))"
proof -
  let ?f = "\<lparr>sfOp = StoreFlagsDel, sfSilent = False, sfFlags = [sysFlag ''Seen'']\<rparr>"
  have st: "userStore demoServer inboxSession = demoStore" by (simp add: userStore_def demo_fields)
  have flags: "applyFlags ?f 1 demoStore = (None, demoStore)"
    by (simp add: applyFlags_def RemoveEmailFlags_def inTx_def onDB_def demoStore_files RemoveEmailFlagName_def demo_flags)
  have sel: "iSelected inboxSession = Some 0" "iViews demoServer 0 = NewView 1 ''INBOX'' 1" by (simp_all add: inboxSession_def demo_fields)
  define B1 where "B1 = setView 0 (NewView 1 ''INBOX'' 1) (setStore inboxSession demoStore demoServer)"
  have B1: "userStore B1 inboxSession = demoStore" "iViews B1 0 = NewView 1 ''INBOX'' 1" "getBox B1 inboxSession ''INBOX'' = Inr 0"
    using demo_box by (simp_all add: B1_def) (simp_all add: setView_def setStore_def userStore_def)
  have loop: "storeLoop (\<lambda>_ _. True) ?f (NewView 1 ''INBOX'' 1) [demoRow\<lparr>eID := 1\<rparr>] demoServer inboxSession = (None, B1)"
    using flags demo_box by (simp add: st tell_def sel NewView_def WriteMessageFlags_def withRLock_def Let_def B1_def)
  have listed: "ListMailboxEmails 1 (Some firstMail) demoStore = Inr [demoRow\<lparr>eID := 1\<rparr>]"
    using demo_listed by (simp add: st sel NewView_def)
  obtain items B' where "Fetch Some demoLib demoConn (\<lambda>_ _. True) firstMail flagsOnly B1 inboxSession = ((None, items), B')"
    using demo_Fetch [of B1 "sDB demoStore"] listed B1 by (auto simp: demo_flags demoStore_emails)
  then have run: "StoreCmd Some demoLib demoConn (\<lambda>_ _. True) firstMail ?f demoServer inboxSession = ((None, items), B')"
    using loop listed by (simp add: StoreCmd_def selectedView_def selectedID_def sel st NewView_def)
  then show ?thesis using store_marks_seen [OF sel(1) demo_listed run] by simp
qed

end
