(* ===== verification/Relay_Outside.thy ===== *)
theory Relay_Outside
  imports Relay_Types
begin

text \<open>
  Delivery to other servers: \<open>relaysOf\<close>, \<open>sendMail\<close> and \<open>relayOutside\<close> of
  \<open>src/relay/relay.go\<close>.

  The resolver and the SMTP client are arguments. Errors are those the queue tells apart:
  DNS errors (not found or not), SMTP errors with their code, any other, and the join of two.
  The buffer with the mail is a reader: what an attempt leaves of it is what the next one reads.
\<close>

datatype netError = DNSError bool | SMTPReply nat | OtherNetError | Joined netError netError

text \<open>\<open>errors.AsType\<close> finds the first error of its type in the tree of joined errors.\<close>

fun asDNSError :: "netError \<Rightarrow> bool option" where
  "asDNSError (DNSError notFound) = Some notFound"
| "asDNSError (Joined a b) = (case asDNSError a of Some x \<Rightarrow> Some x | None \<Rightarrow> asDNSError b)"
| "asDNSError _ = None"

fun asSMTPError :: "netError \<Rightarrow> nat option" where
  "asSMTPError (SMTPReply code) = Some code"
| "asSMTPError (Joined a b) = (case asSMTPError a of Some x \<Rightarrow> Some x | None \<Rightarrow> asSMTPError b)"
| "asSMTPError _ = None"

text \<open>\<open>errors.Join\<close> of an error with one that may be nil, and the accumulation of errors in the
  loop over the relays.\<close>

definition accumulate :: "netError option \<Rightarrow> netError option \<Rightarrow> netError option" where
  "accumulate acc err =
     (case acc of
        None \<Rightarrow> err
      | Some a \<Rightarrow> (case err of None \<Rightarrow> Some a | Some e \<Rightarrow> Some (Joined a e)))"

section \<open>Relays\<close>

record MX =
  mxHost :: string
  mxPref :: nat

record SRV =
  srvTarget :: string
  srvPort :: nat
  srvPriority :: nat
  srvWeight :: nat

record relay =
  address :: string
  withTLS :: bool

record resolver =
  lookupMX :: "string \<Rightarrow> netError + MX list"
  lookupSRV :: "string \<Rightarrow> netError + SRV list"
  itoa :: "nat \<Rightarrow> string"

definition fallbackSRV :: "string \<Rightarrow> SRV list" where
  "fallbackSRV host =
     map (\<lambda>p. \<lparr>srvTarget = host, srvPort = p, srvPriority = 0, srvWeight = 0\<rparr>) [465, 25, 587, 2525]"

text \<open>The comparisons order by descending preference, and by descending priority and weight.\<close>

definition sortMX :: "MX list \<Rightarrow> MX list" where
  "sortMX mxs = sort_key (\<lambda>mx. - int (mxPref mx)) mxs"

definition sortSRV :: "SRV list \<Rightarrow> SRV list" where
  "sortSRV srvs =
     sort_key (\<lambda>srv. - int (srvPriority srv)) (sort_key (\<lambda>srv. - int (srvWeight srv)) srvs)"

text \<open>What the iterator yields for one mail exchanger, and for all of them; the groups by target
  are in the order of the range over the map.\<close>

definition relaysOfSRVs :: "resolver \<Rightarrow> SRV list \<Rightarrow> (netError + relay) list" where
  "relaysOfSRVs res srvs =
     concat (map (\<lambda>(target, group).
       map (\<lambda>srv. Inr \<lparr>address = target @ '':'' @ itoa res (srvPort srv), withTLS = (srvPort srv = 465)\<rparr>) group)
       (GroupBy srvs srvTarget))"

definition relaysOfMX :: "resolver \<Rightarrow> MX \<Rightarrow> (netError + relay) list" where
  "relaysOfMX res mx =
     (case lookupSRV res (mxHost mx) of
        Inl err \<Rightarrow> if asDNSError err \<noteq> Some True then [Inl err]
                   else relaysOfSRVs res (fallbackSRV (mxHost mx))
      | Inr srvs \<Rightarrow> relaysOfSRVs res (sortSRV srvs))"

definition relaysOf :: "resolver \<Rightarrow> string \<Rightarrow> netError + (netError + relay) list" where
  "relaysOf res domain =
     (case lookupMX res domain of
        Inl err \<Rightarrow> Inl err
      | Inr mxs \<Rightarrow> Inr (concat (map (relaysOfMX res) (sortMX mxs))))"

section \<open>Sending\<close>

text \<open>The SMTP client: the dials give \<open>None\<close> for success, and \<open>transmit\<close> the error and what it
  left of the buffer.\<close>

record smtpLib =
  dialTLS :: "string \<Rightarrow> netError option"
  dialStartTLS :: "string \<Rightarrow> netError option"
  dialPlain :: "string \<Rightarrow> netError option"
  hello :: "string \<Rightarrow> netError option"
  transmit :: "string \<Rightarrow> bool \<Rightarrow> string \<Rightarrow> string list \<Rightarrow> string \<Rightarrow> netError option \<times> string"

text \<open>The dial: the error, or whether the connection is encrypted.\<close>

definition dialRelay :: "smtpLib \<Rightarrow> relay \<Rightarrow> netError + bool" where
  "dialRelay lib host =
     (if withTLS host then
        (case dialTLS lib (address host) of None \<Rightarrow> Inr True | Some e \<Rightarrow> Inl e)
      else (case dialStartTLS lib (address host) of
              None \<Rightarrow> Inr True
            | Some _ \<Rightarrow> (case dialPlain lib (address host) of None \<Rightarrow> Inr False | Some e \<Rightarrow> Inl e)))"

definition sendMail :: "smtpLib \<Rightarrow> relay \<Rightarrow> string \<Rightarrow> string list \<Rightarrow> string \<Rightarrow> netError option \<times> string" where
  "sendMail lib host frm to buf =
     (case dialRelay lib host of
        Inl e \<Rightarrow> (Some e, buf)
      | Inr secure \<Rightarrow>
          (case hello lib (address host) of
             Some e \<Rightarrow> (Some e, buf)
           | None \<Rightarrow> transmit lib (address host) secure frm to buf))"

text \<open>The loop over the relays: the accumulated error, and the attempts that were made, each with
  the bytes it was given and its error.\<close>

type_synonym attempt = "relay \<times> string \<times> netError option"

fun tryRelays ::
  "smtpLib \<Rightarrow> string \<Rightarrow> string list \<Rightarrow> (netError + relay) list \<Rightarrow> netError option \<Rightarrow> string \<Rightarrow>
   netError option \<times> attempt list" where
  "tryRelays lib frm to [] acc buf = (acc, [])"
| "tryRelays lib frm to (Inl err # rs) acc buf = tryRelays lib frm to rs (accumulate acc (Some err)) buf"
| "tryRelays lib frm to (Inr host # rs) acc buf =
     (case sendMail lib host frm to buf of
        (err, buf') \<Rightarrow>
          (case tryRelays lib frm to rs (accumulate acc err) buf' of
             (res, as) \<Rightarrow> (res, (host, buf, err) # as)))"

text \<open>\<open>relayOutside\<close>: the error, the attempts, and the cache of relays it leaves; \<open>buf\<close> is the
  rendered mail, if it can be rendered.\<close>

definition relayOutside ::
  "resolver \<Rightarrow> smtpLib \<Rightarrow> (string \<rightharpoonup> relay) \<Rightarrow> string \<Rightarrow> string list \<Rightarrow> string \<Rightarrow> string option \<Rightarrow>
   netError option \<times> attempt list \<times> (string \<rightharpoonup> relay)" where
  "relayOutside res lib cache frm to domain content0 =
     (case content0 of
        None \<Rightarrow> (Some OtherNetError, [], cache)
      | Some buf \<Rightarrow>
          (case (case cache domain of
                   None \<Rightarrow> (False, buf, [], cache)
                 | Some host \<Rightarrow>
                     (case sendMail lib host frm to buf of
                        (err, buf') \<Rightarrow>
                          (err = None, buf', [(host, buf, err)], if err = None then cache else cache(domain := None)))) of
             (ok, buf1, as, cache1) \<Rightarrow>
               if ok then (None, as, cache1)
               else (case relaysOf res domain of
                       Inl err \<Rightarrow> (Some err, as, cache1)
                     | Inr relays \<Rightarrow>
                         (case tryRelays lib frm to relays None buf1 of
                            (err, as') \<Rightarrow> (err, as @ as', cache1)))))"

section \<open>Every relay is tried\<close>

definition relayHosts :: "(netError + relay) list \<Rightarrow> relay list" where
  "relayHosts rs = List.map_filter (\<lambda>r. case r of Inl _ \<Rightarrow> None | Inr h \<Rightarrow> Some h) rs"

lemma relayHosts_simps [simp]:
  "relayHosts [] = []" "relayHosts (Inl e # rs) = relayHosts rs" "relayHosts (Inr h # rs) = h # relayHosts rs"
  by (simp_all add: relayHosts_def map_filter_simps)

lemma accumulate_None [simp]: "accumulate acc err = None \<longleftrightarrow> acc = None \<and> err = None"
  by (auto simp: accumulate_def split: option.splits)

lemma tryRelays_hosts: "map fst (snd (tryRelays lib frm to rs acc buf)) = relayHosts rs"
  by (induction lib frm to rs acc buf rule: tryRelays.induct) (auto split: prod.splits)

lemma tryRelays_ok:
  "fst (tryRelays lib frm to rs acc buf) = None \<longleftrightarrow>
     acc = None \<and> (\<forall>e. Inl e \<notin> set rs) \<and> (\<forall>a \<in> set (snd (tryRelays lib frm to rs acc buf)). snd (snd a) = None)"
proof (induction lib frm to rs acc buf rule: tryRelays.induct)
  case (3 lib frm to host rs acc buf)
  obtain err buf' where s: "sendMail lib host frm to buf = (err, buf')" by (cases "sendMail lib host frm to buf")
  obtain res as where t: "tryRelays lib frm to rs (accumulate acc err) buf' = (res, as)"
    by (cases "tryRelays lib frm to rs (accumulate acc err) buf'")
  from "3.IH" [OF s [symmetric]] s t show ?case by auto
qed auto

text \<open>An SMTP client that sends a mail reads its reader to the end.\<close>

definition readsAll :: "smtpLib \<Rightarrow> bool" where
  "readsAll lib \<longleftrightarrow>
     (\<forall>host secure frm to buf err rest. transmit lib host secure frm to buf = (err, rest) \<longrightarrow>
        (err = None \<or> buf = [] \<longrightarrow> rest = []))"

lemma sendMail_reads:
  "readsAll lib \<Longrightarrow> sendMail lib host frm to buf = (err, rest) \<Longrightarrow> err = None \<or> buf = [] \<Longrightarrow> rest = []"
  by (auto simp: sendMail_def readsAll_def split: sum.splits option.splits)

lemma tryRelays_empty:
  assumes "readsAll lib"
  shows "a \<in> set (snd (tryRelays lib frm to rs acc [])) \<Longrightarrow> fst (snd a) = []"
proof (induction rs arbitrary: acc)
  case (Cons r rs)
  show ?case
  proof (cases r)
    case (Inl e)
    with Cons show ?thesis by simp
  next
    case (Inr host)
    obtain err buf' where s: "sendMail lib host frm to [] = (err, buf')" by (cases "sendMail lib host frm to []")
    then have "buf' = []" using sendMail_reads [OF assms] by blast
    with Cons.IH [of "accumulate acc err"] Cons.prems Inr s show ?thesis by (auto split: prod.splits)
  qed
qed simp

lemma tryRelays_after_success:
  assumes "readsAll lib"
  shows "snd (tryRelays lib frm to rs acc buf) = pre @ (host, b, None) # post \<Longrightarrow> a \<in> set post \<Longrightarrow> fst (snd a) = []"
proof (induction rs arbitrary: acc buf pre)
  case (Cons r rs)
  show ?case
  proof (cases r)
    case (Inl e)
    with Cons show ?thesis by simp
  next
    case (Inr h)
    obtain err buf' where s: "sendMail lib h frm to buf = (err, buf')" by (cases "sendMail lib h frm to buf")
    obtain res as where t: "tryRelays lib frm to rs (accumulate acc err) buf' = (res, as)"
      by (cases "tryRelays lib frm to rs (accumulate acc err) buf'")
    have l: "(h, buf, err) # as = pre @ (host, b, None) # post" using Cons.prems(1) Inr s t by simp
    show ?thesis
    proof (cases pre)
      case Nil
      then have "buf' = []" "as = post" using l sendMail_reads [OF assms s] by auto
      then show ?thesis using tryRelays_empty [OF assms, of a frm to rs "accumulate acc err"] t Cons.prems(2) by simp
    next
      case _: (Cons p pre')
      then have "snd (tryRelays lib frm to rs (accumulate acc err) buf') = pre' @ (host, b, None) # post"
        using l t by simp
      from Cons.IH [OF this Cons.prems(2)] show ?thesis .
    qed
  qed
qed simp

section \<open>Properties\<close>

text \<open>the mail exchangers of a domain are tried by descending preference value, and none is
  left out or tried twice.\<close>

theorem mx_order:
  "sorted_wrt (\<lambda>a b. mxPref b \<le> mxPref a) (sortMX mxs) \<and> mset (sortMX mxs) = mset mxs"
proof -
  have "sorted (map (\<lambda>mx. - int (mxPref mx)) (sortMX mxs))" by (simp add: sortMX_def)
  then have "sorted_wrt (\<lambda>a b. - int (mxPref a) \<le> - int (mxPref b)) (sortMX mxs)"
    by (simp add: sorted_map)
  then show ?thesis by (simp add: sortMX_def)
qed

text \<open>C36: a mail counts as delivered to a domain only when every relay of every mail exchanger
  took it, and each of them is asked, also after one that took it.\<close>

theorem relay_all_or_error:
  assumes "relaysOf res domain = Inr relays" and "cache domain = None"
    and "relayOutside res lib cache frm to domain (Some buf) = (err, attempts, cache')"
  shows "map fst attempts = relayHosts relays \<and>
    (err = None \<longleftrightarrow> (\<forall>e. Inl e \<notin> set relays) \<and> list_all (\<lambda>a. snd (snd a) = None) attempts)"
  using assms tryRelays_hosts [of lib frm to relays None buf] tryRelays_ok [of lib frm to relays None buf]
  by (auto simp: relayOutside_def list_all_iff split: prod.splits)

definition demoResolver :: resolver where
  "demoResolver = \<lparr>lookupMX = \<lambda>_. Inr [\<lparr>mxHost = ''mx'', mxPref = 10\<rparr>], lookupSRV = \<lambda>_. Inl (DNSError True), itoa = \<lambda>_. ''p''\<rparr>"

definition demoSmtp :: smtpLib where
  "demoSmtp = \<lparr>dialTLS = \<lambda>_. None, dialStartTLS = \<lambda>_. None, dialPlain = \<lambda>_. None, hello = \<lambda>_. None,
     transmit = \<lambda>_ _ _ _ _. (None, [])\<rparr>"

lemma demoRelays:
  "relaysOf demoResolver d = Inr (map Inr
     [\<lparr>address = ''mx:p'', withTLS = True\<rparr>, \<lparr>address = ''mx:p'', withTLS = False\<rparr>,
      \<lparr>address = ''mx:p'', withTLS = False\<rparr>, \<lparr>address = ''mx:p'', withTLS = False\<rparr>])"
  by (simp add: relaysOf_def demoResolver_def sortMX_def relaysOfMX_def relaysOfSRVs_def fallbackSRV_def GroupBy_def)

theorem relay_all_or_error_witness:
  "\<exists>attempts. relayOutside demoResolver demoSmtp Map.empty [] [] [] (Some ''hi'') = (None, attempts, Map.empty)
     \<and> length attempts = 4"
proof -
  obtain err attempts cache' where
    r: "relayOutside demoResolver demoSmtp Map.empty [] [] [] (Some ''hi'') = (err, attempts, cache')"
    by (cases "relayOutside demoResolver demoSmtp Map.empty [] [] [] (Some ''hi'')")
  have "err = None" "cache' = Map.empty"
    using r by (auto simp: relayOutside_def demoRelays sendMail_def dialRelay_def demoSmtp_def accumulate_def)
  moreover have "length attempts = 4"
    using arg_cong [OF relay_all_or_error [OF demoRelays _ r, THEN conjunct1], of length] by simp
  ultimately show ?thesis using r by simp
qed

text \<open>with a client that reads the mail it sends to the end, every relay asked after one that
  took the mail is sent an empty one.\<close>

theorem later_relays_get_nothing:
  assumes "readsAll lib" and "cache domain = None"
    and "relayOutside res lib cache frm to domain (Some buf) = (err, attempts, cache')"
    and "attempts = pre @ (host, b, None) # post"
  shows "list_all (\<lambda>a. fst (snd a) = []) post"
proof (cases "relaysOf res domain")
  case (Inl e)
  with assms show ?thesis by (simp add: relayOutside_def)
next
  case (Inr relays)
  then have "snd (tryRelays lib frm to relays None buf) = pre @ (host, b, None) # post"
    using assms by (auto simp: relayOutside_def split: prod.splits)
  from tryRelays_after_success [OF assms(1) this] show ?thesis by (auto simp: list_all_iff)
qed

theorem later_relays_get_nothing_witness:
  "\<exists>attempts. fst (snd (relayOutside demoResolver demoSmtp Map.empty [] [] [] (Some ''hi''))) = attempts
     \<and> length attempts = 4 \<and> fst (snd (attempts ! 0)) = ''hi'' \<and> list_all (\<lambda>a. fst (snd a) = []) (tl attempts)"
proof -
  let ?r = "relayOutside demoResolver demoSmtp Map.empty [] [] [] (Some ''hi'')"
  have r: "?r = (fst ?r, fst (snd ?r), snd (snd ?r))" by simp
  have a: "fst (snd ?r) = [] @ (\<lparr>address = ''mx:p'', withTLS = True\<rparr>, ''hi'', None) # tl (fst (snd ?r))"
    "length (fst (snd ?r)) = 4"
    by (simp_all add: relayOutside_def demoRelays sendMail_def dialRelay_def demoSmtp_def accumulate_def)
  have "readsAll demoSmtp" by (simp add: readsAll_def demoSmtp_def)
  from later_relays_get_nothing [OF this _ r a(1)] a show ?thesis
    by (intro exI [of _ "fst (snd ?r)"]) (simp, metis nth_Cons_0 fst_conv snd_conv)
qed

text \<open>nothing ever enters the cache of relays: a server that starts with an empty cache
  looks up every domain for every mail.\<close>

theorem relay_cache_only_shrinks:
  "snd (snd (relayOutside res lib cache frm to domain mail)) \<subseteq>\<^sub>m cache"
  by (auto simp: relayOutside_def map_le_def split: option.splits prod.splits sum.splits if_splits)

end
