(* ===== verification/Relay_Queue.thy ===== *)
theory Relay_Queue
  imports Relay_Outside "HOL-Library.Multiset"
begin

text \<open>
  The queue of outgoing mails: \<open>src/relay/queue.go\<close>.

  The goroutines of the queue are a step relation on the record \<open>Queue\<close>: the mails whose
  goroutine waits to put them in the channel (\<open>waiting\<close>), the channel and its capacity of two
  (\<open>sender\<close>), the tokens (\<open>okTokens\<close>), the loop, the mails being sent (\<open>sending\<close>), those whose
  goroutine sleeps before a retry (\<open>sleeping\<close>), and the mails the queue is done with. A step is
  one communication on a channel, or the end of a call of \<open>relayOutside\<close> with whatever result.

  A mail of the queue has a pointer to its message, which it shares with the mails for other
  domains and with the relay: \<open>entities\<close> is the heap of messages. \<open>relayOutside\<close> starts with
  \<open>email.WriteTo\<close>, which reads the body up, so that the start of a sending leaves the message
  without one; \<open>transmitted\<close> is the message each sending found.
\<close>

record emailEnqueued =
  qFrom :: string
  qTo :: "RelayRcpt list"
  qDomain :: string
  qEmail :: nat
  MustWait :: int

definition MaxDuration :: int where
  "MaxDuration = 15 * 60"

datatype loopState = WaitToken | WaitMail | Stopped bool

record Queue =
  waiting :: "emailEnqueued multiset"
  sender :: "emailEnqueued list"
  okTokens :: nat
  looping :: loopState
  sending :: "emailEnqueued multiset"
  sleeping :: "emailEnqueued multiset"
  delivered :: "emailEnqueued multiset"
  failed :: "emailEnqueued multiset"
  entities :: "nat \<Rightarrow> Message"
  transmitted :: "(emailEnqueued \<times> Message) list"

definition NewQueue :: "nat \<Rightarrow> Queue" where
  "NewQueue concurrent =
     \<lparr>waiting = {#}, sender = [], okTokens = concurrent, looping = WaitToken, sending = {#},
      sleeping = {#}, delivered = {#}, failed = {#}, entities = (\<lambda>_. \<lparr>msgHeader = [], msgBody = []\<rparr>),
      transmitted = []\<rparr>"

section \<open>The end of a sending\<close>

datatype outcome = Delivered | Failed | Retry

text \<open>\<open>Queue.send\<close> after \<open>relayOutside\<close>.\<close>

definition outcomeOf :: "netError option \<Rightarrow> outcome" where
  "outcomeOf err =
     (case err of
        None \<Rightarrow> Delivered
      | Some e \<Rightarrow>
          (case asDNSError e of
             Some notFound \<Rightarrow> if notFound then Failed else Retry
           | None \<Rightarrow>
               (case asSMTPError e of
                  Some code \<Rightarrow> if code \<ge> 500 then Failed else Retry
                | None \<Rightarrow> Failed)))"

definition nextWait :: "int \<Rightarrow> int" where
  "nextWait w = (let m = max w 3 in m + m div 2)"

text \<open>The goroutine of a retry: \<open>None\<close> when the mail has waited long enough.\<close>

definition retryLater :: "emailEnqueued \<Rightarrow> emailEnqueued option" where
  "retryLater e = (if MustWait e - MaxDuration > 0 then None else Some (e\<lparr>MustWait := nextWait (MustWait e)\<rparr>))"

definition finish :: "netError option \<Rightarrow> emailEnqueued \<Rightarrow> Queue \<Rightarrow> Queue" where
  "finish err e q =
     (let q' = q\<lparr>sending := sending q - {#e#}, okTokens := Suc (okTokens q)\<rparr>
      in case outcomeOf err of
           Delivered \<Rightarrow> q'\<lparr>delivered := add_mset e (delivered q)\<rparr>
         | Failed \<Rightarrow> q'\<lparr>failed := add_mset e (failed q)\<rparr>
         | Retry \<Rightarrow>
             (case retryLater e of
                None \<Rightarrow> q'\<lparr>failed := add_mset e (failed q)\<rparr>
              | Some e' \<Rightarrow> q'\<lparr>sleeping := add_mset e' (sleeping q)\<rparr>))"

section \<open>Steps\<close>

definition Enqueue :: "string \<Rightarrow> RelayRcpt list \<Rightarrow> string \<Rightarrow> nat \<Rightarrow> Queue \<Rightarrow> Queue" where
  "Enqueue frm to domain email q =
     q\<lparr>waiting := add_mset \<lparr>qFrom = frm, qTo = to, qDomain = domain, qEmail = email, MustWait = 0\<rparr> (waiting q)\<rparr>"

text \<open>The start of a sending: the goroutine of \<open>Queue.send\<close> up to the buffer of \<open>relayOutside\<close>.\<close>

definition startSend :: "emailEnqueued \<Rightarrow> Queue \<Rightarrow> Queue" where
  "startSend e q =
     q\<lparr>sending := add_mset e (sending q),
       transmitted := transmitted q @ [(e, entities q (qEmail e))],
       entities := (entities q)(qEmail e := (entities q (qEmail e))\<lparr>msgBody := []\<rparr>)\<rparr>"

text \<open>What the queue does by itself; the token of a sending that ends goes back in the same step
  as its outcome is decided. \<open>concurrent\<close> is the capacity of the channel of tokens.\<close>

inductive queue_act :: "nat \<Rightarrow> Queue \<Rightarrow> Queue \<Rightarrow> bool" for concurrent where
  put: "e \<in># waiting q \<Longrightarrow> length (sender q) < 2 \<Longrightarrow>
    queue_act concurrent q (q\<lparr>waiting := waiting q - {#e#}, sender := sender q @ [e]\<rparr>)"
| token: "looping q = WaitToken \<Longrightarrow> okTokens q > 0 \<Longrightarrow>
    queue_act concurrent q (q\<lparr>okTokens := okTokens q - 1, looping := WaitMail\<rparr>)"
| take: "looping q = WaitMail \<Longrightarrow> sender q = e # es \<Longrightarrow>
    queue_act concurrent q (startSend e (q\<lparr>sender := es, looping := WaitToken\<rparr>))"
| finish: "e \<in># sending q \<Longrightarrow> okTokens q < concurrent \<Longrightarrow> queue_act concurrent q (finish err e q)"
| wake: "e \<in># sleeping q \<Longrightarrow>
    queue_act concurrent q (q\<lparr>sleeping := sleeping q - {#e#}, waiting := add_mset e (waiting q)\<rparr>)"

text \<open>The other steps come from outside: the relay gives a mail to the queue or changes a message
  it shares with it, and the context of the loop is cancelled.\<close>

inductive queue_step :: "nat \<Rightarrow> Queue \<Rightarrow> Queue \<Rightarrow> bool" for concurrent where
  enqueue: "queue_step concurrent q (Enqueue frm to domain email q)"
| act: "queue_act concurrent q q' \<Longrightarrow> queue_step concurrent q q'"
| relay: "queue_step concurrent q (q\<lparr>entities := (entities q)(a := m)\<rparr>)"
| stopIdle: "looping q = WaitToken \<Longrightarrow> queue_step concurrent q (q\<lparr>looping := Stopped False\<rparr>)"
| stopHolding: "looping q = WaitMail \<Longrightarrow> queue_step concurrent q (q\<lparr>looping := Stopped True\<rparr>)"

text \<open>The runs of a queue with the mails that were given to it.\<close>

inductive queue_run :: "nat \<Rightarrow> emailEnqueued list \<Rightarrow> Queue \<Rightarrow> bool" for concurrent where
  new: "queue_run concurrent [] (NewQueue concurrent)"
| given: "queue_run concurrent es q \<Longrightarrow>
    queue_run concurrent (es @ [\<lparr>qFrom = frm, qTo = to, qDomain = domain, qEmail = email, MustWait = 0\<rparr>])
      (Enqueue frm to domain email q)"
| act: "queue_run concurrent es q \<Longrightarrow> queue_act concurrent q q' \<Longrightarrow> queue_run concurrent es q'"
| relay: "queue_run concurrent es q \<Longrightarrow> queue_run concurrent es (q\<lparr>entities := (entities q)(a := m)\<rparr>)"
| stopIdle: "queue_run concurrent es q \<Longrightarrow> looping q = WaitToken \<Longrightarrow>
    queue_run concurrent es (q\<lparr>looping := Stopped False\<rparr>)"
| stopHolding: "queue_run concurrent es q \<Longrightarrow> looping q = WaitMail \<Longrightarrow>
    queue_run concurrent es (q\<lparr>looping := Stopped True\<rparr>)"

section \<open>Invariants\<close>

definition held :: "Queue \<Rightarrow> nat" where
  "held q = (case looping q of WaitMail \<Rightarrow> 1 | Stopped True \<Rightarrow> 1 | _ \<Rightarrow> 0)"

definition tokensOk :: "nat \<Rightarrow> Queue \<Rightarrow> bool" where
  "tokensOk concurrent q \<longleftrightarrow> okTokens q + size (sending q) + held q = concurrent"

text \<open>Every mail of the queue.\<close>

definition allMails :: "Queue \<Rightarrow> emailEnqueued multiset" where
  "allMails q = waiting q + mset (sender q) + sending q + sleeping q + delivered q + failed q"

lemma finish_tokens:
  assumes "e \<in># sending q"
  shows "okTokens (finish err e q) = Suc (okTokens q)" "looping (finish err e q) = looping q"
    "size (sending (finish err e q)) = size (sending q) - 1"
  using assms
  by (auto simp: finish_def Let_def size_Diff_singleton split: outcome.splits option.splits)

lemma tokensOk_act: "queue_act c q q' \<Longrightarrow> tokensOk c q \<Longrightarrow> tokensOk c q'"
proof (induction rule: queue_act.induct)
  case (finish e q err)
  have "size (sending q) > 0" using finish(1) by (metis empty_iff nonempty_has_size set_mset_empty)
  with finish finish_tokens [OF finish(1), of err] show ?case by (simp add: tokensOk_def held_def)
qed (auto simp: tokensOk_def held_def startSend_def)

lemma tokensOk_step: "queue_step c q q' \<Longrightarrow> tokensOk c q \<Longrightarrow> tokensOk c q'"
proof (induction rule: queue_step.induct)
  case (act q q')
  then show ?case by (rule tokensOk_act)
qed (auto simp: tokensOk_def held_def Enqueue_def)

interpretation qt: transition_system "\<lambda>q. q = NewQueue c" "queue_step c" "tokensOk c" for c
  by unfold_locales (simp add: tokensOk_def NewQueue_def held_def, rule tokensOk_step)

lemma finish_mails:
  assumes "e \<in># sending q"
  shows "\<exists>e'. allMails (finish err e q) = add_mset e' (allMails q - {#e#}) \<and>
    (e' = e \<or> retryLater e = Some e')"
proof -
  obtain rest where r: "sending q = add_mset e rest" using assms by (metis multi_member_split)
  show ?thesis
    using r by (auto simp: finish_def Let_def allMails_def split: outcome.splits option.splits)
qed

text \<open>A mail up to its wait.\<close>

abbreviation key :: "emailEnqueued \<Rightarrow> emailEnqueued" where
  "key e \<equiv> e\<lparr>MustWait := 0\<rparr>"

definition mailKeys :: "Queue \<Rightarrow> emailEnqueued multiset" where
  "mailKeys q = image_mset key (allMails q)"

lemma retryLater_key: "retryLater e = Some e' \<Longrightarrow> key e' = key e"
  by (auto simp: retryLater_def split: if_splits)

lemma in_allMails: "e \<in># sending q \<Longrightarrow> e \<in># allMails q"
  by (simp add: allMails_def)

lemma finish_keys:
  assumes "e \<in># sending q"
  shows "mailKeys (finish err e q) = mailKeys q"
proof -
  obtain e' where m: "allMails (finish err e q) = add_mset e' (allMails q - {#e#})" and k: "key e' = key e"
    using finish_mails [OF assms, of err] retryLater_key by blast
  obtain rest where r: "allMails q = add_mset e rest"
    using in_allMails [OF assms] by (metis multi_member_split)
  show ?thesis unfolding mailKeys_def m r using k by simp
qed

lemma act_keys:
  assumes "queue_act c q q'"
  shows "mailKeys q' = mailKeys q"
  using assms
proof (cases rule: queue_act.cases)
  case (put e)
  obtain rest where "waiting q = add_mset e rest" using put(2) by (metis multi_member_split)
  with put show ?thesis by (simp add: mailKeys_def allMails_def)
next
  case (finish e err)
  then show ?thesis using finish_keys by simp
next
  case (wake e)
  obtain rest where "sleeping q = add_mset e rest" using wake(2) by (metis multi_member_split)
  with wake show ?thesis by (simp add: mailKeys_def allMails_def)
qed (simp_all add: mailKeys_def allMails_def startSend_def)

lemma run_keys: "queue_run c es q \<Longrightarrow> mailKeys q = mset es"
proof (induction rule: queue_run.induct)
  case (act es q q')
  then show ?case by (simp add: act_keys)
qed (auto simp: mailKeys_def allMails_def Enqueue_def NewQueue_def)

text \<open>A run is what the steps reach, and the other way round.\<close>

lemma run_reachable: "queue_run c es q \<Longrightarrow> (queue_step c)\<^sup>*\<^sup>* (NewQueue c) q"
proof (induction rule: queue_run.induct)
  case (given es q frm to domain email)
  show ?case by (rule rtranclp.rtrancl_into_rtrancl [OF given(2) queue_step.enqueue])
next
  case (act es q q')
  show ?case by (rule rtranclp.rtrancl_into_rtrancl [OF act(3) queue_step.act [OF act(2)]])
next
  case (relay es q a m)
  show ?case by (rule rtranclp.rtrancl_into_rtrancl [OF relay(2) queue_step.relay])
next
  case (stopIdle es q)
  show ?case by (rule rtranclp.rtrancl_into_rtrancl [OF stopIdle(3) queue_step.stopIdle [OF stopIdle(2)]])
next
  case (stopHolding es q)
  show ?case by (rule rtranclp.rtrancl_into_rtrancl [OF stopHolding(3) queue_step.stopHolding [OF stopHolding(2)]])
qed simp

lemma reachable_run: "(queue_step c)\<^sup>*\<^sup>* (NewQueue c) q \<Longrightarrow> \<exists>es. queue_run c es q"
proof (induction rule: rtranclp_induct)
  case base
  show ?case using queue_run.new by blast
next
  case (step q q')
  then obtain es where es: "queue_run c es q" by blast
  from step(2) show ?case by (cases rule: queue_step.cases) (use es in \<open>blast intro: queue_run.intros\<close>)+
qed

section \<open>Waits\<close>

text \<open>The waits are 0, 4, 6, 9, 13, 19, 28, 42, 63, 94, 141, 211, 316, 474, 711 and 1066.\<close>

definition waitList :: "int list" where
  "waitList = [0, 4, 6, 9, 13, 19, 28, 42, 63, 94, 141, 211, 316, 474, 711, 1066]"

lemma waitList_next: "w \<in> set waitList \<Longrightarrow> w \<le> MaxDuration \<Longrightarrow> nextWait w \<in> set waitList \<and> w < nextWait w"
  by (auto simp: waitList_def nextWait_def MaxDuration_def)

definition waitsListed :: "Queue \<Rightarrow> bool" where
  "waitsListed q \<longleftrightarrow> (\<forall>e \<in># allMails q. MustWait e \<in> set waitList)"

lemma waitsListed_act: "queue_act c q q' \<Longrightarrow> waitsListed q \<Longrightarrow> waitsListed q'"
proof (induction rule: queue_act.induct)
  case (finish e q err)
  obtain e' where m: "allMails (finish err e q) = add_mset e' (allMails q - {#e#})"
    and k: "e' = e \<or> retryLater e = Some e'"
    using finish_mails [OF finish(1), of err] by blast
  have "MustWait e \<in> set waitList" using finish(3) in_allMails [OF finish(1)] by (auto simp: waitsListed_def)
  then have "MustWait e' \<in> set waitList"
    using k waitList_next [of "MustWait e"] by (auto simp: retryLater_def split: if_splits)
  with m finish(3) show ?case by (auto simp: waitsListed_def dest: in_diffD)
qed (auto simp: waitsListed_def allMails_def startSend_def dest: in_diffD)

lemma waitsListed_step: "queue_step c q q' \<Longrightarrow> waitsListed q \<Longrightarrow> waitsListed q'"
proof (induction rule: queue_step.induct)
  case (act q q')
  then show ?case by (rule waitsListed_act)
qed (auto simp: waitsListed_def allMails_def Enqueue_def waitList_def)

interpretation qw: transition_system "\<lambda>q. q = NewQueue c" "queue_step c" waitsListed for c
  by unfold_locales (simp add: waitsListed_def allMails_def NewQueue_def, rule waitsListed_step)

section \<open>Progress\<close>

text \<open>With a sender, the loop gets to the point where it waits for a mail, and so empties the
  channel one mail after the other.\<close>

abbreviation running :: "Queue \<Rightarrow> bool" where
  "running q \<equiv> looping q = WaitToken \<or> looping q = WaitMail"

lemma loop_gets_token:
  assumes "tokensOk c q" and "c > 0" and "running q"
  shows "\<exists>q'. (queue_act c)\<^sup>*\<^sup>* q q' \<and> tokensOk c q' \<and> looping q' = WaitMail \<and>
    waiting q' = waiting q \<and> sender q' = sender q"
proof -
  have tok: "\<exists>q'. (queue_act c)\<^sup>*\<^sup>* q q' \<and> tokensOk c q' \<and> looping q' = WaitMail \<and> waiting q' = waiting q \<and> sender q' = sender q"
    if "looping q = WaitToken" "okTokens q > 0" "tokensOk c q" for q
    using queue_act.token [OF that(1,2), of c] tokensOk_act that(3)
    by (intro exI [of _ "q\<lparr>okTokens := okTokens q - 1, looping := WaitMail\<rparr>"]) auto
  consider "looping q = WaitMail" | "looping q = WaitToken" "okTokens q > 0"
    | e where "looping q = WaitToken" "okTokens q = 0" "e \<in># sending q"
    using assms by (cases "sending q") (auto simp: tokensOk_def held_def)
  then show ?thesis
  proof cases
    case 1
    then show ?thesis using assms(1) by blast
  next
    case 2
    then show ?thesis using tok assms(1) by blast
  next
    case (3 e)
    let ?q = "finish None e q"
    have a: "queue_act c q ?q" using 3 assms(2) by (intro queue_act.finish) auto
    have "looping ?q = WaitToken" "okTokens ?q > 0" "waiting ?q = waiting q" "sender ?q = sender q"
      using 3 finish_tokens [OF 3(3), of None] by (simp_all add: finish_def Let_def outcomeOf_def)
    then obtain q' where "(queue_act c)\<^sup>*\<^sup>* ?q q'" "tokensOk c q'" "looping q' = WaitMail" "waiting q' = waiting q" "sender q' = sender q"
      using tok [of ?q] tokensOk_act [OF a assms(1)] by auto
    then show ?thesis using converse_rtranclp_into_rtranclp [of "queue_act c", OF a] by blast
  qed
qed

lemma channel_empties:
  assumes "tokensOk c q" and "c > 0" and "running q" and "sender q = xs @ ys"
  shows "\<exists>q'. (queue_act c)\<^sup>*\<^sup>* q q' \<and> tokensOk c q' \<and> running q' \<and> waiting q' = waiting q \<and> sender q' = ys"
  using assms
proof (induction xs arbitrary: q)
  case (Cons x xs)
  obtain q1 where q1: "(queue_act c)\<^sup>*\<^sup>* q q1" "tokensOk c q1" "looping q1 = WaitMail" "waiting q1 = waiting q" "sender q1 = x # xs @ ys"
    using loop_gets_token [OF Cons.prems(1-3)] Cons.prems(4) by auto
  let ?q = "startSend x (q1\<lparr>sender := xs @ ys, looping := WaitToken\<rparr>)"
  have a: "queue_act c q1 ?q" by (rule queue_act.take [OF q1(3,5)])
  then obtain q' where q': "(queue_act c)\<^sup>*\<^sup>* ?q q'"
    "tokensOk c q' \<and> running q' \<and> waiting q' = waiting q \<and> sender q' = ys"
    using Cons.IH [of ?q] tokensOk_act [OF a q1(2)] Cons.prems(2) q1(4) by (auto simp: startSend_def)
  have "(queue_act c)\<^sup>*\<^sup>* q q'" using rtranclp_trans [OF rtranclp.rtrancl_into_rtrancl [OF q1(1) a] q'(1)] .
  with q'(2) show ?case by blast
next
  case Nil
  then show ?case by (intro exI [of _ q]) simp
qed

lemma head_gets_sent:
  assumes "tokensOk c q" and "c > 0" and "running q" and "sender q = e # es"
  shows "\<exists>q1 q2. (queue_act c)\<^sup>*\<^sup>* q q1 \<and> queue_act c q1 q2 \<and> sending q2 = add_mset e (sending q1) \<and>
    transmitted q2 = transmitted q1 @ [(e, entities q1 (qEmail e))]"
proof -
  obtain q1 where q1: "(queue_act c)\<^sup>*\<^sup>* q q1" "looping q1 = WaitMail" "sender q1 = e # es"
    using loop_gets_token [OF assms(1-3)] assms(4) by auto
  show ?thesis using q1(1) queue_act.take [OF q1(2,3), of c]
    by (intro exI [of _ q1] exI [of _ "startSend e (q1\<lparr>sender := es, looping := WaitToken\<rparr>)"]) (simp add: startSend_def)
qed

lemma mail_gets_sent:
  assumes "tokensOk c q" and "c > 0" and "running q" and "e \<in># waiting q + mset (sender q)"
  shows "\<exists>q1 q2. (queue_act c)\<^sup>*\<^sup>* q q1 \<and> queue_act c q1 q2 \<and> sending q2 = add_mset e (sending q1) \<and>
    transmitted q2 = transmitted q1 @ [(e, entities q1 (qEmail e))]"
proof (cases "e \<in># waiting q")
  case True
  obtain q1 where q1: "(queue_act c)\<^sup>*\<^sup>* q q1" "tokensOk c q1" "running q1" "waiting q1 = waiting q" "sender q1 = []"
    using channel_empties [OF assms(1-3), of "sender q" "[]"] by auto
  let ?q = "q1\<lparr>waiting := waiting q1 - {#e#}, sender := sender q1 @ [e]\<rparr>"
  have a: "queue_act c q1 ?q" using True q1 by (intro queue_act.put) auto
  have "(queue_act c)\<^sup>*\<^sup>* q ?q" using q1(1) a by (rule rtranclp.rtrancl_into_rtrancl)
  moreover have "tokensOk c ?q" using tokensOk_act [OF a q1(2)] .
  ultimately show ?thesis
    using head_gets_sent [of c ?q e "[]"] assms(2) q1(3,5) rtranclp_trans [of "queue_act c" q ?q] by simp blast
next
  case False
  then obtain xs es where "sender q = xs @ e # es" using assms(4) by (auto simp: in_set_conv_decomp)
  then obtain q1 where q1: "(queue_act c)\<^sup>*\<^sup>* q q1" "tokensOk c q1" "running q1" "sender q1 = e # es"
    using channel_empties [OF assms(1-3)] by blast
  then show ?thesis using head_gets_sent [OF q1(2) assms(2) q1(3,4)] rtranclp_trans [of "queue_act c" q q1] by blast
qed

text \<open>Without a token no sending starts.\<close>

lemma nothing_sent:
  assumes "(queue_step c)\<^sup>*\<^sup>* (NewQueue c) q" and "c = 0"
  shows "transmitted q = []"
proof -
  have "tokensOk c q \<and> transmitted q = []"
    using assms(1)
  proof (induction rule: rtranclp_induct)
    case base
    show ?case by (simp add: NewQueue_def tokensOk_def held_def)
  next
    case (step q q')
    have "held q = 0" "sending q = {#}" using step(3) assms(2) by (auto simp: tokensOk_def)
    then have a: "transmitted q' = []" if "queue_act c q q'"
      using that step(3) by (auto simp: held_def elim!: queue_act.cases)
    from step(2) have "transmitted q' = []"
      by (cases rule: queue_step.cases) (use a step(3) in \<open>auto simp: Enqueue_def\<close>)
    with tokensOk_step [OF step(2)] step(3) show ?case by blast
  qed
  then show ?thesis ..
qed

section \<open>Properties\<close>

text \<open>C9: at most as many mails are sent at a time as there are senders, and a sending that ends
  never waits to give its token back: in every state the queue reaches, the tokens in the
  channel, the mails being sent and the token the loop holds make up the number of senders.\<close>

theorem queue_senders_bounded:
  assumes "(queue_step c)\<^sup>*\<^sup>* (NewQueue c) q"
  shows "okTokens q + size (sending q) + held q = c \<and> (sending q \<noteq> {#} \<longrightarrow> okTokens q < c)"
proof -
  have "tokensOk c q" by (rule qt.reachable_inv [OF refl assms])
  then show ?thesis by (auto simp: tokensOk_def nonempty_has_size)
qed

definition queued :: emailEnqueued where
  "queued = \<lparr>qFrom = ''a'', qTo = [], qDomain = ''b.org'', qEmail = 7, MustWait = 0\<rparr>"

definition demoSending :: Queue where
  "demoSending = startSend queued ((NewQueue 1)\<lparr>okTokens := 0\<rparr>)"

lemma demoRun: "queue_run 1 [queued] demoSending"
proof -
  let ?q1 = "(NewQueue 1)\<lparr>waiting := {#queued#}\<rparr>"
  let ?q2 = "(NewQueue 1)\<lparr>sender := [queued]\<rparr>"
  let ?q3 = "(NewQueue 1)\<lparr>sender := [queued], okTokens := 0, looping := WaitMail\<rparr>"
  have 1: "queue_run 1 [queued] ?q1"
    using queue_run.given [OF queue_run.new, of 1 "''a''" "[]" "''b.org''" 7]
    by (simp add: Enqueue_def queued_def NewQueue_def)
  have 2: "queue_act 1 ?q1 ?q2" using queue_act.put [of queued ?q1 1] by (simp add: NewQueue_def)
  have 3: "queue_act 1 ?q2 ?q3" using queue_act.token [of ?q2 1] by (simp add: NewQueue_def)
  have 4: "queue_act 1 ?q3 demoSending"
    using queue_act.take [of ?q3 queued "[]" 1] by (simp add: NewQueue_def demoSending_def)
  show ?thesis by (rule queue_run.act [OF queue_run.act [OF queue_run.act [OF 1 2] 3] 4])
qed

lemmas demoReach = run_reachable [OF demoRun]

lemma demoSending_simps:
  "sending demoSending = {#queued#}" "okTokens demoSending = 0" "looping demoSending = WaitToken"
  "allMails demoSending = {#queued#}" "sender demoSending = []" "waiting demoSending = {#}"
  by (simp_all add: demoSending_def startSend_def NewQueue_def allMails_def)

theorem queue_senders_bounded_witness:
  "\<exists>q. (queue_step 1)\<^sup>*\<^sup>* (NewQueue 1) q \<and> size (sending q) = 1 \<and> okTokens q < 1"
  using queue_senders_bounded [OF demoReach] demoReach
  by (intro exI [of _ demoSending]) (simp add: demoSending_simps)

text \<open>C12: the queue loses no mail and makes none up: in every run the mails that were given to
  \<open>Enqueue\<close> are, each exactly once, waiting, in the channel, being sent, asleep, delivered or given
  up, with the sender, the recipients, the domain and the pointer to the message they were given
  with; only the wait changes.\<close>

theorem queue_conserves_mails:
  assumes "queue_run c given q"
  shows "image_mset (\<lambda>e. e\<lparr>MustWait := 0\<rparr>)
    (waiting q + mset (sender q) + sending q + sleeping q + delivered q + failed q) = mset given"
  using run_keys [OF assms] by (simp only: mailKeys_def allMails_def)

theorem queue_conserves_mails_witness:
  "image_mset (\<lambda>e. e\<lparr>MustWait := 0\<rparr>) (sleeping (finish (Some (SMTPReply 450)) queued demoSending)) = {#queued#}"
proof -
  let ?q = "finish (Some (SMTPReply 450)) queued demoSending"
  have "queue_run 1 [queued] ?q"
    by (rule queue_run.act [OF demoRun], rule queue_act.finish) (simp_all add: demoSending_simps)
  from queue_conserves_mails [OF this] show ?thesis
    by (simp add: demoSending_def startSend_def NewQueue_def finish_def outcomeOf_def retryLater_def MaxDuration_def queued_def)
qed

text \<open>C33: the queue gives up: the waits of a mail grow with every retry along a list of sixteen,
  the last one longer than a quarter of an hour, after which it is not retried again. So no
  mail is sent more than sixteen times.\<close>

theorem queue_retries_bounded:
  assumes "(queue_step c)\<^sup>*\<^sup>* (NewQueue c) q" and "e \<in># allMails q"
  shows "MustWait e \<in> set waitList \<and>
    (case retryLater e of
       Some e' \<Rightarrow> MustWait e < MustWait e' \<and> MustWait e' \<in> set waitList
     | None \<Rightarrow> MustWait e = 1066)"
proof -
  have "waitsListed q" by (rule qw.reachable_inv [OF refl assms(1)])
  then have w: "MustWait e \<in> set waitList" using assms(2) by (simp add: waitsListed_def)
  moreover have "MustWait e = 1066" if "\<not> MustWait e \<le> MaxDuration"
    using w that by (auto simp: waitList_def MaxDuration_def)
  ultimately show ?thesis using waitList_next [OF w] by (simp add: retryLater_def)
qed

theorem queue_retries_bounded_witness:
  "MustWait queued \<in> set waitList \<and> retryLater queued = Some (queued\<lparr>MustWait := 4\<rparr>)"
  using queue_retries_bounded [OF demoReach, of queued]
  by (simp add: demoSending_simps retryLater_def queued_def MaxDuration_def nextWait_def)

text \<open>C13: no mail is stuck: from every state the queue reaches while its loop runs, and with at
  least one sender, a mail that waits or is in the channel gets to be sent, by steps the queue
  makes by itself: the sendings before it end, and one takes it. With no sender, which is what a
  configuration without the option \<open>concurrent_sender\<close> asks for, nothing is ever sent.\<close>

theorem queue_progress:
  assumes "(queue_step c)\<^sup>*\<^sup>* (NewQueue c) q" and "looping q = WaitToken \<or> looping q = WaitMail"
    and "e \<in># waiting q + mset (sender q)"
  shows "if c = 0 then transmitted q = []
    else \<exists>q1 q2. (queue_act c)\<^sup>*\<^sup>* q q1 \<and> queue_act c q1 q2 \<and> sending q2 = add_mset e (sending q1) \<and>
      transmitted q2 = transmitted q1 @ [(e, entities q1 (qEmail e))]"
  using mail_gets_sent [OF _ _ assms(2,3)] qt.reachable_inv [OF refl assms(1)] nothing_sent [OF assms(1)] by auto

theorem queue_progress_witness:
  "\<exists>q1 q2. (queue_act 1)\<^sup>*\<^sup>* (Enqueue ''a'' [] ''b.org'' 7 demoSending) q1 \<and> queue_act 1 q1 q2 \<and>
     sending q2 = add_mset queued (sending q1)"
proof -
  have r: "(queue_step 1)\<^sup>*\<^sup>* (NewQueue 1) (Enqueue ''a'' [] ''b.org'' 7 demoSending)"
    using demoReach queue_step.enqueue by (meson rtranclp.rtrancl_into_rtrancl)
  show ?thesis
    using queue_progress [OF r, of queued] by (fastforce simp: Enqueue_def demoSending_simps queued_def)
qed

text \<open>a retry sends the message without its body, and so does the second of two mails that share a
  message: once a sending has started, every later one of the same message finds no body, unless
  the relay fills it again.\<close>

definition fillsNone :: "Queue \<Rightarrow> Queue \<Rightarrow> bool" where
  "fillsNone q q' \<longleftrightarrow> (\<forall>a. msgBody (entities q a) = [] \<longrightarrow> msgBody (entities q' a) = [])"

theorem body_sent_once:
  assumes "(\<lambda>q q'. queue_step c q q' \<and> fillsNone q q')\<^sup>*\<^sup>* (startSend e q) q'" and "qEmail e' = qEmail e"
  shows "\<exists>sent m. transmitted (startSend e' q') = sent @ [(e', m)] \<and> msgBody m = []"
proof -
  have "msgBody (entities q' (qEmail e)) = []"
    using assms(1) by (induction rule: rtranclp_induct) (auto simp: startSend_def fillsNone_def)
  with assms(2) show ?thesis by (simp add: startSend_def)
qed

theorem body_sent_once_witness:
  "\<exists>sent m. transmitted (startSend queued (finish (Some (SMTPReply 450)) queued demoSending)) = sent @ [(queued, m)] \<and> msgBody m = []"
proof -
  have "queue_act 1 demoSending (finish (Some (SMTPReply 450)) queued demoSending)"
    by (rule queue_act.finish) (simp_all add: demoSending_simps)
  moreover have "entities (finish (Some (SMTPReply 450)) queued demoSending) = entities demoSending"
    by (simp add: finish_def Let_def split: outcome.splits option.splits)
  ultimately have "(\<lambda>q q'. queue_step 1 q q' \<and> fillsNone q q')\<^sup>*\<^sup>* demoSending (finish (Some (SMTPReply 450)) queued demoSending)"
    by (intro r_into_rtranclp) (simp add: queue_step.act fillsNone_def)
  then show ?thesis unfolding demoSending_def by (rule body_sent_once) simp
qed

end
