(* ===== verification/Atmail_Daemon.thy ===== *)
theory Atmail_Daemon
  imports Atmail_Config Imap_Selected Relay_Queue Store_Cache
begin

text \<open>
  The server as a process: its listeners (\<open>src/utils/listen.go\<close>), the backend of the relay
  (\<open>src/relay/server.go\<close>), and \<open>src/cmd/atmaild/main.go\<close>, which starts the servers, tells the
  mailbox server of the mails the relay stores, and loads the configuration again on a signal.

  The calls of the operating system are arguments that tell which of them succeed. A connection
  to the account service Den is named by how often the configuration was loaded before it was opened,
  and by its domain: the servers keep those of the first load.
\<close>

section \<open>Listening\<close>

datatype socketGroup = GroupID int | GroupName string | GroupOther

record listenOptions =
  loAddr :: string
  loGroup :: "socketGroup option"
  loPermission :: nat

record osCalls =
  netListen :: "string \<Rightarrow> string \<Rightarrow> bool"
  osChmod :: "string \<Rightarrow> nat \<Rightarrow> bool"
  osChown :: "string \<Rightarrow> int \<Rightarrow> bool"
  lookupGroup :: "string \<Rightarrow> int option"

datatype listenError = ErrNetListen | ErrChmod | ErrLookupGroup | ErrGroupType | ErrChown

text \<open>\<open>ListenConfig.Listen\<close>: the error, and whether the socket is left open. The deferred function closes it
  when \<open>err\<close> is set; the error of the lookup of a group is in another variable of that name.\<close>

definition groupID :: "osCalls \<Rightarrow> socketGroup \<Rightarrow> listenError + int" where
  "groupID os g =
     (case g of
        GroupID v \<Rightarrow> Inr v
      | GroupName name \<Rightarrow> (case lookupGroup os name of None \<Rightarrow> Inl ErrLookupGroup | Some gid \<Rightarrow> Inr gid)
      | GroupOther \<Rightarrow> Inl ErrGroupType)"

definition Listen :: "osCalls \<Rightarrow> listenOptions \<Rightarrow> listenError option \<times> bool" where
  "Listen os cfg =
     (let kind = (if CHR ''/'' \<in> set (loAddr cfg) then ''unix'' else ''tcp'') in
      if \<not> netListen os kind (loAddr cfg) then (Some ErrNetListen, False)
      else if kind \<noteq> ''unix'' then (None, True)
      else if loPermission cfg > 0 \<and> \<not> osChmod os (loAddr cfg) (loPermission cfg) then (Some ErrChmod, False)
      else
        case loGroup cfg of
          None \<Rightarrow> (None, True)
        | Some g \<Rightarrow>
            (case groupID os g of
               Inl e \<Rightarrow> (Some e, e = ErrLookupGroup)
             | Inr gid \<Rightarrow> if osChown os (loAddr cfg) gid then (None, True) else (Some ErrChown, False)))"

text \<open>\<open>MultiListener.Close\<close>: all are closed, and the errors are joined.\<close>

fun multiClose :: "('l \<Rightarrow> 'e option) \<Rightarrow> 'l list \<Rightarrow> 'e list option \<Rightarrow> 'e list option" where
  "multiClose close [] err = err"
| "multiClose close (sub # ls) err =
     (case close sub of
        None \<Rightarrow> multiClose close ls err
      | Some e \<Rightarrow> multiClose close ls (case err of None \<Rightarrow> Some [e] | Some es \<Rightarrow> Some (es @ [e])))"

section \<open>Start\<close>

definition NewBackend :: "(string \<rightharpoonup> Config) \<Rightarrow> string option \<Rightarrow> (string \<times> stmt list) list \<Rightarrow> Backend" where
  "NewBackend domains rspamd filters =
     \<lparr>Domains = domains, Rspamd = (case rspamd of None \<Rightarrow> None | Some _ \<Rightarrow> Some []), Filters = filters\<rparr>"

record daemon =
  dConfig :: appConfig
  dBackend :: Backend
  dQueue :: Queue
  dImap :: imapServer
  dLoads :: nat
  dOpen :: "(nat \<times> string) set"

datatype startError = ExitCode nat | PanicNil

text \<open>Which calls succeed: a directory that is made or is there, and a socket that is listened to.\<close>

record machine =
  mkdirAll :: "string \<Rightarrow> bool"
  mkdirUser :: "string \<Rightarrow> bool"
  listenSystem :: "string \<Rightarrow> string \<Rightarrow> bool"
  listenSmtp :: bool
  listenImap :: bool

definition userDirs :: "disk \<Rightarrow> appConfig \<Rightarrow> string \<Rightarrow> string list" where
  "userDirs dsk cfg d =
     (case appDomains cfg d of
        None \<Rightarrow> []
      | Some v \<Rightarrow>
          (case catchAll v of
             Some ca \<Rightarrow> [pathJoin [Directory cfg, catchUser ca @ ''@'' @ d]]
           | None \<Rightarrow>
               (case Static v of
                  None \<Rightarrow> []
                | Some st \<Rightarrow> map (\<lambda>u. pathJoin [Directory cfg, u @ ''@'' @ d]) (keys dsk (dom (Users st))))))"

definition systemUsers :: "disk \<Rightarrow> appConfig \<Rightarrow> string \<Rightarrow> (string \<times> string) list" where
  "systemUsers dsk cfg d =
     (case appDomains cfg d of
        None \<Rightarrow> []
      | Some v \<Rightarrow>
          if catchAll v \<noteq> None then []
          else case Static v of None \<Rightarrow> [] | Some st \<Rightarrow> map (Pair d) (keys dsk (dom (SystemUsers st))))"

definition newImapServer :: "u32 \<Rightarrow> (string \<Rightarrow> mailStore) \<Rightarrow> imapServer" where
  "newImapServer maxSize stores =
     \<lparr>iViews = \<lambda>_. NewView 0 [] 0, iNextView = 0, iBoxes = \<lambda>_. Map.empty, iNextBoxes = 0, iUserBoxes = Map.empty,
      iStores = stores, iMaxEmailSize = maxSize, iLimiter = NewRateLimiter\<rparr>"

text \<open>\<open>main\<close> up to the servers at work. A listener of a system user that failed is nil, and used all the
  same; so is the client of rspamd when only a folder to learn from is set.\<close>

definition startDaemon ::
  "disk \<Rightarrow> hashers \<Rightarrow> (string \<Rightarrow> bool) \<Rightarrow> machine \<Rightarrow> (string \<Rightarrow> mailStore) \<Rightarrow> string \<Rightarrow> startError + daemon" where
  "startDaemon dsk h connect mach stores p =
     (case LoadConfig dsk h connect passwordDefaults p of
        (Inl (ExitStatus n), _) \<Rightarrow> Inl (ExitCode n)
      | (Inl _, _) \<Rightarrow> Inl (ExitCode 2)
      | (Inr (cfg, filters), _, up) \<Rightarrow>
          let ds = keys dsk (dom (appDomains cfg));
              learn = LearnFolder cfg;
              bck = NewBackend (appDomains cfg) (RspamdAddress cfg) filters
          in if learn \<noteq> [] \<and> \<not> (mkdirAll mach (pathJoin [learn, ''spam'']) \<and> mkdirAll mach (pathJoin [learn, ''ham''])) then Inl (ExitCode 2)
             else if \<not> list_all (mkdirUser mach) (concat (map (userDirs dsk cfg) ds)) then Inl (ExitCode 3)
             else if learn \<noteq> [] \<and> Rspamd bck = None then Inl PanicNil
             else if \<not> listenSmtp mach then Inl (ExitCode 4)
             else if \<not> listenImap mach then Inl (ExitCode 4)
             else if \<not> list_all (\<lambda>(d, u). listenSystem mach d u) (concat (map (systemUsers dsk cfg) ds)) then Inl PanicNil
             else Inr \<lparr>dConfig = cfg, dBackend = (if learn \<noteq> [] then bck\<lparr>Rspamd := Some learn\<rparr> else bck),
                    dQueue = NewQueue (unat (ConcurrentSender cfg)), dImap = newImapServer (MaxEmailSize cfg) stores,
                    dLoads = 0, dOpen = Pair 0 ` set up\<rparr>)"

section \<open>Loading again\<close>

text \<open>\<open>Config.Close\<close>: the connections are closed up to the first that fails to.\<close>

definition closeConfig :: "disk \<Rightarrow> (string \<Rightarrow> bool) \<Rightarrow> appConfig \<Rightarrow> string list" where
  "closeConfig dsk closes cfg = takeWhile closes (filter (usesDen (appDomains cfg)) (keys dsk (dom (appDomains cfg))))"

text \<open>The answer to the signal: none when the process ends.\<close>

definition reload ::
  "disk \<Rightarrow> hashers \<Rightarrow> (string \<Rightarrow> bool) \<Rightarrow> (string \<Rightarrow> bool) \<Rightarrow> PasswordDefaults \<Rightarrow> string \<Rightarrow> daemon \<Rightarrow> daemon option" where
  "reload dsk h connect closes pd p D =
     (let left = dOpen D - Pair (dLoads D) ` set (closeConfig dsk closes (dConfig D)) in
      case LoadConfig dsk h connect pd p of
        (Inl (ExitStatus n), _) \<Rightarrow> None
      | (Inl _, _, up) \<Rightarrow> Some (D\<lparr>dOpen := left \<union> Pair (Suc (dLoads D)) ` set up\<rparr>)
      | (Inr (cfg, filters), _, up) \<Rightarrow>
          Some (D\<lparr>dBackend := (dBackend D)\<lparr>Filters := filters\<rparr>, dConfig := cfg, dLoads := Suc (dLoads D),
                  dOpen := left \<union> Pair (Suc (dLoads D)) ` set up\<rparr>))"

section \<open>The end\<close>

text \<open>A signal ends \<open>main\<close>, which runs the deferred \<open>Cache.Close\<close>; an error of one of the two servers ends the process with a status,
  and runs nothing.\<close>

datatype stop = Signalled | ServeFails

definition stopDaemon :: "stop \<Rightarrow> (string \<Rightarrow> bool) \<Rightarrow> string list \<Rightarrow> Meta \<Rightarrow> (nat \<times> Meta) option" where
  "stopDaemon why saves order m =
     (case why of
        ServeFails \<Rightarrow> Some (5, m)
      | Signalled \<Rightarrow> (case closeMeta saves order m of None \<Rightarrow> None | Some (err, m') \<Rightarrow> Some (0, m')))"

section \<open>Mails that arrive\<close>

text \<open>\<open>OnReceive\<close>: \<open>box\<close> is the folder of the recipient, which is empty for the inbox, and \<open>i\<close> the
  identifier of the mail.\<close>

definition OnReceive :: "(nat \<Rightarrow> update \<Rightarrow> bool) \<Rightarrow> string \<Rightarrow> string \<Rightarrow> int \<Rightarrow> imapServer \<Rightarrow> imapError option \<times> imapServer" where
  "OnReceive accepts user box i B =
     (case GetUserBoxes B user of
        None \<Rightarrow> (None, B)
      | Some bx \<Rightarrow>
          (case BoxesGet B bx box of
             Some v \<Rightarrow> tell v (WriteNewMessages accepts 1) B
           | None \<Rightarrow> (None, BoxesAdd bx (NewView (of_int i) box 1) B)))"

text \<open>What the relay does for a recipient, on the stores the mailbox server shows.\<close>

definition receiveMail ::
  "(bytes \<Rightarrow> bytes) \<Rightarrow> string \<Rightarrow> (nat \<Rightarrow> update \<Rightarrow> bool) \<Rightarrow> Email \<Rightarrow> bytes \<Rightarrow> bool \<Rightarrow> bool \<Rightarrow> string \<Rightarrow> string \<Rightarrow> imapServer \<Rightarrow>
   imapError option \<times> imapServer" where
  "receiveMail gzip now accepts row b spam enc user folder B =
     (case if spam then StoreSpam gzip now row b enc (iStores B user) else StoreEmailInbox gzip now row b folder enc (iStores B user) of
        (Inl _, st) \<Rightarrow> (None, B\<lparr>iStores := (iStores B)(user := st)\<rparr>)
      | (Inr i, st) \<Rightarrow> OnReceive accepts user folder i (B\<lparr>iStores := (iStores B)(user := st)\<rparr>))"

section \<open>Properties\<close>

text \<open>a socket is left open exactly when listening succeeds, or when the group it is to belong to is
  not found.\<close>

theorem listen_leaks_socket: "snd (Listen os cfg) \<longleftrightarrow> fst (Listen os cfg) \<in> {None, Some ErrLookupGroup}"
  by (auto simp: Listen_def groupID_def Let_def split: option.split socketGroup.split)

lemma multiClose_errors:
  "multiClose close ls err =
     (case (err, List.map_filter close ls) of
        (None, []) \<Rightarrow> None
      | (None, es) \<Rightarrow> Some es
      | (Some es0, es) \<Rightarrow> Some (es0 @ es))"
  by (induction close ls err rule: multiClose.induct) (auto simp: List.map_filter_def split: option.split list.split)

lemma connectAll_subset: "connectAll connect ds = (e, up) \<Longrightarrow> set up \<subseteq> set ds"
  by (induction ds arbitrary: up) (fastforce split: if_splits prod.splits)+

lemma LoadConfig_up:
  "LoadConfig dsk h connect pd p = (Inr (cfg, fs), pd', up) \<Longrightarrow> \<forall>d \<in> set up. usesDen (appDomains cfg) d"
  by (auto simp: LoadConfig_def dest!: connectAll_subset split: sum.splits option.splits prod.splits)

lemma startDaemon_cases:
  assumes "startDaemon dsk h connect mach stores p = Inr D"
  obtains cfg fs pd up where "LoadConfig dsk h connect passwordDefaults p = (Inr (cfg, fs), pd, up)" "dConfig D = cfg"
    "Domains (dBackend D) = appDomains cfg" "Filters (dBackend D) = fs" "dLoads D = 0" "dOpen D = Pair 0 ` set up"
    "LearnFolder cfg \<noteq> [] \<longrightarrow> Rspamd (dBackend D) = Some (LearnFolder cfg) \<and> RspamdAddress cfg \<noteq> None"
  using assms
  by (auto simp: startDaemon_def Let_def NewBackend_def split: sum.splits prod.splits if_splits configError.splits option.splits)

text \<open>a server that runs was checked: its domains are those of the configuration, each of which is
  well-formed, and mails to learn from are only kept when there is a rspamd.\<close>

theorem started_server_checked:
  assumes "startDaemon dsk h connect mach stores p = Inr D" and "\<forall>S. finite S \<longrightarrow> set (keys dsk S) = S"
    and "Domains (dBackend D) d = Some c" and "finite (dom (Domains (dBackend D)))"
    and "\<forall>st. Static c = Some st \<longrightarrow> finite (dom (Users st))"
  shows "domainChecked c \<and> (LearnFolder (dConfig D) \<noteq> [] \<longrightarrow> Rspamd (dBackend D) = Some (LearnFolder (dConfig D)))"
proof -
  obtain cfg fs pd up where load: "LoadConfig dsk h connect passwordDefaults p = (Inr (cfg, fs), pd, up)"
    and D: "dConfig D = cfg" "Domains (dBackend D) = appDomains cfg"
      "LearnFolder cfg \<noteq> [] \<longrightarrow> Rspamd (dBackend D) = Some (LearnFolder cfg) \<and> RspamdAddress cfg \<noteq> None"
    using startDaemon_cases [OF assms(1)] by metis
  have "ParseConfig dsk p = Inr cfg" using LoadConfig_cases(2) [OF load] by blast
  from ParseConfig_checked [OF this] have "checkDomain dsk d c = None" using assms(2,3,4) D(2) by force
  then show ?thesis using checkDomain_ok [OF assms(2) _ assms(5)] D by blast
qed

text \<open>A server whose one domain has its accounts in the service.\<close>

definition goodMachine :: machine where
  "goodMachine = \<lparr>mkdirAll = \<lambda>_. True, mkdirUser = \<lambda>_. True, listenSystem = \<lambda>_ _. True, listenSmtp = True, listenImap = True\<rparr>"

definition denConfig :: Config where
  "denConfig = demoConfig\<lparr>Static := None, cfgDen := Some \<lparr>denGroups = Map.empty\<rparr>\<rparr>"

definition denDisk :: disk where
  "denDisk = demoDisk\<lparr>decodeDomain := \<lambda>_. Some denConfig, readSource := \<lambda>_. Some ''header = header''\<rparr>"

lemma denDisk_keys: "\<forall>S. finite S \<longrightarrow> set (keys denDisk S) = S"
  by (simp add: denDisk_def demoDisk_def)

lemma den_parsed: "ParseConfig denDisk [] = Inr (demoApp\<lparr>appDomains := [''a.org'' \<mapsto> denConfig], MaxEmailSize := 16809984\<rparr>)"
  by (simp add: ParseConfig_def denDisk_def demoDisk_def demoApp_def Let_def checkDomain_def denConfig_def demoConfig_def absolute_def)

lemma den_load:
  "LoadConfig denDisk demoHashers (\<lambda>_. True) pd [] =
     (Inr (demoApp\<lparr>appDomains := [''a.org'' \<mapsto> denConfig], MaxEmailSize := 16809984\<rparr>, [(''spam'', demoFilter)]), pd, [''a.org''])"
proof -
  have p: "Parse ''header = header'' = Some (demoFilter, None)" by code_simp
  have "keys denDisk {''a.org''} = [''a.org'']" "readDir denDisk ''/etc/f'' = Some [(''spam'', False)]"
    "readSource denDisk x = Some ''header = header''" for x
    by (simp_all add: denDisk_def demoDisk_def)
  then show ?thesis
    by (simp add: LoadConfig_def den_parsed Load_def loadArgon2id_def loadScrypt_def loadBcrypt_def demoApp_def ParseFilters_def p
        usesDen_def denConfig_def)
qed

lemma den_start:
  "\<exists>D. startDaemon denDisk demoHashers (\<lambda>_. True) goodMachine (\<lambda>_. demoStore) [] = Inr D \<and>
     Domains (dBackend D) = [''a.org'' \<mapsto> denConfig] \<and> appDomains (dConfig D) = [''a.org'' \<mapsto> denConfig]"
proof -
  have "list_all (\<lambda>_. True) xs" "list_all (\<lambda>(d, u). True) ys" for xs :: "string list" and ys :: "(string \<times> string) list"
    by (auto simp: list_all_iff)
  then show ?thesis
    by (simp add: startDaemon_def den_load Let_def goodMachine_def NewBackend_def demoApp_def)
qed

theorem started_server_checked_witness: "domainChecked denConfig"
proof -
  obtain D where D: "startDaemon denDisk demoHashers (\<lambda>_. True) goodMachine (\<lambda>_. demoStore) [] = Inr D"
    "Domains (dBackend D) = [''a.org'' \<mapsto> denConfig]" using den_start by blast
  show ?thesis
    using started_server_checked [OF D(1) denDisk_keys, of "''a.org''" denConfig] D(2) by (simp add: denConfig_def)
qed

text \<open>A signal that is answered.\<close>

inductive reload_step :: "daemon \<Rightarrow> daemon \<Rightarrow> bool" where
  "\<forall>S. finite S \<longrightarrow> set (keys dsk S) = S \<Longrightarrow> finite (dom (appDomains (dConfig D))) \<Longrightarrow>
   reload dsk h connect (\<lambda>_. True) pd p D = Some D' \<Longrightarrow> reload_step D D'"

definition firstOpen :: "daemon \<Rightarrow> string set" where
  "firstOpen D = {d. (0, d) \<in> dOpen D}"

lemma reload_keeps:
  assumes "reload dsk h connect closes pd p D = Some D'"
  shows "Domains (dBackend D') = Domains (dBackend D)" "dImap D' = dImap D"
    "dOpen D' \<subseteq> (dOpen D - Pair (dLoads D) ` set (closeConfig dsk closes (dConfig D))) \<union> {x. fst x \<noteq> 0}"
  using assms by (auto simp: reload_def Let_def split: prod.splits sum.splits configError.splits)

lemma reload_step_keeps:
  assumes "reload_step D D'"
  shows "Domains (dBackend D') = Domains (dBackend D) \<and> dImap D' = dImap D \<and> firstOpen D' \<subseteq> firstOpen D \<and>
    (dLoads D = 0 \<and> firstOpen D \<subseteq> Collect (usesDen (appDomains (dConfig D))) \<longrightarrow> firstOpen D' = {})"
  using assms
proof cases
  case (1 dsk h connect pd p)
  have "usesDen (appDomains (dConfig D)) d \<Longrightarrow> d \<in> set (closeConfig dsk (\<lambda>_. True) (dConfig D))" for d
    using 1(1,2) by (auto simp: closeConfig_def takeWhile_eq_all_conv [THEN iffD2] usesDen_def domIff split: option.splits)
  then have closed: "firstOpen D' = {}" if "dLoads D = 0" "firstOpen D \<subseteq> Collect (usesDen (appDomains (dConfig D)))"
    using reload_keeps(3) [OF 1(3)] that unfolding firstOpen_def by fastforce
  have "firstOpen D' \<subseteq> firstOpen D" using reload_keeps(3) [OF 1(3)] by (auto simp: firstOpen_def)
  then show ?thesis using reload_keeps(1,2) [OF 1(3)] closed by blast
qed

lemma reload_steps_keep:
  "reload_step\<^sup>*\<^sup>* D D' \<Longrightarrow> Domains (dBackend D') = Domains (dBackend D) \<and> dImap D' = dImap D \<and> firstOpen D' \<subseteq> firstOpen D"
proof (induction rule: rtranclp_induct)
  case (step D1 D2)
  then show ?case using reload_step_keeps [OF step.hyps(2)] by auto
qed simp



text \<open>What the next process finds after either end.\<close>

lemma stopDaemon_next:
  assumes "(meta_step mg)\<^sup>*\<^sup>* (newMeta dsk) m" and "stopDaemon why saves order m = Some (status, m')"
    and "distinct order" and "set order = dom (mSubs m)" and "mSubs m user = Some v" and "saves user" and "mDisk m user = Some db"
  shows "\<exists>db'. mDisk m' user = Some db' \<and> syncSub db' = (if why = Signalled then v else syncSub db)"
proof (cases why)
  case Signalled
  then obtain err where "closeMeta saves order m = Some (err, m')" using assms(2) by (auto simp: stopDaemon_def split: option.splits)
  from closeMeta_saved [OF assms(1) this assms(3-6)] show ?thesis using Signalled by simp
qed (use assms(2,7) in \<open>simp add: stopDaemon_def\<close>)

section \<open>Announcements\<close>

lemma receiveMail_stored:
  assumes "StoreEmailInbox gzip now row b folder enc (iStores B user) = (Inr i, st)"
    and "GetUserBoxes B user = Some bx" and "BoxesGet B bx folder = None"
  shows "receiveMail gzip now accepts row b False enc user folder B =
    (None, BoxesAdd bx (NewView (of_int i) folder 1) (B\<lparr>iStores := (iStores B)(user := st)\<rparr>))"
  using assms by (simp add: receiveMail_def OnReceive_def GetUserBoxes_def BoxesGet_def)

lemma listLoop_nameless:
  "(p, []) \<in> set pairs \<Longrightarrow> matches [] p \<Longrightarrow> fst (fst (listLoop matches takes ret pairs B s)) \<noteq> None"
proof (induction pairs arbitrary: B)
  case (Cons q pairs)
  have "fst (GetMailboxAttributes [] st) = Inl (if sBusy st then ErrBusy else ErrCheck)" for st
    by (simp add: GetMailboxAttributes_def GetOrCreateMailbox_def onDB_def)
  then have bad: "GetMailboxAttributes [] st = (Inr x, st') \<longleftrightarrow> False" for st x st' by (metis fst_conv sum.distinct(1))
  show ?case
  proof (cases "q = (p, [])")
    case True
    then show ?thesis using Cons.prems(2) bad by (simp split: sum.split prod.split)
  next
    case False
    then have "fst (fst (listLoop matches takes ret pairs B' s)) \<noteq> None" for B' using Cons by auto
    then show ?thesis by (cases q) (simp add: Let_def split: sum.split prod.split, metis fst_conv)
  qed
qed simp

text \<open>C28: a mail for the inbox is not announced: the sessions that wait on the inbox of a user who has a session are told
  nothing, instead a mailbox without a name is added, and from then on a LIST that matches it
  fails.\<close>

theorem inbox_mail_unannounced:
  assumes "StoreEmailInbox gzip now row b [] enc (iStores B user) = (Inr i, st)"
    and "GetUserBoxes B user = Some bx" and "BoxesGet B bx [] = None" and "v < iNextView B"
    and "receiveMail gzip now accepts row b False enc user [] B = (res, B')"
    and "[] \<in> set names" and "p \<in> set patterns" and "matches [] p"
  shows "iViews B' v = iViews B v \<and> BoxesGet B' bx [] \<noteq> None \<and>
    fst (fst (ListCmd matches takes names patterns False ret B' s)) \<noteq> None"
proof -
  have "B' = BoxesAdd bx (NewView (of_int i) [] 1) (B\<lparr>iStores := (iStores B)(user := st)\<rparr>)"
    using receiveMail_stored [OF assms(1-3)] assms(5) by simp
  moreover have "(p, []) \<in> set (Zip patterns names)" using assms(6,7) by (auto simp: Zip_def)
  ultimately show ?thesis
    using listLoop_nameless [of p "Zip patterns names" matches takes ret] assms(4,8)
    by (auto simp: ListCmd_def BoxesAdd_def BoxesGet_def NewView_def)
qed

lemma demo_stored:
  "\<exists>st. StoreEmailInbox (\<lambda>b. b) ''2'' demoRow [66] [] False demoStore = (Inr 2, st)"
  "\<exists>st. StoreEmailInbox (\<lambda>b. b) ''2'' demoRow [66] ''INBOX/x'' False demoStore = (Inr 2, st)"
  by (simp_all add: StoreEmailInbox_def inboxCallback_def StoreEmail_def onDB_def OpenFile_def WriteEmail_def Let_def NewEmail_def nextId_def
      AddMailboxEmail_def InboxMailbox_def GetOrCreateMailbox_def insertMailbox_def demoStore_files demoStore_emails MaxFileSize_def
      MaxEmailSizeInFile_def CompressEmailBiggerThan_def newDB_def demoRow_def)

lemma demo_boxes:
  "GetUserBoxes demoServer ''bob@a.org'' = Some 0" "BoxesGet demoServer 0 [] = None" "BoxesGet demoServer 0 ''INBOX/x'' = None"
  "iUser demoSession = ''bob@a.org''" "iMailboxes demoSession = Some 0"
  by (simp_all add: GetUserBoxes_def BoxesGet_def demo_fields demoSession_def newImapSession_def)

lemma demo_nextView: "iNextView demoServer = 4"
  by (simp add: demoServer_def newImapSession_def Login_def demoBackend_def VerifyUser_def demoConfig_def emptyWorld_def
      NewRateLimiter_def AcceptLogin_def GetUserBoxes_def loadBoxes_def Let_def LoadMailbox_def ListMailboxRows_def demoStore_files
      newDB_def BoxesAdd_def SetUserBoxes_def)

theorem inbox_mail_unannounced_witness:
  "let B' = snd (receiveMail (\<lambda>b. b) ''2'' (\<lambda>_ _. True) demoRow [66] False False ''bob@a.org'' [] demoServer)
   in iViews B' 0 = iViews demoServer 0 \<and>
     fst (fst (ListCmd (\<lambda>_ _. True) (\<lambda>_. True) [''INBOX'', []] [''*''] False None B' demoSession)) \<noteq> None"
proof -
  obtain st where st: "StoreEmailInbox (\<lambda>b. b) ''2'' demoRow [66] [] False (iStores demoServer ''bob@a.org'') = (Inr 2, st)"
    using demo_stored(1) by (auto simp: demo_fields)
  show ?thesis
    using inbox_mail_unannounced [OF st demo_boxes(1,2) _ prod.collapse [symmetric], where v = 0 and names = "[''INBOX'', []]" and p = "''*''"
        and patterns = "[''*'']" and matches = "\<lambda>_ _. True" and takes = "\<lambda>_. True" and ret = None and s = demoSession
        and accepts = "\<lambda>_ _. True"]
    by (simp add: demo_nextView Let_def)
qed

lemma find_in_list: "find P xs = Some x \<Longrightarrow> x \<in> set xs \<and> P x"
  by (auto simp: find_Some_iff)

text \<open>a mail for a folder that the server does not show yet is shown in the wrong mailbox: the view that is added under
  the name of the folder has the identifier of the mail in place of that of the mailbox, so that
  what is selected by that name is the mailbox whose identifier is that number.\<close>

theorem new_folder_shows_other_mailbox:
  assumes "StoreEmailInbox gzip now row b folder enc (iStores B (iUser s)) = (Inr i, st)" and "0 \<le> i" and "i < 2 ^ 32"
    and "GetUserBoxes B (iUser s) = Some bx" and "iMailboxes s = Some bx" and "BoxesGet B bx folder = None" and "folder \<noteq> []"
    and "receiveMail gzip now accepts row b False enc (iUser s) folder B = (res, B')"
    and "Select folder ro B' s = (Inr d, B'', s'')"
  shows "\<exists>sel j. selectedView B'' s'' = Inr sel \<and> vName sel = folder \<and> selectedID sel = i \<and>
    sdUIDValidity d = of_int j \<and> (j, folder) \<in> set (tMailbox (sDB (userStore B'' s'')))"
proof -
  have B': "B' = BoxesAdd bx (NewView (of_int i) folder 1) (B\<lparr>iStores := (iStores B)(iUser s := st)\<rparr>)"
    using receiveMail_stored [OF assms(1,4,6)] assms(8) by simp
  have box: "getBox B' s folder = Inr (iNextView B)" "iViews B' (iNextView B) = NewView (of_int i) folder 1"
    using assms(5) by (simp_all add: B' getBox_def BoxesGet_def BoxesAdd_def NewView_def)
  obtain db row where db: "GetOrCreateMailbox folder (sDB (userStore B' s)) = Inr (row, db)"
    and d: "sdUIDValidity d = of_int (fst row)" "userStore B'' s'' = (userStore B' s)\<lparr>sDB := db\<rparr>"
    and s'': "iSelected s'' = Some (iNextView B)" "iViews B'' (iNextView B) = (NewView (of_int i) folder 1)\<lparr>vCount := sdNumMessages d\<rparr>"
    using assms(9) box
    by (auto simp: Select_def DescribeMailbox_def onDB_def setView_def setStore_def userStore_def split: sum.splits if_splits)
  have "row \<in> set (tMailbox db) \<and> snd row = folder"
    using db find_in_list [of "\<lambda>(i, n). n = folder" "tMailbox (sDB (userStore B' s))" row]
    by (auto simp: GetOrCreateMailbox_def insertMailbox_def Let_def split: if_splits option.splits)
  then have "(fst row, folder) \<in> set (tMailbox (sDB (userStore B'' s'')))" by (cases row) (simp add: d(2))
  moreover have "uint (of_int i :: u32) = i" using assms(2,3) by (simp add: uint_word_of_int_eq take_bit_int_eq_self)
  ultimately show ?thesis using s'' d(1) by (auto simp: selectedView_def selectedID_def NewView_def)
qed

lemma demo_described: "\<not> sBusy st \<Longrightarrow> \<exists>res st'. DescribeMailbox ''INBOX/x'' st = (Inr res, st')"
  by (cases "insertMailbox ''INBOX/x'' (sDB st)") (simp add: DescribeMailbox_def onDB_def GetOrCreateMailbox_def split: option.split)

theorem new_folder_shows_other_mailbox_witness:
  "\<exists>d B s sel. Select ''INBOX/x'' False (snd (receiveMail (\<lambda>b. b) ''2'' (\<lambda>_ _. True) demoRow [66] False False ''bob@a.org'' ''INBOX/x'' demoServer))
     demoSession = (Inr d, B, s) \<and> selectedView B s = Inr sel \<and> selectedID sel = JunkMailbox"
proof -
  obtain st where st: "StoreEmailInbox (\<lambda>b. b) ''2'' demoRow [66] ''INBOX/x'' False (iStores demoServer (iUser demoSession)) = (Inr 2, st)"
    using demo_stored(2) by (auto simp: demo_fields)
  have boxes: "GetUserBoxes demoServer (iUser demoSession) = Some 0" using demo_boxes by simp
  let ?B = "snd (receiveMail (\<lambda>b. b) ''2'' (\<lambda>_ _. True) demoRow [66] False False (iUser demoSession) ''INBOX/x'' demoServer)"
  have "getBox ?B demoSession ''INBOX/x'' = Inr 4"
    using receiveMail_stored [OF st boxes demo_boxes(3)] demo_boxes(5) by (simp add: getBox_def BoxesGet_def BoxesAdd_def NewView_def demo_nextView)
  moreover have "\<not> sBusy (userStore ?B demoSession)"
    using receiveMail_stored [OF st boxes demo_boxes(3)] StoreEmail_free [OF st [unfolded StoreEmailInbox_def]] by (simp add: userStore_def)
  then obtain res st1 where "DescribeMailbox ''INBOX/x'' (userStore ?B demoSession) = (Inr res, st1)"
    using demo_described by blast
  ultimately obtain d B s where sel: "Select ''INBOX/x'' False ?B demoSession = (Inr d, B, s)"
    by (simp add: Select_def)
  from new_folder_shows_other_mailbox [OF st _ _ boxes demo_boxes(5) demo_boxes(3) _ prod.collapse [symmetric] sel]
  obtain v where "selectedView B s = Inr v" "selectedID v = 2" by auto
  then show ?thesis using sel by (auto simp: demo_boxes(4) JunkMailbox_def)
qed

end
