(* ===== verification/Atmail_Tool.thy ===== *)
theory Atmail_Tool
  imports Atmail_Config Store_Mailbox
begin

text \<open>
  The command line of the administrator: \<open>src/cmd/atmail\<close>, a process of its own on the folders of the
  users.

  The store of a user is what the server has: the files and the database, which the two processes share, and
  the cache of the server. The command has a cache of its own, read from the database when the store is
  opened (which fails while a transaction of the server is open, since opening writes), and saved when \<open>main\<close> returns or panics, which is what a deferred call does; \<open>os.Exit\<close> runs none. A user who
  has no folder has no store.

  The output that \<open>os.Stdout\<close> gets is a value, a table by its cells; the texts for \<open>stderr\<close> are left out. The parser of
  messages, the decoder of MIME words, the editor, which maps the content of the file it is given to what the file
  has afterwards, and the hashes of passwords are parameters.
\<close>

section \<open>Arguments\<close>

text \<open>\<open>strconv.Atoi\<close>, and \<open>strconv.ParseInt\<close> for the base 10 and 64 bits.\<close>

fun digits :: "nat \<Rightarrow> string \<Rightarrow> nat option" where
  "digits n [] = Some n"
| "digits n (c # s) = (if CHR ''0'' \<le> c \<and> c \<le> CHR ''9'' then digits (10 * n + (of_char c - 48)) s else None)"

definition Atoi :: "string \<Rightarrow> int option" where
  "Atoi s =
     (let neg = has_prefix s ''-''; t = (if has_prefix s ''-'' \<or> has_prefix s ''+'' then tl s else s) in
      if t = [] then None
      else case digits 0 t of
             None \<Rightarrow> None
           | Some n \<Rightarrow>
               let i = (if neg then - int n else int n) in
               if - (2 ^ 63) \<le> i \<and> i < 2 ^ 63 then Some i else None)"

text \<open>\<open>flag.FlagSet.Parse\<close> with \<open>ExitOnError\<close>: the values of the flags and the other arguments, or the status the
  process ends with. A flag that is a bool takes no argument of its own.\<close>

definition ParseBool :: "string \<Rightarrow> bool option" where
  "ParseBool s =
     (if s \<in> set [''1'', ''t'', ''T'', ''true'', ''TRUE'', ''True''] then Some True
      else if s \<in> set [''0'', ''f'', ''F'', ''false'', ''FALSE'', ''False''] then Some False
      else None)"

fun flagParse :: "(string \<rightharpoonup> bool) \<Rightarrow> (string \<Rightarrow> string) \<Rightarrow> string list \<Rightarrow> nat + (string \<Rightarrow> string) \<times> string list" where
  "flagParse flags vals [] = Inr (vals, [])"
| "flagParse flags vals (s # args) =
     (if length s < 2 \<or> \<not> has_prefix s ''-'' then Inr (vals, s # args)
      else if s = ''--'' then Inr (vals, args)
      else
        let name = drop (if has_prefix s ''--'' then 2 else 1) s in
        if has_prefix name ''-'' \<or> has_prefix name ''='' then Inl 2
        else
          case str_cut name (CHR ''='') of (n, v, hasValue) \<Rightarrow>
            (case flags n of
               None \<Rightarrow> if n = ''help'' \<or> n = ''h'' then Inl 0 else Inl 2
             | Some True \<Rightarrow>
                 if \<not> hasValue then flagParse flags (vals(n := ''true'')) args
                 else if ParseBool v = None then Inl 2
                 else flagParse flags (vals(n := v)) args
             | Some False \<Rightarrow>
                 if hasValue then flagParse flags (vals(n := v)) args
                 else (case args of [] \<Rightarrow> Inl 2 | v' # args' \<Rightarrow> flagParse flags (vals(n := v')) args')))"

declare flagParse.simps(2) [simp del]

section \<open>The commands\<close>

datatype ending = Returns | Exits nat | Panics

datatype line =
    StaticDomain string | CatchAllDomain string string | OtherDomain string
  | UserLine string string | SystemUserLine string string | GroupLine string string "string list"

datatype toolOut = NoOutput | OutBytes bytes | OutMails "(int \<times> string) list" | OutAccounts "line list" | OutHash string

text \<open>How a command ends, what it writes, and the store when it was opened.\<close>

type_synonym toolRun = "ending \<times> toolOut \<times> mailStore option"

text \<open>\<open>Cache.DB\<close> in this process: the migrations write when the database is opened, and wait in vain for
  a transaction that the server left open; without a folder there is no database. All commands end with the status 3
  then.\<close>

definition openStore :: "mailStore option \<Rightarrow> mailStore option" where
  "openStore folder = (case folder of None \<Rightarrow> None | Some st \<Rightarrow> if sBusy st then None else Some (restart st))"

definition read :: "(bytes \<Rightarrow> bytes option) \<Rightarrow> mailStore option \<Rightarrow> string list \<Rightarrow> toolRun" where
  "read gunzip folder args =
     (if length args \<noteq> 1 then (Exits 1, NoOutput, None)
      else case Atoi (args ! 0) of
             None \<Rightarrow> (Exits 1, NoOutput, None)
           | Some i \<Rightarrow>
               (case openStore folder of
                  None \<Rightarrow> (Exits 3, NoOutput, None)
                | Some st1 \<Rightarrow>
                    (case Read gunzip i st1 of
                       Inl err \<Rightarrow> (Exits 3, NoOutput, Some st1)
                     | Inr None \<Rightarrow> (Panics, NoOutput, Some st1)
                     | Inr (Some (b, h)) \<Rightarrow> (Returns, OutBytes b, Some st1))))"

definition toolDelete :: "mailStore option \<Rightarrow> string list \<Rightarrow> toolRun" where
  "toolDelete folder args =
     (if length args \<noteq> 1 then (Exits 1, NoOutput, None)
      else case Atoi (args ! 0) of
             None \<Rightarrow> (Exits 1, NoOutput, None)
           | Some i \<Rightarrow>
               (case openStore folder of
                  None \<Rightarrow> (Exits 3, NoOutput, None)
                | Some st \<Rightarrow>
                    (case DeleteEmail i st of
                       (Some err, st1) \<Rightarrow> (Exits 3, NoOutput, Some st1)
                     | (None, st1) \<Rightarrow> (Returns, NoOutput, Some st1))))"

definition edit ::
  "(bytes \<Rightarrow> bytes) \<Rightarrow> (bytes \<Rightarrow> bytes option) \<Rightarrow> string \<Rightarrow> string \<Rightarrow> (string \<Rightarrow> bytes \<Rightarrow> bytes option) \<Rightarrow>
   mailStore option \<Rightarrow> string list \<Rightarrow> toolRun" where
  "edit gzip gunzip now env editor folder args =
     (case flagParse [''editor'' \<mapsto> False] ((\<lambda>_. [])(''editor'' := env)) args of
        Inl n \<Rightarrow> (Exits n, NoOutput, None)
      | Inr (vals, args') \<Rightarrow>
          if length args' \<noteq> 1 then (Exits 1, NoOutput, None)
          else case Atoi (args' ! 0) of
                 None \<Rightarrow> (Exits 1, NoOutput, None)
               | Some i \<Rightarrow>
                   (case openStore folder of
                      None \<Rightarrow> (Exits 3, NoOutput, None)
                    | Some st1 \<Rightarrow>
                        (case GetEmail (sDB st1) i of
                           Inl err \<Rightarrow> (Exits (if err = ErrNoRows then 2 else 3), NoOutput, Some st1)
                         | Inr email \<Rightarrow>
                             (case ReadEmail gunzip st1 email of
                                Inl err \<Rightarrow> (Exits 3, NoOutput, Some st1)
                              | Inr None \<Rightarrow> (Panics, NoOutput, Some st1)
                              | Inr (Some (b, flags)) \<Rightarrow>
                                  (case editor (vals ''editor'') b of
                                     None \<Rightarrow> (Exits 4, NoOutput, Some st1)
                                   | Some b' \<Rightarrow>
                                       (case EditEmail gzip now email (flags AND EmailEncrypted \<noteq> 0) b' st1 of
                                          (Some err, st2) \<Rightarrow> (Exits 3, NoOutput, Some st2)
                                        | (None, st2) \<Rightarrow> (Returns, NoOutput, Some st2)))))))"

text \<open>\<open>storage.ListMailbox\<close>, \<open>storage.ListEmails\<close>, and \<open>list\<close> with the loop over the mails. The parser gives the
  fields \<open>Subject\<close> and \<open>Content-Transfer-Encoding\<close>.\<close>

definition ListMailbox :: "mailStore \<Rightarrow> (int \<times> string \<times> nat) list" where
  "ListMailbox st = ListMailboxRows (sDB st)"

definition ListEmails :: "mailStore \<Rightarrow> Email list" where
  "ListEmails st = tEmails (sDB st)"

definition encodedSubject :: "string \<Rightarrow> string \<Rightarrow> bool" where
  "encodedSubject s cte \<longleftrightarrow> cte = ''quoted-printable'' \<or> (has_prefix s ''=?'' \<and> has_prefix (rev s) (rev ''?=''))"

fun listMails ::
  "(bytes \<Rightarrow> bytes option) \<Rightarrow> (bytes \<Rightarrow> (string \<times> string) option) \<Rightarrow> (string \<Rightarrow> string option) \<Rightarrow> mailStore \<Rightarrow> Email list \<Rightarrow>
   ending + (int \<times> string) list" where
  "listMails gunzip parse decode st [] = Inr []"
| "listMails gunzip parse decode st (email # emails) =
     (case ReadEmail gunzip st email of
        Inl err \<Rightarrow> Inl (Exits 3)
      | Inr None \<Rightarrow> Inl Panics
      | Inr (Some (b, h)) \<Rightarrow>
          (case parse b of
             None \<Rightarrow> Inl (Exits 3)
           | Some (s, cte) \<Rightarrow>
               (case if encodedSubject s cte then decode s else Some s of
                  None \<Rightarrow> Inl (Exits 3)
                | Some s' \<Rightarrow>
                    (case listMails gunzip parse decode st emails of
                       Inl e \<Rightarrow> Inl e
                     | Inr rows \<Rightarrow> Inr ((eID email, s') # rows)))))"

definition toolList ::
  "(bytes \<Rightarrow> bytes option) \<Rightarrow> (bytes \<Rightarrow> (string \<times> string) option) \<Rightarrow> (string \<Rightarrow> string option) \<Rightarrow>
   mailStore option \<Rightarrow> string list \<Rightarrow> toolRun" where
  "toolList gunzip parse decode folder args =
     (case openStore folder of
        None \<Rightarrow> (Exits 3, NoOutput, None)
      | Some st1 \<Rightarrow>
          let boxes = ListMailbox st1 in
          (case args of
             [] \<Rightarrow> (Returns, NoOutput, Some st1)
           | [name] \<Rightarrow>
               (case if name = ''*'' then Inr (ListEmails st1)
                     else (case find (\<lambda>(i, n, k). n = name) boxes of
                             None \<Rightarrow> Inl (Exits 2)
                           | Some (i, n, k) \<Rightarrow>
                               (case ListMailboxEmails i None st1 of Inl err \<Rightarrow> Inl (Exits 3) | Inr es \<Rightarrow> Inr es)) of
                  Inl e \<Rightarrow> (e, NoOutput, Some st1)
                | Inr emails \<Rightarrow>
                    (case listMails gunzip parse decode st1 emails of
                       Inl e \<Rightarrow> (e, NoOutput, Some st1)
                     | Inr rows \<Rightarrow> (Returns, OutMails rows, Some st1)))
           | _ \<Rightarrow> (Exits 1, NoOutput, Some st1)))"

text \<open>\<open>listAccounts\<close>; the ranges over maps visit their keys in the order of \<open>keys\<close>.\<close>

definition domainLines :: "disk \<Rightarrow> string \<Rightarrow> Config \<Rightarrow> line list" where
  "domainLines dsk d v =
     (case Static v of
        Some st \<Rightarrow>
          StaticDomain d # map (\<lambda>n. UserLine n d) (keys dsk (dom (Users st))) @
            map (\<lambda>n. SystemUserLine n d) (keys dsk (dom (SystemUsers st))) @
            map (\<lambda>n. GroupLine n d (case staticGroups st n of None \<Rightarrow> [] | Some g \<Rightarrow> Members g)) (keys dsk (dom (staticGroups st)))
      | None \<Rightarrow> (case catchAll v of Some ca \<Rightarrow> [CatchAllDomain d (catchUser ca)] | None \<Rightarrow> [OtherDomain d]))"

definition listAccounts :: "disk \<Rightarrow> (string \<rightharpoonup> Config) \<Rightarrow> string list \<Rightarrow> toolRun" where
  "listAccounts dsk domains args =
     (case flagParse [''domain'' \<mapsto> False] (\<lambda>_. []) args of
        Inl n \<Rightarrow> (Exits n, NoOutput, None)
      | Inr (vals, args') \<Rightarrow>
          if args' \<noteq> [] then (Exits 1, NoOutput, None)
          else
            let domain = vals ''domain'' in
            if domain \<noteq> [] \<and> domains domain = None then (Exits 2, NoOutput, None)
            else
              let ds = (if domain \<noteq> [] then domains |` {domain} else domains) in
              (Returns, OutAccounts (concat (map (\<lambda>d. domainLines dsk d (the (ds d))) (keys dsk (dom ds)))), None))"

text \<open>\<open>passwd\<close>, for the parameters the configuration has loaded.\<close>

record passwordHash =
  hashArgon2id :: "Argon2id \<Rightarrow> string \<Rightarrow> string option"
  hashScrypt :: "Scrypt \<Rightarrow> string \<Rightarrow> string option"
  hashBcrypt :: "Bcrypt \<Rightarrow> string \<Rightarrow> string option"

definition passwd :: "passwordHash \<Rightarrow> PasswordDefaults \<Rightarrow> PasswordConfig \<Rightarrow> string \<Rightarrow> string list \<Rightarrow> toolRun" where
  "passwd ph pd cfg stdin args =
     (let def = (case pwDefault cfg of None \<Rightarrow> ''argon2id'' | Some d \<Rightarrow> d) in
      case flagParse [''algo'' \<mapsto> False] ((\<lambda>_. [])(''algo'' := def)) args of
        Inl n \<Rightarrow> (Exits n, NoOutput, None)
      | Inr (vals, args') \<Rightarrow>
          if args' \<noteq> [] then (Exits 1, NoOutput, None)
          else
            let algo = vals ''algo'';
                hash = (if algo \<in> set [''argon2id'', ''argon2'', ''argon''] then Some (hashArgon2id ph (DefaultArgon2id pd))
                        else if algo = ''scrypt'' then Some (hashScrypt ph (DefaultScrypt pd))
                        else if algo = ''bcrypt'' then Some (hashBcrypt ph (DefaultBcrypt pd))
                        else None)
            in case hash of
                 None \<Rightarrow> (Exits 1, NoOutput, None)
               | Some f \<Rightarrow> (case f stdin of None \<Rightarrow> (Panics, NoOutput, None) | Some h \<Rightarrow> (Returns, OutHash h, None)))"

section \<open>The program\<close>

record toolWorld =
  twDisk :: disk
  twHashers :: hashers
  twWorld :: world
  twHash :: passwordHash
  twGzip :: "bytes \<Rightarrow> bytes"
  twGunzip :: "bytes \<Rightarrow> bytes option"
  twParse :: "bytes \<Rightarrow> (string \<times> string) option"
  twDecode :: "string \<Rightarrow> string option"
  twEditor :: "string \<Rightarrow> bytes \<Rightarrow> bytes option"
  twEnv :: string
  twNow :: string
  twStdin :: string

definition DefaultConfigPath :: string where
  "DefaultConfigPath = ''/etc/atmail/config.toml''"

text \<open>What a map of configurations answers to a name it does not have.\<close>

definition zeroConfig :: Config where
  "zeroConfig =
     \<lparr>cfgAdmin = \<lparr>adminUser = [], adminFolder = [], adminCrypto = \<lparr>PGPPubKey = None, PGPPubKeyFile = None\<rparr>\<rparr>,
      PlusSubaddressing = False, CreateFolderSubaddressing = False, Static = None, catchAll = None, cfgDen = None\<rparr>"

text \<open>The account a reference names: that of a user of a domain, or that of a domain which catches all.\<close>

definition accountOf :: "world \<Rightarrow> (string \<rightharpoonup> Config) \<Rightarrow> string \<Rightarrow> string \<Rightarrow> ending + string" where
  "accountOf w domains onlyDomain ref =
     (case str_cut ref (CHR ''@'') of (name, domain, ok) \<Rightarrow>
        if onlyDomain \<noteq> [] \<and> domain \<noteq> onlyDomain then Inl (Exits 1)
        else if \<not> ok then
          (case domains ref of
             None \<Rightarrow> Inl (Exits 1)
           | Some d \<Rightarrow> (case catchAll d of None \<Rightarrow> Inl (Exits 1) | Some ca \<Rightarrow> Inr (catchUser ca @ ''@'' @ ref)))
        else
          (case domains domain of
             None \<Rightarrow> Inl (Exits 1)
           | Some d \<Rightarrow>
               (case Exists w d [] name of
                  Inl _ \<Rightarrow> Inl Panics
                | Inr None \<Rightarrow> Inl (Exits 1)
                | Inr (Some _) \<Rightarrow> Inr ref)))"

definition account :: "toolWorld \<Rightarrow> mailStore option \<Rightarrow> string \<Rightarrow> string list \<Rightarrow> toolRun" where
  "account tw folder cmd args =
     (if cmd = ''read'' then read (twGunzip tw) folder args
      else if cmd \<in> set [''list'', ''ls''] then toolList (twGunzip tw) (twParse tw) (twDecode tw) folder args
      else if cmd \<in> set [''delete'', ''del'', ''remove'', ''rm''] then toolDelete folder args
      else if cmd = ''edit'' then edit (twGzip tw) (twGunzip tw) (twNow tw) (twEnv tw) (twEditor tw) folder args
      else (Exits 1, NoOutput, None))"

text \<open>The deferred \<open>Cache.Close\<close>, and what the other process sees of the store.\<close>

definition closeTool :: "(string \<rightharpoonup> mailStore) \<Rightarrow> string \<Rightarrow> toolRun \<Rightarrow> ending \<times> toolOut \<times> (string \<rightharpoonup> mailStore)" where
  "closeTool stores user run =
     (case run of (e, out, opened) \<Rightarrow>
        (case (stores user, opened) of
           (Some st, Some st1) \<Rightarrow>
             let st2 = (case e of Exits n \<Rightarrow> st1 | _ \<Rightarrow> Save st1) in
             (e, out, stores(user \<mapsto> st\<lparr>sFiles := sFiles st2, sDB := sDB st2\<rparr>))
         | _ \<Rightarrow> (e, out, stores)))"

definition toolCommand ::
  "toolWorld \<Rightarrow> appConfig \<Rightarrow> PasswordDefaults \<Rightarrow> string \<Rightarrow> (string \<rightharpoonup> mailStore) \<Rightarrow> string \<Rightarrow> string list \<Rightarrow>
   ending \<times> toolOut \<times> (string \<rightharpoonup> mailStore)" where
  "toolCommand tw cfg pd only stores arg args =
     (if arg = ''passwd'' then
        (case passwd (twHash tw) pd (Password cfg) (twStdin tw) args of (e, out, _) \<Rightarrow> (e, out, stores))
      else if arg = ''list'' then
        (case listAccounts (twDisk tw)
                (if only \<noteq> [] then [only \<mapsto> (case appDomains cfg only of None \<Rightarrow> zeroConfig | Some d \<Rightarrow> d)] else appDomains cfg) args of
           (e, out, _) \<Rightarrow> (e, out, stores))
      else
        case args of
          [] \<Rightarrow> (Exits 1, NoOutput, stores)
        | cmd # args' \<Rightarrow>
            (case accountOf (twWorld tw) (appDomains cfg) only arg of
               Inl e \<Rightarrow> (e, NoOutput, stores)
             | Inr user \<Rightarrow> closeTool stores user (account tw (stores user) cmd args')))"

definition toolMain :: "toolWorld \<Rightarrow> (string \<rightharpoonup> mailStore) \<Rightarrow> string list \<Rightarrow> ending \<times> toolOut \<times> (string \<rightharpoonup> mailStore)" where
  "toolMain tw stores argv =
     (case flagParse [''config'' \<mapsto> False, ''domain'' \<mapsto> False, ''v'' \<mapsto> True]
             ((\<lambda>_. [])(''config'' := DefaultConfigPath, ''v'' := ''false'')) argv of
        Inl n \<Rightarrow> (Exits n, NoOutput, stores)
      | Inr (vals, []) \<Rightarrow> (Returns, NoOutput, stores)
      | Inr (vals, arg # args) \<Rightarrow>
          (case ParseConfig (twDisk tw) (vals ''config'') of
             Inl (ExitStatus n) \<Rightarrow> (Exits n, NoOutput, stores)
           | Inl _ \<Rightarrow> (Panics, NoOutput, stores)
           | Inr cfg \<Rightarrow>
               (case Load (twHashers tw) (Password cfg) passwordDefaults of
                  (Some err, _) \<Rightarrow> (Panics, NoOutput, stores)
                | (None, pd) \<Rightarrow> toolCommand tw cfg pd (vals ''domain'') stores arg args)))"

section \<open>Numbers as arguments\<close>

lemma digits_append: "digits n (s @ t) = (case digits n s of None \<Rightarrow> None | Some m \<Rightarrow> digits m t)"
  by (induction n s rule: digits.induct) auto

lemma digits_digit: "k < 10 \<Longrightarrow> digits n [char_of (48 + k)] = Some (10 * n + k)"
  by (simp add: less_eq_char_def)

lemma digits_decimal: "digits 0 (decimal n) = Some n"
proof (induction n rule: decimal.induct)
  case (1 n)
  then show ?case
    using digits_digit [of n 0] digits_digit [of "n mod 10" "n div 10"]
    by (subst decimal.simps) (auto simp: digits_append simp del: digits.simps)
qed

lemma decimal_head: "\<exists>c s. decimal n = c # s \<and> CHR ''0'' \<le> c"
proof (induction n rule: decimal.induct)
  case (1 n)
  then show ?case
    by (subst decimal.simps) (auto simp: less_eq_char_def)
qed

text \<open>The number of a mail that is printed is read back.\<close>

lemma Atoi_Itoa: "- (2 ^ 63) \<le> i \<Longrightarrow> i < 2 ^ 63 \<Longrightarrow> Atoi (Itoa i) = Some i"
proof -
  assume i: "- (2 ^ 63) \<le> i" "i < 2 ^ 63"
  obtain c s where d: "decimal (nat \<bar>i\<bar>) = c # s" "CHR ''0'' \<le> c" using decimal_head by blast
  then have "c \<noteq> CHR ''-''" "c \<noteq> CHR ''+''" by (auto simp: less_eq_char_def)
  then show ?thesis
    using i d digits_decimal [of "nat \<bar>i\<bar>"] by (auto simp: Atoi_def Itoa_def Let_def)
qed

section \<open>Properties\<close>

lemma restart_db: "sDB (restart st) = sDB st" "sFiles (restart st) = sFiles st"
  by (simp_all add: restart_def Sync_def split: option.split)

lemma ReadEmail_restart: "ReadEmail gunzip (restart st) e = ReadEmail gunzip st e"
  by (simp add: ReadEmail_def openEmailFile_def restart_db)

lemma Read_restart: "Read gunzip i (restart st) = Read gunzip i st"
  by (simp add: Read_def ReadEmail_restart restart_db split: sum.split)

lemma openStore_Some: "openStore folder = Some st1 \<longleftrightarrow> (\<exists>st. folder = Some st \<and> \<not> sBusy st \<and> st1 = restart st)"
  by (auto simp: openStore_def split: option.split)

lemma listMails_rows:
  "listMails gunzip parse decode st es = Inr rows \<Longrightarrow> map fst rows = map eID es \<and>
   (\<forall>e \<in> set es. \<exists>b h. ReadEmail gunzip st e = Inr (Some (b, h)) \<and> parse b \<noteq> None)"
  by (induction gunzip parse decode st es arbitrary: rows rule: listMails.induct)
    (force split: sum.splits option.splits prod.splits if_splits)+

text \<open>The mails that \<open>list\<close> is to show: all of them, or those of the mailbox of that name.\<close>

definition shownMails :: "DB \<Rightarrow> string \<Rightarrow> Email list" where
  "shownMails db name =
     (if name = ''*'' then tEmails db
      else filter (\<lambda>e. \<exists>i. (i, name) \<in> set (tMailbox db) \<and> (i, eID e) \<in> set (tMailboxEmails db)) (tEmails db))"

lemma find_mailbox:
  assumes "dbOk db" and "find (\<lambda>(i, n, k). n = name) (ListMailboxRows db) = Some (i, n, k)" and "name \<noteq> ''*''"
  shows "ListMailboxEmailsRows db i = shownMails db name"
proof -
  have "(i, n, k) \<in> set (ListMailboxRows db)" "n = name"
    using assms(2) by (auto simp: find_Some_iff in_set_conv_nth)
  then have row: "(i, name) \<in> set (tMailbox db)" by (auto simp: ListMailboxRows_def)
  have "inj_on snd (set (tMailbox db))" using assms(1) by (simp add: dbOk_def mailboxRowsOk_def distinct_map)
  then have "(j, name) \<in> set (tMailbox db) \<longleftrightarrow> j = i" for j using row inj_onD [of snd "set (tMailbox db)" "(j, name)" "(i, name)"] by auto
  moreover have "e \<in> set (boxIds db i) \<longleftrightarrow> (i, e) \<in> set (tMailboxEmails db)" for e by (force simp: boxIds_def)
  ultimately show ?thesis using assms(3) by (simp add: ListMailboxEmailsRows_def shownMails_def)
qed

text \<open>C24: every mail that is listed can be read: when \<open>list\<close> shows the mails of an account or of one of its
  mailboxes, it shows each of them once under its identifier and no other, and \<open>read\<close> with an identifier it printed returns
  and writes a message that is a valid one.\<close>

theorem listed_mail_is_read:
  assumes "dbOk (sDB st)" and "\<forall>e \<in> set (tEmails (sDB st)). - (2 ^ 63) \<le> eID e \<and> eID e < 2 ^ 63"
    and "toolList gunzip parse decode (Some st) [name] = (e0, OutMails rows, st1)"
  shows "map fst rows = map eID (if name = ''*'' then tEmails (sDB st)
        else filter (\<lambda>e. \<exists>i. (i, name) \<in> set (tMailbox (sDB st)) \<and> (i, eID e) \<in> set (tMailboxEmails (sDB st))) (tEmails (sDB st))) \<and>
    distinct (map fst rows) \<and>
    (\<forall>i \<in> fst ` set rows. \<exists>b. read gunzip (Some st) [Itoa i] = (Returns, OutBytes b, st1) \<and> parse b \<noteq> None)"
proof -
  have "\<exists>es. listMails gunzip parse decode (restart st) es = Inr rows \<and> es = shownMails (sDB st) name"
    using assms(3) find_mailbox [OF assms(1)]
    by (auto simp: toolList_def Let_def ListEmails_def ListMailbox_def ListMailboxEmails_def restart_db openStore_def shownMails_def
        split: sum.splits if_splits option.splits)
  then have list: "listMails gunzip parse decode (restart st) (shownMails (sDB st) name) = Inr rows" by blast
  have st1: "st1 = Some (restart st)" and free: "\<not> sBusy st"
    using assms(3) by (auto simp: toolList_def Let_def openStore_def split: sum.splits if_splits)
  have rows: "map fst rows = map eID (shownMails (sDB st) name)" using listMails_rows [OF list] by blast
  have sub: "set (shownMails (sDB st) name) \<subseteq> set (tEmails (sDB st))" by (auto simp: shownMails_def)
  have "\<exists>b. read gunzip (Some st) [Itoa (eID e)] = (Returns, OutBytes b, st1) \<and> parse b \<noteq> None"
    if e: "e \<in> set (shownMails (sDB st) name)" for e
  proof -
    obtain b h where b: "ReadEmail gunzip (restart st) e = Inr (Some (b, h))" "parse b \<noteq> None"
      using listMails_rows [OF list] e by blast
    have "Read gunzip (eID e) (restart st) = Inr (Some (b, h))"
      using b(1) GetEmail_row [OF assms(1)] e sub by (auto simp: Read_def restart_db)
    moreover have "Atoi (Itoa (eID e)) = Some (eID e)" using Atoi_Itoa assms(2) e sub by blast
    ultimately show ?thesis using b(2) st1 free by (simp add: read_def openStore_def)
  qed
  moreover have "distinct (map eID (tEmails (sDB st)))" using assms(1) by (simp add: dbOk_def emailRowsOk_def)
  then have "distinct (map eID (shownMails (sDB st) name))" by (simp add: shownMails_def distinct_map_filter)
  moreover have "fst ` set rows = eID ` set (shownMails (sDB st) name)" using rows by (metis list.set_map)
  ultimately show ?thesis using rows unfolding shownMails_def [symmetric] by auto
qed

lemma demo_ReadEmail: "sFiles st = sFiles demoStore \<Longrightarrow> ReadEmail Some st (demoRow\<lparr>eID := 1\<rparr>) = Inr (Some ([65], 0))"
  by (simp add: ReadEmail_def openEmailFile_def demoRow_def offsetOf_def demoStore_files Reader_def Let_def
      EmailDeleted_def EmailCompressed_def)

theorem listed_mail_is_read_witness:
  "\<exists>b. read Some (Some demoStore) [Itoa 1] = (Returns, OutBytes b, Some (restart demoStore))"
proof -
  let ?parse = "\<lambda>_. Some (''hi'', [])"
  have "toolList Some ?parse Some (Some demoStore) [''INBOX''] = (Returns, OutMails [(1, ''hi'')], Some (restart demoStore))"
    by (simp add: toolList_def openStore_def Let_def ListMailbox_def ListMailboxRows_def newDB_def demoStore_files ListMailboxEmails_def
        ListMailboxEmailsRows_def boxIds_def restart_db demoStore_emails encodedSubject_def demo_ReadEmail)
  from listed_mail_is_read [OF storeOk_dbOk [OF storeOk_demoStore] _ this] show ?thesis
    by (simp add: demoStore_emails)
qed

text \<open>A store that is saved looks to another process as it does to this one.\<close>

lemma restart_saved: "tMeta (sDB st) = Some (lastFile st, uint (sOffset st)) \<Longrightarrow> \<not> sBusy st \<Longrightarrow> restart st = st"
  by (simp add: restart_def Sync_def)

lemma flagParse_number: "0 \<le> i \<Longrightarrow> flagParse flags vals [Itoa i] = Inr (vals, [Itoa i])"
  using decimal_head [of "nat i"] by (auto simp: Itoa_def less_eq_char_def flagParse.simps(2))

lemma length_killed: "length (killRecord (putRecord f p r) q) \<le> max (max (length f) (p + recordSize r)) (Suc q)"
  by (simp add: killRecord_def putRecord_def length_writeAt)

text \<open>an edit while the server runs loses a mail: the command gives the mail its new content, but the
  server, whose cache the command cannot change, writes the next mail it delivers over it. That delivery fails,
  and the edited mail reads as the one that was to be delivered.\<close>

theorem edit_beside_server:
  assumes "storeOk gzip st" and "stores user = Some st" and "tMeta (sDB st) = Some (lastFile st, uint (sOffset st))"
    and "e \<in> set (tEmails (sDB st))" and "fileName e = lastFile st" and "lastFile st \<noteq> []" and "sFiles st (lastFile st) = Some f"
    and "0 \<le> eID e" and "eID e < 2 ^ 63" and "Read gunzip (eID e) st = Inr (Some (c, h))" and "editor env c = Some b"
    and "length b < MaxEmailSizeInFile" and "gunzip (gzip b) = Some b"
    and "max (length f) (unat (sOffset st) + recordSize (recordOf gzip (h AND EmailEncrypted \<noteq> 0) b)) < MaxFileSize"
    and "length b' < MaxEmailSizeInFile" and "gunzip (gzip b') = Some b'" and "recordFits (recordOf gzip enc b')" and "\<not> sBusy st"
  shows "\<exists>stores' st1 st2 h1 h2.
    closeTool stores user (edit gzip gunzip now env editor (stores user) [Itoa (eID e)]) = (Returns, NoOutput, stores') \<and>
    stores' user = Some st1 \<and> Read gunzip (eID e) st1 = Inr (Some (b, h1)) \<and>
    StoreEmailInbox gzip now' row b' folder enc st1 = (Inl (DBErr ErrUnique), st2) \<and>
    Read gunzip (eID e) st2 = Inr (Some (b', h2))"
proof -
  let ?enc = "h AND EmailEncrypted \<noteq> 0" and ?off = "unat (sOffset st)" and ?e = "e\<lparr>fileOffset := int (unat (sOffset st))\<rparr>"
  let ?r = "recordOf gzip ?enc b"
  let ?f = "killRecord (putRecord f ?off ?r) (offsetOf e)"
  have room: "length f < MaxFileSize" "?off + recordSize ?r < 2 ^ 32" using assms(14) by (auto simp: MaxFileSize_def)
  have row: "GetEmail (sDB st) (eID e) = Inr e" using GetEmail_row [OF storeOk_dbOk [OF assms(1)] assms(4)] .
  obtain db where ed: "EditEmail gzip now e ?enc b st =
        (None, st\<lparr>sFiles := (sFiles st)(lastFile st := Some ?f), sDB := db, sOffset := of_nat ?off + of_nat (recordSize ?r)\<rparr>)"
    and db: "dbOk db" "?e \<in> set (tEmails db)" and rec: "recordAt ?f ?off = Some ?r"
    by (rule EditEmail_last [OF assms(1,4-7) room(1) assms(12) room(2) assms(18), of now])
  define st1 where "st1 = st\<lparr>sFiles := (sFiles st)(lastFile st := Some ?f),
    sDB := SetMeta (lastFile st) (uint (of_nat ?off + of_nat (recordSize ?r) :: u32)) db\<rparr>"
  have "ReadEmail gunzip st e = Inr (Some (c, h))" using assms(10) row by (simp add: Read_def)
  then have "edit gzip gunzip now env editor (Some st) [Itoa (eID e)] = (Returns, NoOutput, Some (snd (EditEmail gzip now e ?enc b st)))"
    using assms(8,9,11) row ed by (simp add: edit_def flagParse_number Atoi_Itoa openStore_def assms(18) restart_saved [OF assms(3,18)])
  then have run: "closeTool stores user (edit gzip gunzip now env editor (stores user) [Itoa (eID e)]) =
      (Returns, NoOutput, stores(user \<mapsto> st1))"
    using assms(2) ed by (simp add: closeTool_def Save_def st1_def assms(18))
  have db1: "dbOk (sDB st1)" "?e \<in> set (tEmails (sDB st1))"
    using dbOk_step [OF db_step.intros(4) db(1)] db(2) by (simp_all add: st1_def SetMeta_def)
  have off: "offsetOf ?e = ?off" by (simp add: offsetOf_def)
  have "ReadEmail gunzip st1 ?e = Inr (Some (b, fst ?r))"
    using ReadEmail_record [of st1 ?e ?f ?r gunzip] rec off assms(5,13) contentOf_recordOf [of gunzip gzip b ?enc] by (simp add: st1_def)
  then have read1: "Read gunzip (eID e) st1 = Inr (Some (b, fst ?r))"
    using GetEmail_row [OF db1] by (simp add: Read_def)
  obtain ix where "storeIx gzip st ix" using assms(1) by (auto simp: storeOk_def)
  from storeIx_before [OF this assms(4)] have "offsetOf e < ?off" unfolding storeOk_offset [OF assms(1,4)] of_nat_less_iff .
  then have small: "length ?f < MaxFileSize"
    using le_less_trans [OF length_killed] assms(14) by (auto simp: recordSize_def)
  have "\<exists>st2 h2. StoreEmail gzip now' row b' enc (inboxCallback folder) st1 = (Inl (DBErr ErrUnique), st2) \<and>
      Read gunzip (eID ?e) st2 = Inr (Some (b', h2))"
    by (rule stale_delivery [where gunzip = gunzip, OF db1 _ _ _ _ _ small assms(15-17)])
      (use assms(5,6,18) off in \<open>simp_all add: st1_def\<close>)
  then show ?thesis using run read1 by (auto simp: StoreEmailInbox_def)
qed

theorem edit_beside_server_witness:
  "\<exists>stores' st1 st2 h1 h2.
    closeTool [''bob@a.org'' \<mapsto> Save demoStore] ''bob@a.org''
      (edit (\<lambda>b. b) Some ''2'' ''vi'' (\<lambda>_ _. Some [66]) (Some (Save demoStore)) [Itoa 1]) = (Returns, NoOutput, stores') \<and>
    stores' ''bob@a.org'' = Some st1 \<and> Read Some 1 st1 = Inr (Some ([66], h1)) \<and>
    StoreEmailInbox (\<lambda>b. b) ''3'' demoRow [67] [] False st1 = (Inl (DBErr ErrUnique), st2) \<and>
    Read Some 1 st2 = Inr (Some ([67], h2))"
proof -
  let ?st = "Save demoStore" and ?e = "demoRow\<lparr>eID := 1\<rparr>"
  have st: "lastFile ?st = ''1''" "sFiles ?st = sFiles demoStore" "sOffset ?st = 6" "tEmails (sDB ?st) = [?e]"
    "tMeta (sDB ?st) = Some (lastFile ?st, uint (sOffset ?st))"
    by (simp_all add: Save_def SetMeta_def demoStore_files demoStore_emails)
  have ok: "storeOk (\<lambda>b. b) ?st" using storeOk_SetMeta [OF storeOk_demoStore] by (simp add: Save_def demoStore_files)
  have free: "\<not> sBusy ?st" by (simp add: Save_def demoStore_files)
  have e: "?e \<in> set (tEmails (sDB ?st))" "fileName ?e = lastFile ?st" "lastFile ?st \<noteq> []" "eID ?e = 1"
    by (simp_all add: st demoRow_def)
  have f: "sFiles ?st (lastFile ?st) = Some [0, 0, 0, 0, 1, 65]" by (simp add: st demoStore_files)
  have "Read Some (eID ?e) ?st = Inr (Some ([65], 0))"
    using GetEmail_row [OF storeOk_dbOk [OF ok] e(1)]
    by (simp add: Read_def demo_ReadEmail st(2))
  from edit_beside_server [OF ok _ st(5) e(1-3) f _ _ this, where stores = "[''bob@a.org'' \<mapsto> ?st]" and user = "''bob@a.org''"
      and editor = "\<lambda>_ _. Some [66]" and b = "[66]" and b' = "[67]" and enc = False and env = "''vi''" and now = "''2''" and now' = "''3''"
      and row = demoRow and folder = "[]"]
  show ?thesis
    unfolding e(4) by (simp add: st(3) free MaxFileSize_def MaxEmailSizeInFile_def recordFits_def recordSize_def recordOf_def CompressEmailBiggerThan_def)
qed

text \<open>Commands that only read.\<close>

lemma read_opens: "read gunzip (Some st) args = (e, out, Some st1) \<Longrightarrow> st1 = restart st"
  by (auto simp: read_def openStore_def split: if_splits option.splits sum.splits)

lemma toolList_opens: "toolList gunzip parse decode (Some st) args = (e, out, Some st1) \<Longrightarrow> st1 = restart st"
  by (cases args rule: remdups_adj.cases) (auto simp: toolList_def openStore_def Let_def split: sum.splits if_splits)

lemma account_reads:
  assumes "cmd \<notin> set [''delete'', ''del'', ''remove'', ''rm'']" and "cmd \<noteq> ''edit''" and "account tw (Some st) cmd args = (e, out, Some st1)"
  shows "st1 = restart st"
proof -
  let ?r = "read (twGunzip tw) (Some st) args" and ?l = "toolList (twGunzip tw) (twParse tw) (twDecode tw) (Some st) args"
  have "account tw (Some st) cmd args = (if cmd = ''read'' then ?r else if cmd \<in> set [''list'', ''ls''] then ?l else (Exits 1, NoOutput, None))"
    by (simp only: account_def assms(1,2) if_False)
  then have "?r = (e, out, Some st1) \<or> ?l = (e, out, Some st1) \<or> (Exits 1, NoOutput, None) = (e, out, Some st1)"
    using assms(3) by (simp only: simp_thms split: if_splits)
  then show ?thesis using read_opens toolList_opens by blast
qed

lemma flagParse_step:
  "flagParse flags vals (s # args) \<in> {Inl 0, Inl 2, Inr (vals, s # args), Inr (vals, args)} \<union>
     range (\<lambda>vals'. flagParse flags vals' args) \<union> (case args of [] \<Rightarrow> {} | v # args' \<Rightarrow> range (\<lambda>vals'. flagParse flags vals' args'))"
  (is "_ \<in> ?S")
proof -
  define name where "name = drop (if has_prefix s ''--'' then 2 else 1) s"
  obtain n v ok where cut: "str_cut name (CHR ''='') = (n, v, ok)" by (metis prod_cases3)
  have more: "flagParse flags vals' args \<in> ?S" for vals' by blast
  have skip: "(case args of [] \<Rightarrow> Inl 2 | v' # args' \<Rightarrow> flagParse flags (vals(n := v')) args') \<in> ?S"
    by (auto split: list.split)
  have "(case flags n of
           None \<Rightarrow> if n = ''help'' \<or> n = ''h'' then Inl 0 else Inl 2
         | Some True \<Rightarrow> if \<not> ok then flagParse flags (vals(n := ''true'')) args else if ParseBool v = None then Inl 2 else flagParse flags (vals(n := v)) args
         | Some False \<Rightarrow> if ok then flagParse flags (vals(n := v)) args
             else (case args of [] \<Rightarrow> Inl 2 | v' # args' \<Rightarrow> flagParse flags (vals(n := v')) args')) \<in> ?S"
    using more skip by (simp only: split: option.split bool.split if_split) blast
  then show ?thesis
    by (simp only: flagParse.simps(2) Let_def name_def [symmetric] cut prod.case split: if_split) blast
qed

lemma flagParse_args: "flagParse flags vals args = Inr (vals', args') \<Longrightarrow> set args' \<subseteq> set args"
proof (induction args arbitrary: vals rule: length_induct)
  case (1 args)
  show ?case
  proof (cases args)
    case (Cons s rest)
    then consider "args' = args" | "args' = rest" | vals2 where "flagParse flags vals2 rest = Inr (vals', args')"
      | v rest' vals2 where "rest = v # rest'" "flagParse flags vals2 rest' = Inr (vals', args')"
      using 1(2) flagParse_step [of flags vals s rest] by (auto split: list.splits)
    then show ?thesis using 1(1) Cons by cases force+
  qed (use 1 in simp)
qed

lemma toolCommand_cases:
  assumes "toolCommand tw cfg pd only stores arg args = (e, out, stores')"
  obtains "stores' = stores"
  | user cmd args' where "cmd \<in> set args" "closeTool stores user (account tw (stores user) cmd args') = (e, out, stores')"
proof (cases "arg = ''passwd'' \<or> arg = ''list''")
  case True
  then have "stores' = stores" using assms unfolding toolCommand_def by (auto simp only: split: prod.splits if_splits)
  then show ?thesis using that(1) by blast
next
  case False
  then show ?thesis
    using assms that unfolding toolCommand_def by (simp only: simp_thms if_False split: list.splits sum.splits) (auto split: sum.splits)
qed

lemma toolMain_cases:
  assumes "toolMain tw stores argv = (e, out, stores')"
  obtains "stores' = stores"
  | user cmd args where "cmd \<in> set argv" "closeTool stores user (account tw (stores user) cmd args) = (e, out, stores')"
proof -
  let ?f = "flagParse [''config'' \<mapsto> False, ''domain'' \<mapsto> False, ''v'' \<mapsto> True]
    ((\<lambda>_. [])(''config'' := DefaultConfigPath, ''v'' := ''false'')) argv"
  consider "stores' = stores"
    | vals arg args cfg pd where "?f = Inr (vals, arg # args)" "toolCommand tw cfg pd (vals ''domain'') stores arg args = (e, out, stores')"
    using assms unfolding toolMain_def
    by (cases ?f) (auto simp only: split: sum.splits prod.splits list.splits configError.splits option.splits)
  then show thesis
  proof cases
    case (2 vals arg args cfg pd)
    have "set args \<subseteq> set argv" using flagParse_args [OF 2(1)] by auto
    then show ?thesis using toolCommand_cases [OF 2(2)] that by blast
  qed (use that in blast)
qed

lemma Read_meta: "sFiles st' = sFiles st \<Longrightarrow> sDB st' = (sDB st)\<lparr>tMeta := m\<rparr> \<Longrightarrow> Read gunzip i st' = Read gunzip i st"
  by (simp add: Read_def GetEmail_def ReadEmail_def openEmailFile_def split: option.split sum.split)

lemma closeTool_others:
  assumes "closeTool stores user run = (e, out, stores')"
  shows "dom stores' = dom stores" "u \<noteq> user \<Longrightarrow> stores' u = stores u"
    and "stores u = Some st \<Longrightarrow> \<exists>st'. stores' u = Some st' \<and> lastFile st' = lastFile st \<and> sOffset st' = sOffset st"
  using assms by (auto simp: closeTool_def Let_def split: prod.splits option.splits if_splits)

lemma closeTool_read:
  assumes "closeTool stores user (e0, out0, opened) = (e, out, stores')" and "stores user = Some st" and "opened \<in> {None, Some (restart st)}"
  shows "\<exists>st'. stores' user = Some st' \<and> sFiles st' = sFiles st \<and> sDB st' = (sDB st)\<lparr>tMeta := tMeta (sDB st')\<rparr>"
  using assms by (auto simp: closeTool_def Let_def Save_def SetMeta_def restart_db split: ending.splits)

text \<open>C14: the command changes the store of one user at most, and nothing of the memory of the server; and unless one of its
  arguments is the name of a command that deletes or edits, all mails of all users read as before, in the same files.\<close>

theorem tool_effects:
  assumes "toolMain tw stores argv = (e, out, stores')"
  shows "dom stores' = dom stores \<and> (\<exists>user. \<forall>u. u \<noteq> user \<longrightarrow> stores' u = stores u) \<and>
    (\<forall>u st. stores u = Some st \<longrightarrow> (\<exists>st'. stores' u = Some st' \<and> lastFile st' = lastFile st \<and> sOffset st' = sOffset st \<and>
       (set argv \<inter> set [''delete'', ''del'', ''remove'', ''rm'', ''edit''] = {} \<longrightarrow>
          sFiles st' = sFiles st \<and> (\<forall>gunzip i. Read gunzip i st' = Read gunzip i st))))"
  using assms
proof (rule toolMain_cases)
  fix user cmd args
  assume cmd: "cmd \<in> set argv" and run: "closeTool stores user (account tw (stores user) cmd args) = (e, out, stores')"
  obtain e0 out0 opened where acc: "account tw (stores user) cmd args = (e0, out0, opened)" by (metis prod_cases3)
  have same: "\<exists>st'. stores' u = Some st' \<and> sFiles st' = sFiles st \<and> (\<forall>gunzip i. Read gunzip i st' = Read gunzip i st)"
    if st: "stores u = Some st" and no: "set argv \<inter> set [''delete'', ''del'', ''remove'', ''rm'', ''edit''] = {}" for u st
  proof (cases "u = user")
    case True
    have "cmd \<notin> set [''delete'', ''del'', ''remove'', ''rm'']" "cmd \<noteq> ''edit''" using cmd no by auto
    then have "opened \<in> {None, Some (restart st)}" using account_reads acc st True by (cases opened) auto
    then obtain st' where "stores' user = Some st'" "sFiles st' = sFiles st" "sDB st' = (sDB st)\<lparr>tMeta := tMeta (sDB st')\<rparr>"
      using closeTool_read [OF run [unfolded acc]] st True by blast
    then show ?thesis using Read_meta True by blast
  qed (use closeTool_others(2) [OF run] st in simp)
  have "\<exists>st'. stores' u = Some st' \<and> lastFile st' = lastFile st \<and> sOffset st' = sOffset st \<and>
      (set argv \<inter> set [''delete'', ''del'', ''remove'', ''rm'', ''edit''] = {} \<longrightarrow>
         sFiles st' = sFiles st \<and> (\<forall>gunzip i. Read gunzip i st' = Read gunzip i st))"
    if st: "stores u = Some st" for u st
  proof -
    obtain st' where st': "stores' u = Some st'" "lastFile st' = lastFile st" "sOffset st' = sOffset st"
      using closeTool_others(3) [OF run st] by blast
    show ?thesis by (rule exI [of _ st'], intro conjI impI st') (use same [OF st] st'(1) in \<open>simp_all only: option.inject ex_simps simp_thms\<close>)
  qed
  then show ?thesis using closeTool_others(1,2) [OF run] by blast
qed auto

text \<open>The mail of a user, who is one of the domain, is read.\<close>

definition demoTool :: toolWorld where
  "demoTool =
     \<lparr>twDisk = demoDisk, twHashers = demoHashers, twWorld = emptyWorld,
      twHash = \<lparr>hashArgon2id = \<lambda>_ _. None, hashScrypt = \<lambda>_ _. None, hashBcrypt = \<lambda>_ _. None\<rparr>,
      twGzip = \<lambda>b. b, twGunzip = Some, twParse = \<lambda>_. None, twDecode = Some, twEditor = \<lambda>_. Some, twEnv = [], twNow = ''2'', twStdin = []\<rparr>"

lemma demoTool_read:
  "\<exists>stores'. toolMain demoTool [''bob@a.org'' \<mapsto> demoStore] [''-config='', ''bob@a.org'', ''read'', ''1''] = (Returns, OutBytes [65], stores')"
proof -
  have r: "Read Some 1 (restart demoStore) = Inr (Some ([65], 0))"
    by (simp add: Read_def GetEmail_def demoStore_emails restart_db demo_ReadEmail)
  have a: "Atoi ''1'' = Some 1" by code_simp
  show ?thesis
    by (simp add: toolMain_def flagParse.simps(2) Let_def demoTool_def demo_parsed Load_def loadArgon2id_def loadScrypt_def loadBcrypt_def
        demoApp_def toolCommand_def accountOf_def Exists_def existsStatic_def demoConfig_def AdminEmails_def subaddressOf_def withKey_def
        GetKey_def noCrypto_def account_def read_def openStore_def demoStore_files a r closeTool_def)
qed

theorem tool_effects_witness:
  "\<exists>out stores' st'. toolMain demoTool [''bob@a.org'' \<mapsto> demoStore] [''-config='', ''bob@a.org'', ''read'', ''1''] = (Returns, out, stores') \<and>
     stores' ''bob@a.org'' = Some st' \<and> Read Some 1 st' = Read Some 1 demoStore"
proof -
  obtain stores' where run: "toolMain demoTool [''bob@a.org'' \<mapsto> demoStore] [''-config='', ''bob@a.org'', ''read'', ''1''] = (Returns, OutBytes [65], stores')"
    using demoTool_read by blast
  have "[''bob@a.org'' \<mapsto> demoStore] ''bob@a.org'' = Some demoStore"
    "set [''-config='', ''bob@a.org'', ''read'', ''1''] \<inter> set [''delete'', ''del'', ''remove'', ''rm'', ''edit''] = {}" by simp_all
  then have "\<exists>st'. stores' ''bob@a.org'' = Some st' \<and> Read Some 1 st' = Read Some 1 demoStore"
    using tool_effects [OF run, THEN conjunct2, THEN conjunct2] by blast
  then show ?thesis using run by blast
qed

text \<open>The flag \<open>domain\<close> excludes the short name of an account.\<close>

lemma domain_flag_excludes_catch_all: "CHR ''@'' \<notin> set d \<Longrightarrow> d \<noteq> [] \<Longrightarrow> accountOf w domains d d = Inl (Exits 1)"
  by (simp add: accountOf_def cut_none)

end
