(* ===== verification/Utils_Listen.thy ===== *)
theory Utils_Listen
  imports Atmail_Prelude
begin

text \<open>
  Several sockets as one, \<open>MultiListener\<close> of \<open>src/utils/listen.go\<close>, the values of a context,
  \<open>src/utils/context.go\<close>, and the connection to the account service in \<open>src/auth/domain.go\<close>.

  What a socket will give, connections and errors, is a list. A goroutine per socket accepts one after the other and sends each on a channel
  that has no buffer: it holds it until a call of \<open>Accept\<close> takes it. A value of a context is found under its key, the last that was set.
\<close>

section \<open>Several sockets\<close>

record 'c MultiListener =
  mlSockets :: "'c list list"
  mlHeld :: "'c option list"
  mlOut :: "(nat \<times> 'c) list"

definition NewMultiListener :: "'c list list \<Rightarrow> 'c MultiListener" where
  "NewMultiListener ls = \<lparr>mlSockets = ls, mlHeld = replicate (length ls) None, mlOut = []\<rparr>"

text \<open>The body of the loop of a goroutine, in two pieces.\<close>

definition subAccept :: "nat \<Rightarrow> 'c MultiListener \<Rightarrow> 'c MultiListener option" where
  "subAccept i l =
     (case (mlHeld l ! i, mlSockets l ! i) of
        (None, v # vs) \<Rightarrow> Some (l\<lparr>mlHeld := (mlHeld l)[i := Some v], mlSockets := (mlSockets l)[i := vs]\<rparr>)
      | _ \<Rightarrow> None)"

definition AcceptFrom :: "nat \<Rightarrow> 'c MultiListener \<Rightarrow> 'c MultiListener option" where
  "AcceptFrom i l =
     (case mlHeld l ! i of
        Some v \<Rightarrow> Some (l\<lparr>mlHeld := (mlHeld l)[i := None], mlOut := mlOut l @ [(i, v)]\<rparr>)
      | None \<Rightarrow> None)"

inductive multi_step :: "'c MultiListener \<Rightarrow> 'c MultiListener \<Rightarrow> bool" where
  sub: "i < length (mlHeld l) \<Longrightarrow> subAccept i l = Some l' \<Longrightarrow> multi_step l l'"
| out: "i < length (mlHeld l) \<Longrightarrow> AcceptFrom i l = Some l' \<Longrightarrow> multi_step l l'"

inductive_simps multi_step_iff: "multi_step l l'"

section \<open>Contexts\<close>

datatype key = loggerKey | verboseKey

datatype 'l ctxValue = LoggerValue 'l | BoolValue bool

type_synonym 'l goContext = "(key \<times> 'l ctxValue) list"

definition Logger :: "'l \<Rightarrow> 'l goContext \<Rightarrow> 'l" where
  "Logger def ctx = (case map_of ctx loggerKey of Some (LoggerValue l) \<Rightarrow> l | _ \<Rightarrow> def)"

definition WithLogger :: "'l goContext \<Rightarrow> 'l \<Rightarrow> 'l goContext" where
  "WithLogger ctx l = (loggerKey, LoggerValue l) # ctx"

definition Verbose :: "'l goContext \<Rightarrow> bool" where
  "Verbose ctx = (case map_of ctx verboseKey of Some (BoolValue v) \<Rightarrow> v | _ \<Rightarrow> False)"

definition WithVerbose :: "'l goContext \<Rightarrow> bool \<Rightarrow> 'l goContext" where
  "WithVerbose ctx v = (verboseKey, BoolValue v) # ctx"

lemma context_values [simp]:
  "Logger d (WithLogger ctx l) = l" "Verbose (WithVerbose ctx v) = v"
  "Logger d (WithVerbose ctx v) = Logger d ctx" "Verbose (WithLogger ctx l) = Verbose ctx"
  "Logger d [] = d" "\<not> Verbose []"
  by (simp_all add: Logger_def WithLogger_def Verbose_def WithVerbose_def)

section \<open>The account service\<close>

text \<open>\<open>Den.Connect\<close>; \<open>None\<close> is the panic of an index out of range.\<close>

definition Connect :: "(string \<Rightarrow> string \<Rightarrow> string \<Rightarrow> 'c option) \<Rightarrow> string \<Rightarrow> 'c option option" where
  "Connect dial address =
     (case address of
        [] \<Rightarrow> None
      | c # _ \<Rightarrow> Some (dial ''atmail'' (if c = CHR ''/'' then ''unix'' else ''tcp'') address))"

lemma Connect_panics: "Connect dial address = None \<longleftrightarrow> address = []"
  by (simp add: Connect_def split: list.split)

section \<open>Properties\<close>

definition givenBy :: "nat \<Rightarrow> 'c MultiListener \<Rightarrow> 'c list" where
  "givenBy i l = map snd (filter (\<lambda>x. fst x = i) (mlOut l))"

definition heldBy :: "nat \<Rightarrow> 'c MultiListener \<Rightarrow> 'c list" where
  "heldBy i l = (case mlHeld l ! i of None \<Rightarrow> [] | Some v \<Rightarrow> [v])"

definition multiOk :: "'c list list \<Rightarrow> 'c MultiListener \<Rightarrow> bool" where
  "multiOk ls l \<longleftrightarrow> length (mlHeld l) = length ls \<and> length (mlSockets l) = length ls \<and>
     (\<forall>i < length ls. givenBy i l @ heldBy i l @ mlSockets l ! i = ls ! i)"

lemma multiOk_new: "multiOk ls (NewMultiListener ls)"
  by (simp add: multiOk_def NewMultiListener_def givenBy_def heldBy_def)

text \<open>A step keeps what a socket gave and gives.\<close>

lemma multi_step_keeps:
  assumes "multi_step l l'" and "length (mlSockets l) = length (mlHeld l)"
  shows "length (mlHeld l') = length (mlHeld l) \<and> length (mlSockets l') = length (mlSockets l) \<and>
    givenBy j l' @ heldBy j l' @ mlSockets l' ! j = givenBy j l @ heldBy j l @ mlSockets l ! j"
  using assms
  by cases (auto simp: subAccept_def AcceptFrom_def givenBy_def heldBy_def nth_list_update split: option.splits list.splits if_splits)

lemma multiOk_step: "multiOk ls l \<Longrightarrow> multi_step l l' \<Longrightarrow> multiOk ls l'"
  using multi_step_keeps [of l l'] by (simp add: multiOk_def)

interpretation multi: transition_system "(=) (NewMultiListener ls)" multi_step "multiOk ls" for ls
  by unfold_locales (use multiOk_new in \<open>auto intro: multiOk_step\<close>)

lemma multi_stuck:
  assumes "\<nexists>l'. multi_step l l'" and "i < length (mlHeld l)"
  shows "heldBy i l = [] \<and> mlSockets l ! i = []"
proof -
  have "AcceptFrom i l = None" "subAccept i l = None" using assms unfolding multi_step_iff by (metis not_None_eq)+
  then show ?thesis by (auto simp: AcceptFrom_def subAccept_def heldBy_def split: option.splits list.splits)
qed

definition multiLeft :: "'c MultiListener \<Rightarrow> nat" where
  "multiLeft l = 2 * sum_list (map length (mlSockets l)) + length (filter (\<lambda>h. h \<noteq> None) (mlHeld l))"

lemma filter_update_length:
  "i < length hs \<Longrightarrow> length (filter P (hs[i := h])) + (if P (hs ! i) then 1 else 0) = length (filter P hs) + (if P h then 1 else 0)"
proof (induction hs arbitrary: i)
  case (Cons x hs)
  then show ?case by (cases i) auto
qed simp

lemma sum_update_length:
  "i < length xs \<Longrightarrow> sum_list (map length (xs[i := ys])) + length (xs ! i) = sum_list (map length xs) + length ys"
proof (induction xs arbitrary: i)
  case (Cons x xs)
  then show ?case by (cases i) auto
qed simp

lemma multi_decreases:
  assumes "multi_step l l'" and "length (mlSockets l) = length (mlHeld l)"
  shows "multiLeft l' < multiLeft l"
  using assms(1)
proof cases
  case (sub i)
  obtain v vs where h: "mlHeld l ! i = None" "mlSockets l ! i = v # vs"
    and l': "l' = l\<lparr>mlHeld := (mlHeld l)[i := Some v], mlSockets := (mlSockets l)[i := vs]\<rparr>"
    using sub(2) by (auto simp: subAccept_def split: option.splits list.splits)
  have "sum_list (map length ((mlSockets l)[i := vs])) + length (v # vs) = sum_list (map length (mlSockets l)) + length vs"
    using sum_update_length [of i "mlSockets l" vs] sub(1) assms(2) h(2) by simp
  moreover have "length (filter (\<lambda>h. h \<noteq> None) ((mlHeld l)[i := Some v])) = Suc (length (filter (\<lambda>h. h \<noteq> None) (mlHeld l)))"
    using filter_update_length [OF sub(1), of "\<lambda>h. h \<noteq> None" "Some v"] h(1) by simp
  ultimately show ?thesis by (simp add: multiLeft_def l')
next
  case (out i)
  obtain v where h: "mlHeld l ! i = Some v" and l': "l' = l\<lparr>mlHeld := (mlHeld l)[i := None], mlOut := mlOut l @ [(i, v)]\<rparr>"
    using out(2) by (auto simp: AcceptFrom_def split: option.splits)
  show ?thesis
    using filter_update_length [OF out(1), of "\<lambda>h. h \<noteq> None" None] h by (simp add: multiLeft_def l')
qed

text \<open>C22: no connection is lost or given twice: what the calls of \<open>Accept\<close> have taken from a socket is always a first part of what it
  gives, in its order; there is an end to the steps, and when there is no more all of every socket has been taken.\<close>

theorem multi_listener_gives_all:
  assumes "multi_step\<^sup>*\<^sup>* (NewMultiListener ls) l" and "i < length ls"
  shows "(\<exists>rest. ls ! i = givenBy i l @ rest) \<and> (\<forall>l'. multi_step l l' \<longrightarrow> multiLeft l' < multiLeft l) \<and>
    ((\<nexists>l'. multi_step l l') \<longrightarrow> givenBy i l = ls ! i)"
proof -
  have ok: "multiOk ls l" using multi.reachable_inv [OF refl assms(1)] .
  then have "ls ! i = givenBy i l @ heldBy i l @ mlSockets l ! i" "length (mlHeld l) = length ls" "length (mlSockets l) = length (mlHeld l)"
    using assms(2) by (auto simp: multiOk_def)
  then show ?thesis using multi_decreases [of l] multi_stuck [of l i] assms(2) by (metis append.right_neutral)
qed

theorem multi_listener_gives_all_witness:
  "\<exists>l. multi_step\<^sup>*\<^sup>* (NewMultiListener [[], [7 :: nat]]) l \<and> givenBy 1 l = [7]"
proof -
  let ?a = "NewMultiListener [[], [7 :: nat]]"
  let ?b = "?a\<lparr>mlHeld := [None, Some 7], mlSockets := [[], []]\<rparr>"
  let ?c = "?b\<lparr>mlHeld := [None, None], mlOut := [(1, 7)]\<rparr>"
  have "multi_step ?a ?b" by (rule multi_step.sub [of 1]) (simp_all add: NewMultiListener_def subAccept_def)
  moreover have "multi_step ?b ?c" by (rule multi_step.out [of 1]) (simp_all add: NewMultiListener_def AcceptFrom_def)
  ultimately have run: "multi_step\<^sup>*\<^sup>* ?a ?c" by (meson converse_rtranclp_into_rtranclp rtranclp.rtrancl_refl)
  have "\<nexists>l'. multi_step ?c l'"
    by (auto elim!: multi_step.cases simp: subAccept_def AcceptFrom_def less_Suc_eq)
  then have "givenBy 1 ?c = [7]" using multi_listener_gives_all [OF run, of 1] by simp
  then show ?thesis using run by blast
qed

end
