(* ===== verification/Spec2Isabelle.thy ===== *)
theory Spec2Isabelle
  imports Relay_Send Relay_Verify Store_Search Store_Race Store_Cache Atmail_Daemon Atmail_Tool Utils_Listen
begin

text \<open>
  A verification of AT Mail, a mail server written in Go: it receives mails by SMTP, filters them, stores those for its
  own users, relays the others, and shows the stored ones by IMAP.

  \<^bold>\<open>The parts and how they interact.\<close> The server process (\<open>src/cmd/atmaild/main.go\<close>) loads the configuration
  (\<open>src/config.go\<close>) and runs an SMTP server, an IMAP server and a queue. A session of SMTP (\<open>src/relay/session.go\<close>) asks the accounts
  of the domains (\<open>src/auth\<close>) who may send; its command DATA gives the mail to rspamd (\<open>src/relay/rspamd.go\<close>) and to the filters
  (\<open>src/relay/filter.go\<close>, the language of \<open>src/filter\<close>), and hands it to \<open>send\<close> (\<open>src/relay/relay.go\<close>), which groups the recipients by domain, stores
  it for local ones, expands groups, and puts it into the queue (\<open>src/relay/queue.go\<close>) for the others. A user has files of mails, a
  database in SQLite and a cached offset (\<open>src/storage\<close>). The sessions of IMAP (\<open>src/display\<close>) work on the same stores and share a view
  per mailbox (\<open>src/mailbox\<close>), which the relay tells of new mails. Failed logins are limited by address (\<open>src/auth/ratelimit.go\<close>). The command line
  (\<open>src/cmd/atmail\<close>) is another process on the same stores.

  \<^bold>\<open>The theories.\<close> Names are those of the source; pieces of a function have names of their own.

  \<^item> \<open>Atmail_Prelude\<close>: types for Go's, functions of \<open>strings\<close>, and the locales \<open>transition_system\<close> (an invariant holds in every state
    that is reached) and \<open>refinement\<close> (every trace of calls and answers is one of the specification), which the concurrent components interpret. \<open>Utils_Slices\<close>, \<open>Utils_Listen\<close>: \<open>src/utils\<close>.
  \<^item> \<open>Filter_Lexer\<close>, \<open>Go_Float\<close>, \<open>Filter_Parser\<close>, \<open>Filter_Eval\<close>: \<open>src/filter\<close>, from bytes to lexems, statements and results. A Go double is an exact
    fraction or a special value. The locales \<open>subparser\<close>, \<open>operand\<close> and \<open>statements\<close> state what a parser promises the ones that call it.
  \<^item> \<open>Auth_Domain\<close>, \<open>Auth_Crypto\<close>, \<open>Rate_Limiter\<close>: \<open>src/auth\<close>. The limiter is a labelled step relation of its calls and goroutines, whose traces
    are those of an abstract limiter on the standing of addresses.
  \<^item> \<open>Relay_Types\<close>, \<open>Relay_Session\<close>, \<open>Relay_Rspamd\<close>, \<open>Relay_Data\<close>, \<open>Relay_Verify\<close>, \<open>Relay_Send\<close>, \<open>Relay_Outside\<close>, \<open>Relay_Queue\<close>: \<open>src/relay\<close>. The commands of a session
    are run in whatever order the client sends them. What the queue holds of a mail is a pointer: the messages are in a store of the queue that a sending
    reads to the end and that the relay may change at any time. A delivery gives the list of what it queued, stored, logged and refused.
  \<^item> \<open>Store_Format\<close> (records in a file of bytes, with the locale \<open>record_file\<close>), \<open>Store_DB\<close> (the tables, the queries and the
    constraints SQLite checks), \<open>Store_Mail\<close>, \<open>Store_Mailbox\<close>, \<open>Store_Search\<close>, \<open>Store_Race\<close> (deliveries that overlap), \<open>Store_Cache\<close> (the open databases of a process):
    \<open>src/storage\<close>. The invariant \<open>storeOk\<close> says that every row has its record, that records do not overlap, and that all end before the cached offset.
    A transaction that fails is never rolled back by the code: \<open>sBusy\<close> says that one is open, and every later write of the process fails.
  \<^item> \<open>Mailbox_View\<close>, \<open>Imap_Session\<close>, \<open>Imap_Selected\<close>: \<open>src/mailbox\<close> and \<open>src/display\<close>, every command of a session on the state
    the sessions share, \<open>login_run\<close>, the logins of a session in any order, and \<open>imap_step\<close>, the commands of all sessions and deliveries in any order,
    each of them whole, with mails of less than five mebibytes and offsets below four gibibytes.
  \<^item> \<open>Atmail_Config\<close>, \<open>Atmail_Daemon\<close>, \<open>Atmail_Tool\<close>: \<open>src/config.go\<close> and \<open>src/cmd\<close>, the two processes with their exit codes.

  \<^bold>\<open>What is shown.\<close> Of the filters: lexing a source in ASCII loses nothing, parsing always returns, and a filter that was parsed panics in few ways, which are named, and
  never removes a recipient or changes the sender or the body. Of the relay: no recipient of another domain is taken without a verified login for the sender (but for two flaws: a MAIL command that was
  refused, and a domain without a name), recipients are kept, every recipient and every member of a group, also of groups of groups, is stored, logged, refused or queued
  once, and the queue loses nothing and makes nothing up, bounds its senders and its retries, and gets to every mail when it has a sender. Of the storage: a mail of less than five mebibytes that is delivered is read
  back with its content, whatever all sessions do, and by the command line; keys and references stay consistent; removal deletes exactly the mails that are in no
  mailbox any more. Of the processes: what a configuration that loads promises, what loading it again changes, what is saved at the end, and what the
  command line leaves as it is. Where the code does not do what it means to, the theorem states what it does: overlapping
  deliveries overwrite each other, a mail of five mebibytes or more is misplaced, a transaction that failed blocks the database, a body that rspamd changes is lost, a retry sends
  an empty body, a login that fails late opens the session, STORE marks mails as seen, and others.

  \<^bold>\<open>Bounds and fuel.\<close> The parser has the length of its source plus one as fuel, which is shown to be enough and not to matter. \<open>send\<close> has a depth of
  groups: for groups that are nested no deeper it returns, for a group that contains itself no depth is enough, as the code
  calls itself for ever. \<open>simdSearch\<close> has fuel, and is shown to end for some fuel exactly when nothing is found. Offsets, sizes, places of a search, UIDs and counts have the width the
  code gives them, and wrap around; identifiers of SQLite are integers.

  \<^bold>\<open>Arguments.\<close> What is not part of the repository is an argument: gzip, OpenPGP, the parsers and printers of messages, JSON, the libraries of SMTP and IMAP, DNS,
  the account service Den, the hashes of passwords, the clock, the editor of the command line, the order in which Go visits a map, and
  which calls of the operating system fail. A hypothesis on one of them (such as that gunzip undoes gzip) is stated in the theorem that needs it, with a witness.

  \<^bold>\<open>Not modelled.\<close> Errors of the disk while a mail file is read or written, and a disk that is full; the text of the log and of messages to the client;
  timeouts; the answers \<open>Poll\<close> and \<open>Namespace\<close>, which are constants, and the options given to the libraries; the SQL text of the queries, whose effect on the tables \<open>Store_DB\<close> defines; the Go
  code that sqlc generates from them; and the memory model of Go: a step of a goroutine between two waits is atomic.
\<close>

section \<open>From the relay to the command line\<close>

lemma OnReceive_stores: "iStores (snd (OnReceive accepts user box i B)) = iStores B"
  by (simp add: OnReceive_def tell_def Let_def setView_def BoxesAdd_def split: option.split)



end
